(* ===== verification/Prelude.thy ===== *)
theory Prelude
  imports Main "HOL-Library.Word"
begin

text \<open>
  Shared vocabulary and automation: bytes, decimal numerals as \<^verbatim>\<open>strconv.Itoa\<close>
  prints them, counting over lists that are updated by index, and the reachability
  relation with its invariant principle, which the session and server machines use.
\<close>

unbundle bit_operations_syntax

type_synonym byte = "8 word"
type_synonym bytes = "byte list"

named_theorems step_ops \<open>the operations that the steps of a machine are made of\<close>

section \<open>Decimal numerals\<close>

text \<open>\<^verbatim>\<open>strconv.Itoa\<close> and the \<^verbatim>\<open>%d\<close> verb.\<close>

definition digit :: "nat \<Rightarrow> char" where
  "digit n = char_of (48 + n)"

fun itoa_nat :: "nat \<Rightarrow> string" where
  "itoa_nat n = (if n < 10 then [digit n] else itoa_nat (n div 10) @ [digit (n mod 10)])"

declare itoa_nat.simps [simp del]

definition itoa :: "int \<Rightarrow> string" where
  "itoa i = (if i < 0 then CHR ''-'' # itoa_nat (nat (- i)) else itoa_nat (nat i))"

definition undigit :: "char \<Rightarrow> nat" where
  "undigit c = of_char c - 48"

lemma undigit_digit [simp]: "n < 10 \<Longrightarrow> undigit (digit n) = n"
  by (simp add: digit_def undigit_def of_char_of)

definition atoi :: "string \<Rightarrow> nat" where
  "atoi s = foldl (\<lambda>a c. 10 * a + undigit c) 0 s"

lemma atoi_snoc [simp]: "atoi (s @ [c]) = 10 * atoi s + undigit c"
  by (simp add: atoi_def)

lemma atoi_itoa_nat [simp]: "atoi (itoa_nat n) = n"
proof (induction n rule: itoa_nat.induct)
  case (1 n)
  show ?case
  proof (cases "n < 10")
    case True
    then show ?thesis by (simp add: itoa_nat.simps [of n] atoi_def)
  next
    case False
    with "1.IH" have "atoi (itoa_nat (n div 10)) = n div 10" by simp
    with False show ?thesis by (simp add: itoa_nat.simps [of n])
  qed
qed

lemma itoa_nat_inj: "itoa_nat m = itoa_nat n \<Longrightarrow> m = n"
  by (metis atoi_itoa_nat)

lemma set_itoa_nat: "set (itoa_nat n) \<subseteq> digit ` {..<10}"
proof (induction n rule: itoa_nat.induct)
  case (1 n)
  show ?case
  proof (cases "n < 10")
    case True
    then show ?thesis by (auto simp: itoa_nat.simps [of n])
  next
    case False
    then show ?thesis using "1.IH" by (auto simp: itoa_nat.simps [of n])
  qed
qed

section \<open>Lists\<close>

lemma sum_list_update_nat:
  "i < length xs \<Longrightarrow>
    sum_list (map f (xs[i := x])) + f (xs ! i) = sum_list (map f xs) + (f x :: nat)"
proof (induction xs arbitrary: i)
  case Nil
  then show ?case by simp
next
  case (Cons y ys)
  then show ?case by (cases i) auto
qed

definition count_where :: "('a \<Rightarrow> bool) \<Rightarrow> 'a list \<Rightarrow> nat" where
  "count_where P xs = sum_list (map (\<lambda>x. of_bool (P x)) xs)"

lemma count_where_simps [simp]:
  "count_where P [] = 0"
  "count_where P (x # xs) = of_bool (P x) + count_where P xs"
  "count_where P (xs @ ys) = count_where P xs + count_where P ys"
  by (simp_all add: count_where_def)

lemma count_where_update:
  "i < length xs \<Longrightarrow>
    count_where P (xs[i := x]) + of_bool (P (xs ! i)) = count_where P xs + of_bool (P x)"
  unfolding count_where_def by (rule sum_list_update_nat)

lemma count_where_zero: "count_where P xs = 0 \<longleftrightarrow> (\<forall>x \<in> set xs. \<not> P x)"
  by (induction xs) auto

lemma count_where_pos: "i < length xs \<Longrightarrow> P (xs ! i) \<Longrightarrow> 0 < count_where P xs"
  by (metis count_where_zero nth_mem bot_nat_0.not_eq_extremum)

lemma count_where_mono:
  "(\<And>x. x \<in> set xs \<Longrightarrow> P x \<Longrightarrow> Q x) \<Longrightarrow> count_where P xs \<le> count_where Q xs"
  by (induction xs) (auto simp: add_mono of_bool_def)

lemma takeWhile_neq_split:
  "b \<in> set xs \<Longrightarrow>
    take (Suc (length (takeWhile (\<lambda>x. x \<noteq> b) xs))) xs = takeWhile (\<lambda>x. x \<noteq> b) xs @ [b]"
  by (induction xs) auto

lemma takeWhile_neq_length:
  "b \<in> set xs \<Longrightarrow> length (takeWhile (\<lambda>x. x \<noteq> b) xs) < length xs"
  by (induction xs) auto

section \<open>Reachability and invariants\<close>

text \<open>
  A machine is a set of initial states and a labelled step relation. The locale is the
  contract between a machine and an invariant; its one lemma lifts the invariant to the
  reachable states, and each machine interprets it.
\<close>

inductive reachable :: "('s \<Rightarrow> bool) \<Rightarrow> ('s \<Rightarrow> 'l \<Rightarrow> 's \<Rightarrow> bool) \<Rightarrow> 's \<Rightarrow> bool"
  for init step where
  reach_init: "init s \<Longrightarrow> reachable init step s"
| reach_step: "reachable init step s \<Longrightarrow> step s l t \<Longrightarrow> reachable init step t"

locale safety_invariant =
  fixes init :: "'s \<Rightarrow> bool"
    and step :: "'s \<Rightarrow> 'l \<Rightarrow> 's \<Rightarrow> bool"
    and inv :: "'s \<Rightarrow> bool"
  assumes inv_init: "init s \<Longrightarrow> inv s"
    and inv_step: "inv s \<Longrightarrow> step s l t \<Longrightarrow> inv t"
begin

lemma inv_reachable: "reachable init step s \<Longrightarrow> inv s"
  by (induction rule: reachable.induct) (auto intro: inv_init inv_step)

end

end
