(* ===== verification/GoErrors.thy ===== *)
theory GoErrors
  imports Prelude
begin

text \<open>
  Go error values: the sentinels of the library (\<^verbatim>\<open>listener/errors.go\<close>,
  \<^verbatim>\<open>framing/framing.go\<close>, \<^verbatim>\<open>client/quic.go\<close>) and of the standard library it compares
  against, \<^verbatim>\<open>fmt.Errorf\<close> wrappers, \<^verbatim>\<open>NetworkError\<close> and \<^verbatim>\<open>ValidationError\<close>, with
  \<^verbatim>\<open>Error()\<close>, \<^verbatim>\<open>Unwrap\<close> and \<^verbatim>\<open>errors.Is\<close>.
\<close>

datatype error_type = ErrConnection | ErrConfiguration | ErrProtocol | ErrSession

text \<open>
  \<open>Wrap p e s\<close> is \<^verbatim>\<open>fmt.Errorf\<close> of a format with one \<^verbatim>\<open>%w\<close>: the text before it, the wrapped
  error, the text after it. \<open>OpError s b\<close> is an error of the operating system or of a
  package outside this repository, with its text and whether it is a \<^verbatim>\<open>net.Error\<close> whose
  \<^verbatim>\<open>Timeout()\<close> holds. The other nullary constructors are sentinels, compared by identity.
\<close>

datatype err =
    EOF | ErrUnexpectedEOF | ErrBufferFull | ErrNoProgress | ErrVarintOverflow
  | NetErrClosed | DeadlineExceeded | Canceled
  | ErrFrameTooLarge | ErrCorruptFrame | ErrEmptyDelimiter
  | ErrSlowConsumer | ErrSessionClosed | ErrServerFull | ErrServerStopped | ErrMessageTooLarge
  | ErrNotConnected
  | RuntimePanic string
  | OpError string bool
  | Wrap string err string
  | NetworkError error_type string "err option"
  | ValidationError string string

section \<open>Text, unwrapping and matching\<close>

fun error_type_text :: "error_type \<Rightarrow> string" where
  "error_type_text ErrConnection = ''connection''"
| "error_type_text ErrConfiguration = ''configuration''"
| "error_type_text ErrProtocol = ''protocol''"
| "error_type_text ErrSession = ''session''"

fun error_text :: "err \<Rightarrow> string" where
  "error_text EOF = ''EOF''"
| "error_text ErrUnexpectedEOF = ''unexpected EOF''"
| "error_text ErrBufferFull = ''bufio: buffer full''"
| "error_text ErrNoProgress = ''multiple Read calls return no data or error''"
| "error_text ErrVarintOverflow = ''binary: varint overflows a 64-bit integer''"
| "error_text NetErrClosed = ''use of closed network connection''"
| "error_text DeadlineExceeded = ''context deadline exceeded''"
| "error_text Canceled = ''context canceled''"
| "error_text ErrFrameTooLarge = ''framing: frame exceeds maximum length''"
| "error_text ErrCorruptFrame = ''framing: corrupt frame''"
| "error_text ErrEmptyDelimiter = ''framing: empty delimiter''"
| "error_text ErrSlowConsumer = ''gophersocks: client is not reading fast enough''"
| "error_text ErrSessionClosed = ''gophersocks: session closed''"
| "error_text ErrServerFull = ''gophersocks: server is at max connections''"
| "error_text ErrServerStopped = ''gophersocks: server stopped''"
| "error_text ErrMessageTooLarge = ''gophersocks: message exceeds maximum length''"
| "error_text ErrNotConnected = ''gophersocks client: not connected''"
| "error_text (RuntimePanic s) = s"
| "error_text (OpError s t) = s"
| "error_text (Wrap p e s) = p @ error_text e @ s"
| "error_text (NetworkError t m (Some e)) = error_type_text t @ '' error: '' @ m @ '': '' @ error_text e"
| "error_text (NetworkError t m None) = error_type_text t @ '' error: '' @ m"
| "error_text (ValidationError f m) = ''validation error: '' @ f @ '': '' @ m"

fun unwrap :: "err \<Rightarrow> err option" where
  "unwrap (Wrap p e s) = Some e"
| "unwrap (NetworkError t m e) = e"
| "unwrap _ = None"

text \<open>\<^verbatim>\<open>errors.Is\<close>: the error or something it wraps is the target.\<close>

fun errors_is :: "err \<Rightarrow> err \<Rightarrow> bool" where
  "errors_is (Wrap p e s) target = (Wrap p e s = target \<or> errors_is e target)"
| "errors_is (NetworkError t m (Some e)) target =
     (NetworkError t m (Some e) = target \<or> errors_is e target)"
| "errors_is e target = (e = target)"

text \<open>\<^verbatim>\<open>errors.As(err, &ne) && ne.Timeout()\<close> for \<^verbatim>\<open>ne net.Error\<close>.\<close>

fun is_timeout :: "err \<Rightarrow> bool" where
  "is_timeout (OpError s t) = t"
| "is_timeout DeadlineExceeded = True"
| "is_timeout (Wrap p e s) = is_timeout e"
| "is_timeout (NetworkError t m (Some e)) = is_timeout e"
| "is_timeout _ = False"

lemma errors_is_refl [simp]: "errors_is e e"
  by (cases "(e, e)" rule: errors_is.cases) auto

lemma errors_is_unwrap:
  "errors_is e target \<longleftrightarrow> e = target \<or> (\<exists>e'. unwrap e = Some e' \<and> errors_is e' target)"
  by (induction e target rule: errors_is.induct) auto

section \<open>Constructors\<close>

definition NewConnectionError :: "string \<Rightarrow> err option \<Rightarrow> err" where
  "NewConnectionError msg e = NetworkError ErrConnection msg e"

definition NewConfigError :: "string \<Rightarrow> err option \<Rightarrow> err" where
  "NewConfigError msg e = NetworkError ErrConfiguration msg e"

definition NewProtocolError :: "string \<Rightarrow> err option \<Rightarrow> err" where
  "NewProtocolError msg e = NetworkError ErrProtocol msg e"

definition NewSessionError :: "string \<Rightarrow> err option \<Rightarrow> err" where
  "NewSessionError msg e = NetworkError ErrSession msg e"

definition NewValidationError :: "string \<Rightarrow> string \<Rightarrow> err" where
  "NewValidationError field message = ValidationError field message"

lemmas new_error_defs = NewConnectionError_def NewConfigError_def NewProtocolError_def
  NewSessionError_def NewValidationError_def

lemma errors_is_new_error [simp]:
  "errors_is (NewConnectionError m (Some e)) e"
  "errors_is (NewConfigError m (Some e)) e"
  "errors_is (NewProtocolError m (Some e)) e"
  "errors_is (NewSessionError m (Some e)) e"
  by (simp_all add: new_error_defs)

end
