(* ===== verification/GoBufio.thy ===== *)
theory GoBufio
  imports GoErrors
begin

text \<open>
  The part of Go's standard library the framing code reads through: \<^verbatim>\<open>bufio.Reader\<close>
  (\<^verbatim>\<open>NewReaderSize\<close>, \<^verbatim>\<open>fill\<close>, \<^verbatim>\<open>ReadSlice\<close>, \<^verbatim>\<open>ReadByte\<close>, \<^verbatim>\<open>Read\<close>, \<^verbatim>\<open>Buffered\<close>) and
  \<^verbatim>\<open>io.ReadFull\<close>. The connection below the reader is the sequence of chunks that its Read
  calls deliver, and the fault it reports once they are used up. The lemmas describe every
  operation by its effect on the remaining byte stream, whatever the chunks are.
\<close>

section \<open>The reader\<close>

datatype fault = FaultEOF | FaultClosed | FaultNoProgress | FaultOther string bool

fun fault_err :: "fault \<Rightarrow> err" where
  "fault_err FaultEOF = EOF"
| "fault_err FaultClosed = NetErrClosed"
| "fault_err FaultNoProgress = ErrNoProgress"
| "fault_err (FaultOther s t) = OpError s t"

record reader =
  rbuf :: bytes            \<comment> \<open>the buffered bytes, \<^verbatim>\<open>b.buf[b.r:b.w]\<close>\<close>
  rerr :: "fault option"   \<comment> \<open>the pending error \<^verbatim>\<open>b.err\<close>\<close>
  rsize :: nat             \<comment> \<open>the size asked of \<^verbatim>\<open>NewReaderSize\<close>\<close>
  chunks :: "bytes list"   \<comment> \<open>what the next Reads of the connection deliver\<close>
  final :: fault           \<comment> \<open>what they report afterwards\<close>

text \<open>\<^verbatim>\<open>NewReaderSize\<close> never allocates fewer than 16 bytes.\<close>

definition bsize :: "reader \<Rightarrow> nat" where
  "bsize r = max (rsize r) 16"

definition new_reader_size :: "nat \<Rightarrow> bytes list \<Rightarrow> fault \<Rightarrow> reader" where
  "new_reader_size n cs f = \<lparr>rbuf = [], rerr = None, rsize = n, chunks = cs, final = f\<rparr>"

definition Buffered :: "reader \<Rightarrow> nat" where
  "Buffered r = length (rbuf r)"

text \<open>One Read of the connection into \<open>n\<close> bytes of space.\<close>

definition conn_read :: "nat \<Rightarrow> reader \<Rightarrow> bytes \<times> fault option \<times> reader" where
  "conn_read n r = (case chunks r of
      [] \<Rightarrow> ([], Some (final r), r)
    | c # cs \<Rightarrow>
        if length c \<le> n then (c, None, r\<lparr>chunks := cs\<rparr>)
        else (take n c, None, r\<lparr>chunks := drop n c # cs\<rparr>))"

text \<open>\<^verbatim>\<open>fill\<close> gives up after 100 empty reads in a row.\<close>

fun fill_tries :: "nat \<Rightarrow> reader \<Rightarrow> reader" where
  "fill_tries 0 r = r\<lparr>rerr := Some FaultNoProgress\<rparr>"
| "fill_tries (Suc i) r = (case conn_read (bsize r - length (rbuf r)) r of
      (d, e, r') \<Rightarrow>
        (case e of
          Some x \<Rightarrow> r'\<lparr>rbuf := rbuf r @ d, rerr := Some x\<rparr>
        | None \<Rightarrow>
            if d \<noteq> [] then r'\<lparr>rbuf := rbuf r @ d\<rparr>
            else fill_tries i (r'\<lparr>rbuf := rbuf r @ d\<rparr>)))"

definition fill :: "reader \<Rightarrow> reader" where
  "fill r = fill_tries 100 r"

definition src_weight :: "reader \<Rightarrow> nat" where
  "src_weight r = sum_list (map (\<lambda>c. Suc (length c)) (chunks r)) + (if rerr r = None then 1 else 0)"

definition stream :: "reader \<Rightarrow> bytes" where
  "stream r = rbuf r @ concat (chunks r)"

definition same_source :: "reader \<Rightarrow> reader \<Rightarrow> bool" where
  "same_source r r' \<longleftrightarrow> rsize r' = rsize r \<and> final r' = final r"

lemma same_source_refl [simp]: "same_source r r"
  by (simp add: same_source_def)

lemma same_source_trans: "same_source r r' \<Longrightarrow> same_source r' r'' \<Longrightarrow> same_source r r''"
  by (simp add: same_source_def)

lemma bsize_pos [simp]: "0 < bsize r" "bsize r \<noteq> 0"
  by (simp_all add: bsize_def)

lemma fill_tries_stream: "stream (fill_tries i r) = stream r"
  by (induction i r rule: fill_tries.induct)
    (auto simp: stream_def conn_read_def split: list.splits)

lemma fill_tries_weight:
  "rerr r = None \<Longrightarrow> length (rbuf r) < bsize r \<Longrightarrow> src_weight (fill_tries i r) < src_weight r"
proof (induction i r rule: fill_tries.induct)
  case (1 r)
  then show ?case by (simp add: src_weight_def)
next
  case (2 i r)
  let ?n = "bsize r - length (rbuf r)"
  show ?case
  proof (cases "chunks r")
    case Nil
    with 2 show ?thesis by (simp add: conn_read_def src_weight_def)
  next
    case (Cons c cs)
    show ?thesis
    proof (cases "c = []")
      case True
      have "src_weight (fill_tries i (r\<lparr>chunks := cs\<rparr>)) < src_weight (r\<lparr>chunks := cs\<rparr>)"
        using 2 Cons True by (simp add: conn_read_def bsize_def)
      then show ?thesis using Cons True 2 by (simp add: conn_read_def src_weight_def)
    next
      case False
      with Cons 2 show ?thesis by (auto simp: conn_read_def src_weight_def)
    qed
  qed
qed

lemma fill_weight:
  "rerr r = None \<Longrightarrow> length (rbuf r) < bsize r \<Longrightarrow> src_weight (fill r) < src_weight r"
  by (simp add: fill_def fill_tries_weight)

section \<open>ReadSlice and ReadByte\<close>

function read_slice :: "byte \<Rightarrow> reader \<Rightarrow> bytes \<times> err option \<times> reader" where
  "read_slice b r =
     (if b \<in> set (rbuf r)
      then (let i = length (takeWhile (\<lambda>x. x \<noteq> b) (rbuf r))
            in (take (Suc i) (rbuf r), None, r\<lparr>rbuf := drop (Suc i) (rbuf r)\<rparr>))
      else case rerr r of
        Some e \<Rightarrow> (rbuf r, Some (fault_err e), r\<lparr>rbuf := [], rerr := None\<rparr>)
      | None \<Rightarrow>
          if bsize r \<le> Buffered r then (rbuf r, Some ErrBufferFull, r\<lparr>rbuf := []\<rparr>)
          else read_slice b (fill r))"
  by pat_completeness auto
termination
  by (relation "measure (\<lambda>(b, r). src_weight r)") (auto simp: Buffered_def fill_weight)

declare read_slice.simps [simp del]

function read_byte :: "reader \<Rightarrow> (err + byte) \<times> reader" where
  "read_byte r =
     (case rbuf r of
        x # xs \<Rightarrow> (Inr x, r\<lparr>rbuf := xs\<rparr>)
      | [] \<Rightarrow>
          (case rerr r of
            Some e \<Rightarrow> (Inl (fault_err e), r\<lparr>rerr := None\<rparr>)
          | None \<Rightarrow> read_byte (fill r)))"
  by pat_completeness auto
termination
  by (relation "measure src_weight") (auto intro: fill_weight)

declare read_byte.simps [simp del]

section \<open>Read and io.ReadFull\<close>

definition bufio_read :: "nat \<Rightarrow> reader \<Rightarrow> bytes \<times> err option \<times> reader" where
  "bufio_read n r =
     (if rbuf r \<noteq> [] then (take n (rbuf r), None, r\<lparr>rbuf := drop n (rbuf r)\<rparr>)
      else case rerr r of
        Some e \<Rightarrow> ([], Some (fault_err e), r\<lparr>rerr := None\<rparr>)
      | None \<Rightarrow>
          if bsize r \<le> n
          then (case conn_read n r of (d, e, r') \<Rightarrow> (d, map_option fault_err e, r'))
          else (case conn_read (bsize r) r of
            (d, e, r') \<Rightarrow>
              if d = [] then ([], map_option fault_err e, r')
              else (take n d, None, r'\<lparr>rbuf := drop n d, rerr := e\<rparr>)))"

definition read_weight :: "reader \<Rightarrow> nat" where
  "read_weight r = sum_list (map (\<lambda>c. Suc (length c)) (chunks r)) + length (rbuf r)"

lemma bufio_read_weight:
  "(d, None, r') = bufio_read n r \<Longrightarrow> 0 < n \<Longrightarrow> read_weight r' < read_weight r"
  by (auto simp: bufio_read_def read_weight_def conn_read_def
      split: if_splits option.splits list.splits)

function read_full_from :: "nat \<Rightarrow> bytes \<Rightarrow> reader \<Rightarrow> (err + bytes) \<times> reader" where
  "read_full_from n acc r =
     (if n \<le> length acc then (Inr acc, r)
      else case bufio_read (n - length acc) r of
        (d, e, r') \<Rightarrow>
          (case e of
            None \<Rightarrow> read_full_from n (acc @ d) r'
          | Some x \<Rightarrow>
              if n \<le> length (acc @ d) then (Inr (acc @ d), r')
              else if acc @ d \<noteq> [] \<and> x = EOF then (Inl ErrUnexpectedEOF, r')
              else (Inl x, r')))"
  by pat_completeness auto
termination
  by (relation "measure (\<lambda>(n, acc, r). read_weight r)")
    (auto dest: bufio_read_weight)

declare read_full_from.simps [simp del]

definition read_full :: "nat \<Rightarrow> reader \<Rightarrow> (err + bytes) \<times> reader" where
  "read_full n r = read_full_from n [] r"

section \<open>Every operation seen as consuming the byte stream\<close>

text \<open>
  Between calls a reader has no pending error, its connection never delivers an empty chunk
  and its buffer is within its size. On such a reader the operations depend only on the
  remaining stream, on the buffer size (\<open>read_slice\<close> alone) and on the final fault.
\<close>

definition reader_ok :: "reader \<Rightarrow> bool" where
  "reader_ok r \<longleftrightarrow> rerr r = None \<and> [] \<notin> set (chunks r) \<and> length (rbuf r) \<le> bsize r"

lemma reader_ok_new: "[] \<notin> set cs \<Longrightarrow> reader_ok (new_reader_size n cs f)"
  by (simp add: reader_ok_def new_reader_size_def)

lemma stream_new [simp]: "stream (new_reader_size n cs f) = concat cs"
  by (simp add: stream_def new_reader_size_def)

lemma new_reader_fields [simp]:
  "final (new_reader_size n cs f) = f" "bsize (new_reader_size n cs f) = max n 16"
  by (simp_all add: new_reader_size_def bsize_def)

lemma bsize_same: "same_source r r' \<Longrightarrow> bsize r' = bsize r"
  by (simp add: same_source_def bsize_def)

lemma fill_once:
  "fill r = (case conn_read (bsize r - length (rbuf r)) r of
      (d, e, r') \<Rightarrow>
        (case e of
          Some x \<Rightarrow> r'\<lparr>rbuf := rbuf r @ d, rerr := Some x\<rparr>
        | None \<Rightarrow>
            if d \<noteq> [] then r'\<lparr>rbuf := rbuf r @ d\<rparr>
            else fill_tries 99 (r'\<lparr>rbuf := rbuf r @ d\<rparr>)))"
proof -
  have "(100::nat) = Suc 99" by simp
  then show ?thesis unfolding fill_def by (simp only: fill_tries.simps)
qed

lemma fill_no_chunks: "chunks r = [] \<Longrightarrow> fill r = r\<lparr>rerr := Some (final r)\<rparr>"
  by (simp add: fill_once conn_read_def)

lemma fill_chunk:
  assumes "reader_ok r" and "chunks r \<noteq> []" and "length (rbuf r) < bsize r"
  shows "reader_ok (fill r)" and "same_source r (fill r)" and "rbuf (fill r) \<noteq> []"
  using assms
  by (auto simp: fill_once conn_read_def reader_ok_def same_source_def bsize_def
      split: list.splits if_splits)

lemma fill_same:
  assumes "reader_ok r" and "chunks r \<noteq> []" and "length (rbuf r) < bsize r"
  shows "bsize (fill r) = bsize r" and "final (fill r) = final r"
  using fill_chunk(2) [OF assms] by (simp_all add: same_source_def bsize_def)

lemma fill_stream [simp]: "stream (fill r) = stream r"
  by (simp add: fill_def fill_tries_stream)

lemma read_slice_stream: "read_slice b r = (line, e, r') \<Longrightarrow> stream r = line @ stream r'"
proof (induction b r arbitrary: line e r' rule: read_slice.induct)
  case (1 b r)
  show ?case
  proof (cases "b \<in> set (rbuf r)")
    case True
    with 1(2) show ?thesis
      by (subst (asm) read_slice.simps) (auto simp: Let_def stream_def simp flip: append_assoc)
  next
    case False
    note unfolded = 1(2) [unfolded read_slice.simps [of b r]]
    show ?thesis
    proof (cases "rerr r = None \<and> \<not> bsize r \<le> Buffered r")
      case True
      with False unfolded have "read_slice b (fill r) = (line, e, r')" by simp
      with 1(1) False True have "stream (fill r) = line @ stream r'" by blast
      then show ?thesis by simp
    next
      case no_fill: False
      with False unfolded show ?thesis by (auto simp: stream_def split: option.splits if_splits)
    qed
  qed
qed

definition slice_spec :: "byte \<Rightarrow> nat \<Rightarrow> fault \<Rightarrow> bytes \<Rightarrow> bytes \<times> err option" where
  "slice_spec b n f s =
     (if b \<in> set (take n s) then (take (Suc (length (takeWhile (\<lambda>x. x \<noteq> b) s))) s, None)
      else if n \<le> length s then (take n s, Some ErrBufferFull)
      else (s, Some (fault_err f)))"

lemma read_slice_ok:
  assumes "reader_ok r" and "read_slice b r = (line, e, r')"
  shows "(line, e) = slice_spec b (bsize r) (final r) (stream r) \<and> reader_ok r' \<and> same_source r r'"
  using assms
proof (induction b r arbitrary: line e r' rule: read_slice.induct)
  case (1 b r)
  note ok = \<open>reader_ok r\<close>
  have none: "rerr r = None" using ok by (simp add: reader_ok_def)
  consider (hit) "b \<in> set (rbuf r)"
    | (full) "b \<notin> set (rbuf r)" "bsize r \<le> length (rbuf r)"
    | (fault) "b \<notin> set (rbuf r)" "length (rbuf r) < bsize r" "chunks r = []"
    | (more) "b \<notin> set (rbuf r)" "length (rbuf r) < bsize r" "chunks r \<noteq> []"
    by linarith
  then show ?case
  proof cases
    case hit
    then have "b \<in> set (take (bsize r) (stream r))"
      using ok by (auto simp: stream_def reader_ok_def)
    with hit ok 1(3) show ?thesis
      using takeWhile_neq_length [OF hit]
      by (subst (asm) read_slice.simps)
        (auto simp: Let_def slice_spec_def stream_def reader_ok_def same_source_def bsize_def)
  next
    case full
    then have "length (rbuf r) = bsize r" using ok by (simp add: reader_ok_def)
    with full ok none 1(3) show ?thesis
      by (subst (asm) read_slice.simps)
        (auto simp: Buffered_def slice_spec_def stream_def reader_ok_def same_source_def bsize_def)
  next
    case fault
    have "read_slice b r = read_slice b (r\<lparr>rerr := Some (final r)\<rparr>)"
      using fault none by (subst read_slice.simps) (simp add: Buffered_def fill_no_chunks)
    also have "\<dots> = (rbuf r, Some (fault_err (final r)), r\<lparr>rbuf := [], rerr := None\<rparr>)"
      using fault none by (subst read_slice.simps) simp
    finally show ?thesis
      using fault 1(3) ok
      by (auto simp: slice_spec_def stream_def reader_ok_def same_source_def)
  next
    case more
    have "read_slice b (fill r) = (line, e, r')"
      using more none 1(3) by (subst (asm) read_slice.simps) (simp add: Buffered_def)
    moreover have "\<not> bsize r \<le> Buffered r" using more by (simp add: Buffered_def)
    ultimately have "(line, e) = slice_spec b (bsize (fill r)) (final (fill r)) (stream (fill r))
        \<and> reader_ok r' \<and> same_source (fill r) r'"
      using 1(1) more(1) none fill_chunk(1) [OF ok more(3,2)] by blast
    with fill_same [OF ok more(3,2)] show ?thesis
      using same_source_trans [OF fill_chunk(2) [OF ok more(3,2)]] by simp
  qed
qed

lemma slice_line: "slice_spec b n f s = (line, e) \<Longrightarrow> \<exists>t. s = line @ t"
  by (auto simp: slice_spec_def split: if_splits) (metis append_take_drop_id)+

lemma slice_butlast:
  assumes "(line, e) = slice_spec b n f s"
  shows "b \<notin> set (butlast line)"
proof (cases "b \<in> set (take n s)")
  case True
  then have "b \<in> set s" by (rule in_set_takeD)
  from takeWhile_neq_split [OF this] True assms
  have "line = takeWhile (\<lambda>x. x \<noteq> b) s @ [b]" by (simp add: slice_spec_def)
  then show ?thesis by (auto dest: set_takeWhileD)
next
  case False
  with assms show ?thesis by (auto simp: slice_spec_def dest: in_set_butlastD split: if_splits)
qed

lemma read_byte_ok:
  assumes "reader_ok r"
  shows "\<exists>r'. read_byte r = (case stream r of [] \<Rightarrow> Inl (fault_err (final r)) | x # xs \<Rightarrow> Inr x, r')
    \<and> reader_ok r' \<and> same_source r r' \<and> stream r' = tl (stream r)"
  using assms
proof (induction r rule: read_byte.induct)
  case (1 r)
  note ok = \<open>reader_ok r\<close>
  have none: "rerr r = None" using ok by (simp add: reader_ok_def)
  consider (hit) x xs where "rbuf r = x # xs" | (fault) "rbuf r = []" "chunks r = []"
    | (more) "rbuf r = []" "chunks r \<noteq> []"
    by (cases "rbuf r") auto
  then show ?case
  proof cases
    case hit
    with ok show ?thesis
      by (subst read_byte.simps) (auto simp: stream_def reader_ok_def same_source_def bsize_def)
  next
    case fault
    have "read_byte r = read_byte (r\<lparr>rerr := Some (final r)\<rparr>)"
      using fault none by (subst read_byte.simps) (simp add: fill_no_chunks)
    also have "\<dots> = (Inl (fault_err (final r)), r\<lparr>rerr := None\<rparr>)"
      using fault by (subst read_byte.simps) simp
    finally show ?thesis
      using fault ok by (auto simp: stream_def reader_ok_def same_source_def bsize_def)
  next
    case more
    have "length (rbuf r) < bsize r" using more by simp
    note fill = fill_chunk [OF ok more(2) this]
    obtain r' where "read_byte (fill r) =
        (case stream (fill r) of [] \<Rightarrow> Inl (fault_err (final (fill r))) | x # xs \<Rightarrow> Inr x, r')"
      "reader_ok r'" "same_source (fill r) r'" "stream r' = tl (stream (fill r))"
      using 1(1) [OF more(1) none fill(1)] by blast
    moreover have "read_byte r = read_byte (fill r)"
      using more none by (subst read_byte.simps) simp
    moreover have "final (fill r) = final r" using fill(2) by (simp add: same_source_def)
    ultimately show ?thesis
      using same_source_trans [OF fill(2)] by (intro exI [of _ r']) (simp split: list.split)
  qed
qed

text \<open>One Read on a good reader: at least one byte if there is one, else the final fault.\<close>

lemma take_drop_between: "n \<le> m \<Longrightarrow> take n xs @ drop n (take m xs) @ drop m xs = xs"
  by (metis append.assoc append_take_drop_id min.absorb1 take_take)

lemma bufio_read_ok:
  assumes "reader_ok r" and "0 < n" and "bufio_read n r = (d, e, r')"
  shows "reader_ok r' \<and> same_source r r' \<and> stream r = d @ stream r' \<and> length d \<le> n
    \<and> (if stream r = [] then d = [] \<and> e = Some (fault_err (final r)) else d \<noteq> [] \<and> e = None)"
proof (cases "rbuf r")
  case Nil
  show ?thesis
  proof (cases "chunks r")
    case Nil
    with \<open>rbuf r = []\<close> assms show ?thesis
      by (auto simp: bufio_read_def conn_read_def reader_ok_def stream_def split: if_splits)
  next
    case (Cons c cs)
    with \<open>rbuf r = []\<close> assms show ?thesis
      by (auto simp: bufio_read_def conn_read_def reader_ok_def stream_def same_source_def bsize_def
          take_drop_between split: if_splits)
  qed
next
  case (Cons x xs)
  with assms show ?thesis
    by (auto simp: bufio_read_def reader_ok_def stream_def same_source_def bsize_def
        simp flip: append_assoc append_Cons)
qed

lemma read_full_from_ok:
  assumes "reader_ok r" and "read_full_from n acc r = (res, r')"
  shows "reader_ok r' \<and> same_source r r' \<and>
    (if n \<le> length acc then res = Inr acc \<and> r' = r
     else if n - length acc \<le> length (stream r)
     then res = Inr (acc @ take (n - length acc) (stream r))
        \<and> stream r' = drop (n - length acc) (stream r)
     else stream r' = [] \<and> res = Inl (if acc @ stream r \<noteq> [] \<and> final r = FaultEOF
        then ErrUnexpectedEOF else fault_err (final r)))"
  using assms
proof (induction n acc r arbitrary: res r' rule: read_full_from.induct)
  case (1 n acc r)
  note unfolded = 1(3) [unfolded read_full_from.simps [of n acc r]]
  show ?case
  proof (cases "n \<le> length acc")
    case True
    with unfolded 1(2) show ?thesis by simp
  next
    case False
    obtain d e r1 where rd: "bufio_read (n - length acc) r = (d, e, r1)"
      by (cases "bufio_read (n - length acc) r") auto
    have "0 < n - length acc" using False by simp
    then have step: "reader_ok r1 \<and> same_source r r1 \<and> stream r = d @ stream r1
        \<and> length d \<le> n - length acc
        \<and> (if stream r = [] then d = [] \<and> e = Some (fault_err (final r)) else d \<noteq> [] \<and> e = None)"
      by (rule bufio_read_ok [OF 1(2) _ rd])
    show ?thesis
    proof (cases "stream r = []")
      case True
      have "fault_err (final r) = EOF \<longleftrightarrow> final r = FaultEOF" by (cases "final r") auto
      moreover have r1: "d = []" "e = Some (fault_err (final r))" "stream r1 = []"
        "reader_ok r1" "same_source r r1"
        using step True by auto
      moreover from unfolded False have "(res, r') =
          (if acc \<noteq> [] \<and> fault_err (final r) = EOF then (Inl ErrUnexpectedEOF, r1)
           else (Inl (fault_err (final r)), r1))"
        by (simp add: rd r1)
      ultimately show ?thesis using True False by (auto split: if_splits)
    next
      case more: False
      with step have e: "e = None" by simp
      from unfolded rd False e have rest: "read_full_from n (acc @ d) r1 = (res, r')" by simp
      have ok1: "reader_ok r1" using step by blast
      have IH: "reader_ok r' \<and> same_source r1 r' \<and>
          (if n \<le> length (acc @ d) then res = Inr (acc @ d) \<and> r' = r1
           else if n - length (acc @ d) \<le> length (stream r1)
           then res = Inr ((acc @ d) @ take (n - length (acc @ d)) (stream r1))
              \<and> stream r' = drop (n - length (acc @ d)) (stream r1)
           else stream r' = [] \<and> res = Inl (if (acc @ d) @ stream r1 \<noteq> [] \<and> final r1 = FaultEOF
              then ErrUnexpectedEOF else fault_err (final r1)))"
        by (rule 1(1) [OF False rd [symmetric] refl e ok1 rest])
      have s1: "same_source r r1" and s2: "same_source r1 r'" using step IH by blast+
      have src: "same_source r r'" using s1 s2 by (rule same_source_trans)
      have fin: "final r1 = final r" using s1 by (simp add: same_source_def)
      have str: "stream r = d @ stream r1" and len: "length d \<le> n - length acc"
        using step by blast+
      show ?thesis
      proof (cases "length d = n - length acc")
        case True
        then show ?thesis using IH str src False by auto
      next
        case short: False
        then have "\<not> n \<le> length (acc @ d)" using len False by simp
        then show ?thesis
          unfolding str using IH src False fin len by (simp add: le_diff_conv2)
      qed
    qed
  qed
qed

lemma read_full_ok:
  assumes "reader_ok r" and "read_full n r = (res, r')"
  shows "reader_ok r' \<and> same_source r r' \<and>
    (if n \<le> length (stream r) then res = Inr (take n (stream r)) \<and> stream r' = drop n (stream r)
     else stream r' = [] \<and> res = Inl (if stream r \<noteq> [] \<and> final r = FaultEOF
        then ErrUnexpectedEOF else fault_err (final r)))"
  using read_full_from_ok [OF assms [unfolded read_full_def]] by (cases "n = 0") auto

section \<open>Readers that differ only in how the bytes arrive\<close>

definition reader_equiv :: "reader \<Rightarrow> reader \<Rightarrow> bool" where
  "reader_equiv r1 r2 \<longleftrightarrow> reader_ok r1 \<and> reader_ok r2 \<and> stream r1 = stream r2
     \<and> bsize r1 = bsize r2 \<and> final r1 = final r2"

lemma reader_equiv_next:
  "reader_equiv r1 r2 \<Longrightarrow> same_source r1 s1 \<Longrightarrow> same_source r2 s2 \<Longrightarrow> reader_ok s1 \<Longrightarrow> reader_ok s2
    \<Longrightarrow> stream s1 = stream s2 \<Longrightarrow> reader_equiv s1 s2"
  by (simp add: reader_equiv_def same_source_def bsize_def)

lemma read_slice_equiv:
  assumes "reader_equiv r1 r2"
    and "read_slice b r1 = (l1, e1, s1)" and "read_slice b r2 = (l2, e2, s2)"
  shows "l1 = l2" and "e1 = e2" and "reader_equiv s1 s2"
proof -
  have ok: "reader_ok r1" "reader_ok r2" using assms(1) by (simp_all add: reader_equiv_def)
  note spec = read_slice_ok [OF ok(1) assms(2)] read_slice_ok [OF ok(2) assms(3)]
  have "(l1, e1) = (l2, e2)" using spec assms(1) by (simp add: reader_equiv_def)
  then show "l1 = l2" and "e1 = e2" by simp_all
  then have "stream s1 = stream s2"
    using read_slice_stream [OF assms(2)] read_slice_stream [OF assms(3)] assms(1)
    by (simp add: reader_equiv_def)
  then show "reader_equiv s1 s2" using reader_equiv_next assms(1) spec by blast
qed

lemma read_byte_equiv:
  assumes "reader_equiv r1 r2"
  shows "\<exists>x s1 s2. read_byte r1 = (x, s1) \<and> read_byte r2 = (x, s2) \<and> reader_equiv s1 s2"
proof -
  have ok: "reader_ok r1" "reader_ok r2" "stream r1 = stream r2" "final r1 = final r2"
    using assms by (simp_all add: reader_equiv_def)
  obtain s1 s2 where "read_byte r1 = (case stream r1 of [] \<Rightarrow> Inl (fault_err (final r1)) | x # xs \<Rightarrow> Inr x, s1)"
    "reader_ok s1" "same_source r1 s1" "stream s1 = tl (stream r1)"
    "read_byte r2 = (case stream r2 of [] \<Rightarrow> Inl (fault_err (final r2)) | x # xs \<Rightarrow> Inr x, s2)"
    "reader_ok s2" "same_source r2 s2" "stream s2 = tl (stream r2)"
    using read_byte_ok ok by metis
  then show ?thesis
    using reader_equiv_next [OF assms, of s1 s2] ok by (metis (no_types, lifting))
qed

lemma read_full_equiv:
  assumes "reader_equiv r1 r2"
  shows "\<exists>x s1 s2. read_full n r1 = (x, s1) \<and> read_full n r2 = (x, s2) \<and> reader_equiv s1 s2"
proof -
  obtain x1 s1 x2 s2 where rf: "read_full n r1 = (x1, s1)" "read_full n r2 = (x2, s2)"
    by (metis surj_pair)
  have eq: "reader_ok r1" "reader_ok r2" "stream r1 = stream r2" "final r1 = final r2"
    using assms by (simp_all add: reader_equiv_def)
  note spec = read_full_ok [OF eq(1) rf(1)] read_full_ok [OF eq(2) rf(2)]
  have "x1 = x2 \<and> stream s1 = stream s2"
    using spec eq by (cases "n \<le> length (stream r2)") simp_all
  then show ?thesis using rf spec reader_equiv_next [OF assms] by blast
qed

end
