(* ===== verification/Framing.thy ===== *)
theory Framing
  imports GoBufio
begin

text \<open>
  \<^verbatim>\<open>framing/framing.go\<close>: the \<^verbatim>\<open>Codec\<close> interface as a record of its methods, and the three
  codecs Legacy, Uvarint and Uint32 with their encoders and decoders. An encoder returns the
  extended buffer and an error; a decoder returns the payload or an error, and the reader
  behind what it consumed. Every decoding loop is a total function, so a Read always returns
  once the connection has delivered its bytes and its fault.
\<close>

section \<open>encoding/binary\<close>

definition put_uint16 :: "16 word \<Rightarrow> bytes" where
  "put_uint16 v = [ucast (drop_bit 8 v), ucast v]"

definition get_uint16 :: "bytes \<Rightarrow> 16 word" where
  "get_uint16 b = ucast (b ! 1) OR push_bit 8 (ucast (b ! 0))"

definition put_uint32 :: "32 word \<Rightarrow> bytes" where
  "put_uint32 v = [ucast (drop_bit 24 v), ucast (drop_bit 16 v), ucast (drop_bit 8 v), ucast v]"

definition get_uint32 :: "bytes \<Rightarrow> 32 word" where
  "get_uint32 b = ucast (b ! 3) OR push_bit 8 (ucast (b ! 2))
     OR push_bit 16 (ucast (b ! 1)) OR push_bit 24 (ucast (b ! 0))"

function append_uvarint :: "bytes \<Rightarrow> 64 word \<Rightarrow> bytes" where
  "append_uvarint dst x =
     (if 0x80 \<le> x then append_uvarint (dst @ [ucast x OR 0x80]) (drop_bit 7 x)
      else dst @ [ucast x])"
  by pat_completeness auto
termination
  by (relation "measure (\<lambda>(dst, x). unat x)")
    (auto simp: drop_bit_eq_div unat_div_distrib word_le_nat_alt)

declare append_uvarint.simps [simp del]

text \<open>
  \<^verbatim>\<open>binary.ReadUvarint\<close>: at most ten bytes, the tenth at most 1; an EOF inside the number is
  unexpected. \<open>k\<close> counts the iterations that are left, \<open>i\<close> is the loop index.
\<close>

fun read_uvarint_from ::
    "nat \<Rightarrow> nat \<Rightarrow> 64 word \<Rightarrow> nat \<Rightarrow> reader \<Rightarrow> (err + 64 word) \<times> reader" where
  "read_uvarint_from 0 i x s r = (Inl ErrVarintOverflow, r)"
| "read_uvarint_from (Suc k) i x s r =
     (case read_byte r of
        (Inl e, r') \<Rightarrow> (Inl (if 0 < i \<and> e = EOF then ErrUnexpectedEOF else e), r')
      | (Inr b, r') \<Rightarrow>
          if b < 0x80
          then (if i = 9 \<and> 1 < b then (Inl ErrVarintOverflow, r')
                else (Inr (x OR push_bit s (ucast b)), r'))
          else read_uvarint_from k (Suc i) (x OR push_bit s (ucast (b AND 0x7f))) (s + 7) r')"

definition read_uvarint :: "reader \<Rightarrow> (err + 64 word) \<times> reader" where
  "read_uvarint r = read_uvarint_from 10 0 0 0 r"

section \<open>The Codec interface\<close>

record codec =
  Append :: "bytes \<Rightarrow> bytes \<Rightarrow> bytes \<times> err option"
  Read :: "int \<Rightarrow> reader \<Rightarrow> (err + bytes) \<times> reader"
  MaxPayload :: int

definition MaxUint16 :: nat where "MaxUint16 = 65535"
definition MaxUint32 :: nat where "MaxUint32 = 4294967295"
definition MaxInt32 :: int where "MaxInt32 = 2147483647"

definition DefaultDelimiter :: bytes where
  "DefaultDelimiter = [10, 10, 10]"

definition frame_too_large :: "int \<Rightarrow> int \<Rightarrow> err" where
  "frame_too_large n limit =
     Wrap [] ErrFrameTooLarge ('': '' @ itoa n @ '' > '' @ itoa limit)"

section \<open>Legacy: payload, big-endian uint16 length, delimiter\<close>

definition legacy_append :: "bytes \<Rightarrow> bytes \<Rightarrow> bytes \<Rightarrow> bytes \<times> err option" where
  "legacy_append delim dst payload =
     (if MaxUint16 < length payload
      then (dst, Some (frame_too_large (int (length payload)) (int MaxUint16)))
      else (((dst @ payload) @ put_uint16 (of_nat (length payload))) @ delim, None))"

definition frame_end :: "bytes \<Rightarrow> bytes \<Rightarrow> nat option" where
  "frame_end delim buf =
     (let d = int (length buf) - int (length delim) in
      if d < 2 \<or> drop (nat d) buf \<noteq> delim then None
      else let n = unat (get_uint16 (take 2 (drop (nat d - 2) buf)))
           in if n = nat d - 2 then Some n else None)"

definition corrupt_frame :: "int \<Rightarrow> err" where
  "corrupt_frame frameMax =
     Wrap [] ErrCorruptFrame ('': no valid frame within '' @ itoa frameMax @ '' bytes'')"

lemma read_slice_error:
  "read_slice b r = (line, e, r') \<Longrightarrow>
    e = None \<or> e = Some ErrBufferFull \<or> (\<exists>f. e = Some (fault_err f))"
proof (induction b r arbitrary: line e r' rule: read_slice.induct)
  case (1 b r)
  note unfolded = 1(2) [unfolded read_slice.simps [of b r]]
  show ?case
  proof (cases "b \<notin> set (rbuf r) \<and> rerr r = None \<and> \<not> bsize r \<le> Buffered r")
    case True
    with unfolded have "read_slice b (fill r) = (line, e, r')" by simp
    with 1(1) True show ?thesis by blast
  next
    case False
    with unfolded show ?thesis by (auto simp: Let_def split: option.splits if_splits)
  qed
qed

lemma read_slice_progress:
  "read_slice b r = (line, e, r') \<Longrightarrow> e = None \<or> e = Some ErrBufferFull \<Longrightarrow> line \<noteq> []"
proof (induction b r arbitrary: line e r' rule: read_slice.induct)
  case (1 b r)
  have no: "fault_err f \<noteq> ErrBufferFull" for f by (cases f) auto
  note unfolded = 1(2) [unfolded read_slice.simps [of b r]]
  show ?case
  proof (cases "b \<notin> set (rbuf r) \<and> rerr r = None \<and> \<not> bsize r \<le> Buffered r")
    case True
    with unfolded have "read_slice b (fill r) = (line, e, r')" by simp
    with 1(1) 1(3) True show ?thesis by blast
  next
    case False
    have pos: "0 < bsize r" by simp
    with False unfolded 1(3) no show ?thesis
      by (auto simp: Let_def Buffered_def simp del: bsize_pos split: option.splits if_splits)
  qed
qed

lemma fault_not_full [simp]: "\<not> errors_is (fault_err f) ErrBufferFull"
  by (cases f) auto

lemma fault_is_EOF [simp]: "errors_is (fault_err f) EOF \<longleftrightarrow> f = FaultEOF"
  by (cases f) auto

lemma read_slice_consumes:
  assumes "(line, e, r') = read_slice b r" and "e = None \<or> (\<exists>x. e = Some x \<and> errors_is x ErrBufferFull)"
  shows "length (stream r') < length (stream r)"
proof -
  have "e = None \<or> e = Some ErrBufferFull"
    using assms(2) read_slice_error [OF assms(1) [symmetric]] by auto
  then have "line \<noteq> []" using read_slice_progress [OF assms(1) [symmetric]] by blast
  then show ?thesis using read_slice_stream [OF assms(1) [symmetric]] by simp
qed

text \<open>
  The delimiter is not empty: \<^verbatim>\<open>NewLegacy\<close> refuses an empty one, \<^verbatim>\<open>Legacy\<close> has the default, and no
  other code makes a \<^verbatim>\<open>legacy\<close> value, so the byte \<^verbatim>\<open>c.delim[len(c.delim)-1]\<close> exists.
\<close>

function read_one :: "bytes \<Rightarrow> int \<Rightarrow> reader \<Rightarrow> bytes \<Rightarrow> (err + bytes) \<times> reader" where
  "read_one delim limit r buf =
     (case read_slice (last delim) r of
       (chunk, e, r') \<Rightarrow>
         let frameMax = limit + 2 + int (length delim); buf' = buf @ chunk in
         case frame_end delim buf' of
           Some n \<Rightarrow> (Inr (take n buf'), r')
         | None \<Rightarrow>
             if frameMax < int (length buf') then (Inl (corrupt_frame frameMax), r')
             else case e of
               None \<Rightarrow> read_one delim limit r' buf'
             | Some x \<Rightarrow>
                 if errors_is x ErrBufferFull then read_one delim limit r' buf'
                 else if errors_is x EOF \<and> 0 < length buf' then (Inl ErrUnexpectedEOF, r')
                 else (Inl x, r'))"
  by pat_completeness auto
termination
  by (relation "measure (\<lambda>(delim, limit, r, buf). length (stream r))")
    (auto dest: read_slice_consumes)

declare read_one.simps [simp del]

lemma read_one_stream:
  assumes "read_one delim limit r buf = (res, r')"
  shows "\<exists>c. stream r = c @ stream r' \<and> (\<forall>p. res = Inr p \<longrightarrow>
    (\<exists>n. frame_end delim (buf @ c) = Some n \<and> p = take n (buf @ c)))"
  using assms
proof (induction delim limit r buf arbitrary: res r' rule: read_one.induct)
  case (1 delim limit r buf)
  obtain chunk e r1 where rs: "read_slice (last delim) r = (chunk, e, r1)"
    by (cases "read_slice (last delim) r") auto
  have str: "stream r = chunk @ stream r1" by (rule read_slice_stream [OF rs])
  let ?loop = "frame_end delim (buf @ chunk) = None
      \<and> \<not> limit + 2 + int (length delim) < int (length (buf @ chunk))
      \<and> (e = None \<or> (\<exists>x. e = Some x \<and> errors_is x ErrBufferFull))"
  show ?case
  proof (cases ?loop)
    case True
    then have "read_one delim limit r1 (buf @ chunk) = (res, r')"
      using 1(3) by (subst (asm) read_one.simps) (auto simp: rs Let_def)
    then have "\<exists>c. stream r1 = c @ stream r' \<and> (\<forall>p. res = Inr p \<longrightarrow>
        (\<exists>n. frame_end delim ((buf @ chunk) @ c) = Some n \<and> p = take n ((buf @ chunk) @ c)))"
      using True 1(1) [OF rs [symmetric] refl refl refl] 1(2) [OF rs [symmetric] refl refl refl]
      by (cases e) auto
    then show ?thesis using str by auto
  next
    case False
    then show ?thesis
      using 1(3) str by (subst (asm) read_one.simps)
        (auto simp: rs Let_def split: option.splits if_splits)
  qed
qed

lemma frame_end_length: "frame_end delim buf = Some n \<Longrightarrow> n + 2 + length delim = length buf"
  by (auto simp: frame_end_def Let_def split: if_splits)

lemma read_one_consumes:
  assumes "(Inr p, r') = read_one delim limit r []"
  shows "length (stream r') < length (stream r)"
proof -
  obtain c n where "stream r = c @ stream r'" and "frame_end delim c = Some n"
    using read_one_stream [OF assms [symmetric]] by auto
  then show ?thesis using frame_end_length [of delim c n] by (cases c) auto
qed

function legacy_read :: "bytes \<Rightarrow> int \<Rightarrow> reader \<Rightarrow> (err + bytes) \<times> reader" where
  "legacy_read delim max_len r =
     (case read_one delim (min max_len (int MaxUint16)) r [] of
        (Inl e, r') \<Rightarrow> (Inl e, r')
      | (Inr payload, r') \<Rightarrow>
          if 0 < length payload then (Inr payload, r') else legacy_read delim max_len r')"
  by pat_completeness auto
termination
  by (relation "measure (\<lambda>(delim, max_len, r). length (stream r))") (auto dest: read_one_consumes)

declare legacy_read.simps [simp del]

definition legacy_codec :: "bytes \<Rightarrow> codec" where
  "legacy_codec delim =
     \<lparr>Append = legacy_append delim, Read = legacy_read delim, MaxPayload = int MaxUint16\<rparr>"

definition Legacy :: codec where
  "Legacy = legacy_codec DefaultDelimiter"

definition NewLegacy :: "bytes \<Rightarrow> err + codec" where
  "NewLegacy delimiter =
     (if length delimiter = 0 then Inl ErrEmptyDelimiter else Inr (legacy_codec delimiter))"

section \<open>Uvarint and Uint32: length, payload\<close>

definition unexpectedEOF :: "err \<Rightarrow> bool \<Rightarrow> err" where
  "unexpectedEOF e midFrame = (if midFrame \<and> errors_is e EOF then ErrUnexpectedEOF else e)"

text \<open>
  \<open>max_len\<close> is a Go int, converted to uint64 for the comparison. \<^verbatim>\<open>make\<close> panics for a length
  that is negative as an int.
\<close>

definition read_payload :: "64 word \<Rightarrow> int \<Rightarrow> reader \<Rightarrow> (err + bytes) \<times> reader" where
  "read_payload n max_len r =
     (if word_of_int max_len < n then (Inl (frame_too_large (uint n) max_len), r)
      else if sint n < 0 then (Inl (RuntimePanic ''makeslice: len out of range''), r)
      else case read_full (unat n) r of
        (Inl e, r') \<Rightarrow> (Inl (unexpectedEOF e True), r')
      | (Inr payload, r') \<Rightarrow> (Inr payload, r'))"

definition uvarint_append :: "bytes \<Rightarrow> bytes \<Rightarrow> bytes \<times> err option" where
  "uvarint_append dst payload =
     (append_uvarint dst (of_nat (length payload)) @ payload, None)"

definition uvarint_read :: "int \<Rightarrow> reader \<Rightarrow> (err + bytes) \<times> reader" where
  "uvarint_read max_len r =
     (case read_uvarint r of
        (Inl e, r') \<Rightarrow> (Inl (unexpectedEOF e False), r')
      | (Inr n, r') \<Rightarrow> read_payload n max_len r')"

definition Uvarint :: codec where
  "Uvarint = \<lparr>Append = uvarint_append, Read = uvarint_read, MaxPayload = MaxInt32\<rparr>"

definition uint32_append :: "bytes \<Rightarrow> bytes \<Rightarrow> bytes \<times> err option" where
  "uint32_append dst payload =
     (if of_nat MaxUint32 < (of_nat (length payload) :: 64 word) then (dst, Some ErrFrameTooLarge)
      else ((dst @ put_uint32 (of_nat (length payload))) @ payload, None))"

definition uint32_read :: "int \<Rightarrow> reader \<Rightarrow> (err + bytes) \<times> reader" where
  "uint32_read max_len r =
     (case read_full 4 r of
        (Inl e, r') \<Rightarrow> (Inl (unexpectedEOF e False), r')
      | (Inr hdr, r') \<Rightarrow> read_payload (ucast (get_uint32 hdr)) max_len r')"

definition Uint32 :: codec where
  "Uint32 = \<lparr>Append = uint32_append, Read = uint32_read, MaxPayload = MaxInt32\<rparr>"

end
