(* ===== verification/Config.thy ===== *)
theory Config
  imports Framing
begin

text \<open>
  \<^verbatim>\<open>listener/base.go\<close>, \<^verbatim>\<open>ValidateConfig\<close> of \<^verbatim>\<open>listener/errors.go\<close> and the forwarding options of
  \<^verbatim>\<open>listeneropts.go\<close>: the server configuration, its defaults, every option, validation and
  \<^verbatim>\<open>hostPort\<close>. An option is a function on the configuration; the Go options change the
  configuration behind a pointer that only the constructor holds.
\<close>

section \<open>Loggers\<close>

datatype log_level = Debug | Info | Warn | Error

datatype logger = DefaultLogger | SlogLogger

text \<open>A logging call appends to what a \<^verbatim>\<open>slog\<close> handler has received, or discards it.\<close>

fun log_call :: "logger \<Rightarrow> log_level \<Rightarrow> string \<Rightarrow> (log_level \<times> string) list \<Rightarrow> (log_level \<times> string) list" where
  "log_call DefaultLogger lvl msg out = out"
| "log_call SlogLogger lvl msg out = out @ [(lvl, msg)]"

section \<open>Configuration records\<close>

text \<open>The fields of \<^verbatim>\<open>http.Request\<close>, \<^verbatim>\<open>tls.Config\<close> and \<^verbatim>\<open>quic.Config\<close> that the code uses.\<close>

record http_request =
  RemoteAddr :: string
  Host :: string
  Origin :: string

record tls_certificate =
  certDER :: bytes
  PrivateKey :: string

record tls_config =
  Certificates :: "tls_certificate list"
  NextProtos :: "string list"
  MinVersion :: "16 word"
  InsecureSkipVerify :: bool

record quic_go_config =
  MaxIncomingStreams :: int
  MaxIncomingUniStreams :: int

record websocket_config =
  ReadBufferSize :: int
  WriteBufferSize :: int
  Path :: string
  CheckOrigin :: "(http_request \<Rightarrow> bool) option"

definition DefaultALPN :: string where
  "DefaultALPN = ''gophersocks''"

text \<open>\<open>None\<close> is a nil pointer or a nil map.\<close>

record quic_config =
  TLSConfig :: "tls_config option"
  QuicConfig :: "quic_go_config option"
  Delimiter :: bytes
  ALPN :: "string list"
  Codecs :: "(string \<rightharpoonup> codec) option"

datatype protocol_config =
    WebSocketConfig websocket_config
  | QUICConfig quic_config
  | OtherConfig

record server_config =
  MaxLength :: "32 word"
  BufferSize :: int
  ReadTimeout :: int
  WriteTimeout :: int
  Logger :: logger
  MaxConnections :: int
  SendQueueSize :: int
  ProtocolConfig :: protocol_config

type_synonym server_option = "server_config \<Rightarrow> server_config"

section \<open>Defaults\<close>

text \<open>Durations are in nanoseconds.\<close>

definition Second :: int where "Second = 1000000000"
definition Millisecond :: int where "Millisecond = 1000000"

definition defaultSendQueueSize :: int where "defaultSendQueueSize = 1024"
definition defaultMaxLength :: "32 word" where "defaultMaxLength = 1024 * 1024"

definition defaultConfig :: server_config where
  "defaultConfig =
     \<lparr>MaxLength = defaultMaxLength, BufferSize = 100, ReadTimeout = Second * 30,
      WriteTimeout = Second * 30, Logger = DefaultLogger, MaxConnections = 1000,
      SendQueueSize = defaultSendQueueSize,
      ProtocolConfig = WebSocketConfig
        \<lparr>ReadBufferSize = 1024, WriteBufferSize = 1024, Path = ''/ws'', CheckOrigin = None\<rparr>\<rparr>"

definition defaultQUICConfig :: quic_config where
  "defaultQUICConfig =
     \<lparr>TLSConfig = None,
      QuicConfig = Some \<lparr>MaxIncomingStreams = 4, MaxIncomingUniStreams = -1\<rparr>,
      Delimiter = DefaultDelimiter, ALPN = [DefaultALPN], Codecs = Some Map.empty\<rparr>"

section \<open>Options\<close>

definition WithMaxLength :: "32 word \<Rightarrow> server_option" where
  "WithMaxLength n c = c\<lparr>MaxLength := n\<rparr>"

definition WithBufferSize :: "int \<Rightarrow> server_option" where
  "WithBufferSize n c = c\<lparr>BufferSize := n\<rparr>"

definition WithSendQueueSize :: "int \<Rightarrow> server_option" where
  "WithSendQueueSize n c = c\<lparr>SendQueueSize := n\<rparr>"

definition WithLogger :: "logger \<Rightarrow> server_option" where
  "WithLogger l c = c\<lparr>Logger := l\<rparr>"

definition WithTimeouts :: "int \<Rightarrow> int \<Rightarrow> server_option" where
  "WithTimeouts rd wr c = c\<lparr>ReadTimeout := rd, WriteTimeout := wr\<rparr>"

definition WithMaxConnections :: "int \<Rightarrow> server_option" where
  "WithMaxConnections n c = c\<lparr>MaxConnections := n\<rparr>"

definition WithWebSocketBufferSizes :: "int \<Rightarrow> int \<Rightarrow> server_option" where
  "WithWebSocketBufferSizes rd wr c = (case ProtocolConfig c of
      WebSocketConfig w \<Rightarrow>
        c\<lparr>ProtocolConfig := WebSocketConfig (w\<lparr>ReadBufferSize := rd, WriteBufferSize := wr\<rparr>)\<rparr>
    | _ \<Rightarrow> c)"

definition WithWebSocketPath :: "string \<Rightarrow> server_option" where
  "WithWebSocketPath path c = (case ProtocolConfig c of
      WebSocketConfig w \<Rightarrow> c\<lparr>ProtocolConfig := WebSocketConfig (w\<lparr>Path := path\<rparr>)\<rparr>
    | _ \<Rightarrow> c)"

definition WithWebSocketCheckOrigin :: "(http_request \<Rightarrow> bool) option \<Rightarrow> server_option" where
  "WithWebSocketCheckOrigin f c = (case ProtocolConfig c of
      WebSocketConfig w \<Rightarrow> c\<lparr>ProtocolConfig := WebSocketConfig (w\<lparr>CheckOrigin := f\<rparr>)\<rparr>
    | _ \<Rightarrow> c)"

definition WithTLSConfig :: "tls_config option \<Rightarrow> server_option" where
  "WithTLSConfig t c = (case ProtocolConfig c of
      QUICConfig q \<Rightarrow> c\<lparr>ProtocolConfig := QUICConfig (q\<lparr>TLSConfig := t\<rparr>)\<rparr>
    | _ \<Rightarrow> c)"

definition WithQUICConfig :: "quic_go_config option \<Rightarrow> server_option" where
  "WithQUICConfig g c = (case ProtocolConfig c of
      QUICConfig q \<Rightarrow> c\<lparr>ProtocolConfig := QUICConfig (q\<lparr>QuicConfig := g\<rparr>)\<rparr>
    | _ \<Rightarrow> c)"

definition WithQUICDelimiter :: "bytes \<Rightarrow> server_option" where
  "WithQUICDelimiter d c = (case ProtocolConfig c of
      QUICConfig q \<Rightarrow> c\<lparr>ProtocolConfig := QUICConfig (q\<lparr>Delimiter := d\<rparr>)\<rparr>
    | _ \<Rightarrow> c)"

text \<open>The loop that puts a protocol first and drops its old place.\<close>

fun append_others :: "string \<Rightarrow> string list \<Rightarrow> string list \<Rightarrow> string list" where
  "append_others alpn alpns [] = alpns"
| "append_others alpn alpns (p # ps) =
     append_others alpn (if p \<noteq> alpn then alpns @ [p] else alpns) ps"

definition prefer_alpn :: "string \<Rightarrow> string list \<Rightarrow> string list" where
  "prefer_alpn alpn old = append_others alpn [alpn] old"

definition store_codec :: "(string \<rightharpoonup> codec) option \<Rightarrow> string \<Rightarrow> codec \<Rightarrow> (string \<rightharpoonup> codec) option" where
  "store_codec m alpn codec =
     Some ((case m of None \<Rightarrow> Map.empty | Some cs \<Rightarrow> cs)(alpn \<mapsto> codec))"

definition WithQUICCodec :: "string \<Rightarrow> codec \<Rightarrow> server_option" where
  "WithQUICCodec alpn codec c = (case ProtocolConfig c of
      QUICConfig q \<Rightarrow>
        c\<lparr>ProtocolConfig := QUICConfig
            (q\<lparr>Codecs := store_codec (Codecs q) alpn codec, ALPN := prefer_alpn alpn (ALPN q)\<rparr>)\<rparr>
    | _ \<Rightarrow> c)"

fun apply_options :: "server_option list \<Rightarrow> server_config \<Rightarrow> server_config" where
  "apply_options [] c = c"
| "apply_options (opt # opts) c = apply_options opts (opt c)"

section \<open>Validation\<close>

definition ValidateConfig :: "server_config \<Rightarrow> err option" where
  "ValidateConfig config =
     (if MaxLength config = 0 then Some (NewValidationError ''MaxLength'' ''must be greater than 0'')
      else if BufferSize config < 1 then Some (NewValidationError ''BufferSize'' ''must be at least 1'')
      else if MaxConnections config < 1
      then Some (NewValidationError ''MaxConnections'' ''must be at least 1'')
      else if ReadTimeout config < 0 then Some (NewValidationError ''ReadTimeout'' ''cannot be negative'')
      else if WriteTimeout config < 0 then Some (NewValidationError ''WriteTimeout'' ''cannot be negative'')
      else None)"

section \<open>Addresses\<close>

definition TrimPrefix :: "string \<Rightarrow> char \<Rightarrow> string" where
  "TrimPrefix s c = (case s of x # xs \<Rightarrow> if x = c then xs else s | [] \<Rightarrow> s)"

definition TrimSuffix :: "string \<Rightarrow> char \<Rightarrow> string" where
  "TrimSuffix s c = (if s \<noteq> [] \<and> last s = c then butlast s else s)"

definition JoinHostPort :: "string \<Rightarrow> string \<Rightarrow> string" where
  "JoinHostPort host port =
     (if CHR '':'' \<in> set host then ''['' @ host @ '']:'' @ port else host @ '':'' @ port)"

definition hostPort :: "string \<Rightarrow> 16 word \<Rightarrow> string" where
  "hostPort host port =
     JoinHostPort (TrimSuffix (TrimPrefix host (CHR ''['')) (CHR '']'')) (itoa (uint port))"

section \<open>The options of the top-level package\<close>

text \<open>\<^verbatim>\<open>listeneropts.go\<close> forwards each option; \<^verbatim>\<open>toListenerOptions\<close> converts a slice of them.\<close>

definition gs_WithMaxLength :: "32 word \<Rightarrow> server_option" where "gs_WithMaxLength = WithMaxLength"
definition gs_WithBufferSize :: "int \<Rightarrow> server_option" where "gs_WithBufferSize = WithBufferSize"
definition gs_WithSendQueueSize :: "int \<Rightarrow> server_option" where
  "gs_WithSendQueueSize = WithSendQueueSize"
definition gs_WithTimeouts :: "int \<Rightarrow> int \<Rightarrow> server_option" where "gs_WithTimeouts = WithTimeouts"
definition gs_WithMaxConnections :: "int \<Rightarrow> server_option" where
  "gs_WithMaxConnections = WithMaxConnections"
definition gs_WithLogger :: "logger \<Rightarrow> server_option" where "gs_WithLogger = WithLogger"
definition gs_WithWebSocketBufferSizes :: "int \<Rightarrow> int \<Rightarrow> server_option" where
  "gs_WithWebSocketBufferSizes = WithWebSocketBufferSizes"
definition gs_WithWebSocketPath :: "string \<Rightarrow> server_option" where
  "gs_WithWebSocketPath = WithWebSocketPath"
definition gs_WithWebSocketCheckOrigin :: "(http_request \<Rightarrow> bool) option \<Rightarrow> server_option" where
  "gs_WithWebSocketCheckOrigin = WithWebSocketCheckOrigin"
definition gs_WithTLSConfig :: "tls_config option \<Rightarrow> server_option" where
  "gs_WithTLSConfig = WithTLSConfig"
definition gs_WithQUICConfig :: "quic_go_config option \<Rightarrow> server_option" where
  "gs_WithQUICConfig = WithQUICConfig"
definition gs_WithQUICCodec :: "string \<Rightarrow> codec \<Rightarrow> server_option" where
  "gs_WithQUICCodec = WithQUICCodec"

definition toListenerOptions :: "server_option list \<Rightarrow> server_option list" where
  "toListenerOptions opts = map (\<lambda>i. opts ! i) [0..<length opts]"

lemma toListenerOptions_id: "toListenerOptions opts = opts"
  by (simp add: toListenerOptions_def map_nth)

section \<open>Facts\<close>

definition valid_config :: "server_config \<Rightarrow> bool" where
  "valid_config c \<longleftrightarrow> MaxLength c \<noteq> 0 \<and> 1 \<le> BufferSize c \<and> 1 \<le> MaxConnections c
     \<and> 0 \<le> ReadTimeout c \<and> 0 \<le> WriteTimeout c"

lemma ValidateConfig_None: "ValidateConfig c = None \<longleftrightarrow> valid_config c"
  by (auto simp: ValidateConfig_def valid_config_def)

lemma append_others_eq: "append_others alpn acc old = acc @ filter (\<lambda>p. p \<noteq> alpn) old"
  by (induction old arbitrary: acc) auto

lemma prefer_alpn_eq: "prefer_alpn alpn old = alpn # filter (\<lambda>p. p \<noteq> alpn) old"
  by (simp add: prefer_alpn_def append_others_eq)

lemma prefer_alpn_props:
  "hd (prefer_alpn alpn old) = alpn" "set (prefer_alpn alpn old) = insert alpn (set old)"
  "distinct old \<Longrightarrow> distinct (prefer_alpn alpn old)"
  by (auto simp: prefer_alpn_eq)

definition is_quic :: "server_config \<Rightarrow> bool" where
  "is_quic c \<longleftrightarrow> (\<exists>q. ProtocolConfig c = QUICConfig q)"

definition is_websocket :: "server_config \<Rightarrow> bool" where
  "is_websocket c \<longleftrightarrow> (\<exists>w. ProtocolConfig c = WebSocketConfig w)"

lemma itoa_uint: "itoa (uint (p :: 'a::len word)) = itoa_nat (unat p)"
proof -
  have "\<not> uint p < 0" using uint_ge_0 [of p] by linarith
  moreover have "nat (uint p) = unat p" by simp
  ultimately show ?thesis by (simp only: itoa_def if_False)
qed

lemma colon_not_digit: "CHR '':'' \<notin> set (itoa (uint (p :: 16 word)))"
proof -
  have "CHR '':'' \<noteq> digit n" if "n < 10" for n
  proof
    assume "CHR '':'' = digit n"
    then have "of_char (CHR '':'') = (48 + n :: nat)" using that by (simp add: digit_def of_char_of)
    then show False using that by simp
  qed
  moreover have "set (itoa (uint p)) \<subseteq> digit ` {..<10}" by (simp only: itoa_uint set_itoa_nat)
  ultimately show ?thesis by blast
qed

lemma JoinHostPort_ends: "\<exists>h. JoinHostPort host port = h @ '':'' @ port"
  by (auto simp: JoinHostPort_def intro: exI [of _ "''['' @ host @ '']''"])

lemma split_last_colon:
  assumes "h @ CHR '':'' # p = h' @ CHR '':'' # p'" and "CHR '':'' \<notin> set p" and "CHR '':'' \<notin> set p'"
  shows "h = h' \<and> p = p'"
  using assms by (auto simp: append_eq_append_conv2 append_eq_Cons_conv Cons_eq_append_conv)

lemma hostPort_port_unique:
  assumes "hostPort h p = hostPort h' p'"
  shows "p = p'"
proof -
  obtain a b where "hostPort h p = a @ CHR '':'' # itoa (uint p)"
    and "hostPort h' p' = b @ CHR '':'' # itoa (uint p')"
    using JoinHostPort_ends unfolding hostPort_def by (metis append_Cons append_Nil)
  then have "itoa (uint p) = itoa (uint p')"
    using assms split_last_colon colon_not_digit by metis
  then have "itoa_nat (unat p) = itoa_nat (unat p')" by (simp only: itoa_uint)
  then show ?thesis by (simp add: word_unat_eq_iff itoa_nat_inj)
qed

end
