(* ===== verification/Session.thy ===== *)
theory Session
  imports Config
begin

text \<open>
  \<^verbatim>\<open>listener/session.go\<close>, operation by operation: the \<^verbatim>\<open>transport\<close> interface as a record of
  methods on the connection's state, a session's state, \<^verbatim>\<open>newSession\<close>, \<^verbatim>\<open>closeWith\<close>,
  \<^verbatim>\<open>Messages\<close>, \<^verbatim>\<open>fillBatch\<close> and the checks of \<^verbatim>\<open>SendToClient\<close>. \<open>SessionMachine\<close> interleaves
  them.
\<close>

section \<open>State\<close>

record 't transport =
  readMessage :: "'t \<Rightarrow> (err + bytes) \<times> 't"
  writeMessages :: "bytes list \<Rightarrow> 't \<Rightarrow> err option \<times> 't"
  closeTransport :: "err \<Rightarrow> 't \<Rightarrow> 't"

definition maxBatch :: nat where "maxBatch = 128"

text \<open>
  \<open>ctx\<close> is \<^verbatim>\<open>context.Cause\<close> of the session's context, \<open>None\<close> while it is live; \<open>out\<close> and
  \<open>outCap\<close> are the send channel; \<open>closeOnce\<close> and \<open>dataOnce\<close> say whether the \<^verbatim>\<open>sync.Once\<close>
  has run; \<open>onCloseCalls\<close> counts the calls of the owner's callback.
\<close>

record session =
  sid :: string
  addr :: string
  ctx :: "err option"
  out :: "bytes list"
  outCap :: nat
  lastSeen :: int
  maxLen :: int
  sendWait :: int
  bufSize :: int
  hasOnClose :: bool
  onCloseCalls :: nat
  closeOnce :: bool
  dataOnce :: bool

text \<open>
  \<open>parent\<close> is the cause of the parent context if it has ended; \<open>uid\<close> and \<open>now\<close> are what
  \<^verbatim>\<open>uuid.NewString\<close> and \<^verbatim>\<open>time.Now\<close> return.
\<close>

definition newSession ::
    "err option \<Rightarrow> string \<Rightarrow> server_config \<Rightarrow> bool \<Rightarrow> string \<Rightarrow> int \<Rightarrow> session" where
  "newSession parent address cfg onClose uid now =
     (let queue = (if SendQueueSize cfg < 1 then defaultSendQueueSize else SendQueueSize cfg) in
      \<lparr>sid = uid, addr = address, ctx = parent, out = [], outCap = nat queue, lastSeen = now,
       maxLen = uint (MaxLength cfg), sendWait = WriteTimeout cfg,
       bufSize = max (BufferSize cfg) 1, hasOnClose = onClose, onCloseCalls = 0,
       closeOnce = False, dataOnce = False\<rparr>)"

definition touch :: "int \<Rightarrow> session \<Rightarrow> session" where
  "touch now s = s\<lparr>lastSeen := now\<rparr>"

definition GetSessionID :: "session \<Rightarrow> string" where "GetSessionID s = sid s"
definition GetClientAddr :: "session \<Rightarrow> string" where "GetClientAddr s = addr s"
definition GetLastRecieved :: "session \<Rightarrow> int" where "GetLastRecieved s = lastSeen s"
definition Context :: "session \<Rightarrow> err option" where "Context s = ctx s"

text \<open>\<^verbatim>\<open>context.WithCancelCause\<close>: the first cancellation wins.\<close>

definition cancel :: "err \<Rightarrow> err option \<Rightarrow> err option" where
  "cancel cause c = (case c of None \<Rightarrow> Some cause | Some e \<Rightarrow> Some e)"

section \<open>Closing\<close>

definition close_cause :: "err option \<Rightarrow> err" where
  "close_cause cause = (case cause of None \<Rightarrow> ErrSessionClosed | Some e \<Rightarrow> e)"

definition runOnClose :: "session \<Rightarrow> session" where
  "runOnClose s = (if hasOnClose s then s\<lparr>onCloseCalls := Suc (onCloseCalls s)\<rparr> else s)"

definition closeWith :: "'t transport \<Rightarrow> err option \<Rightarrow> 't \<times> session \<Rightarrow> 't \<times> session" where
  "closeWith tr cause ts = (case ts of (t, s) \<Rightarrow>
     if closeOnce s then (t, s)
     else
       let c = close_cause cause;
           s1 = runOnClose (s\<lparr>closeOnce := True\<rparr>);
           t1 = closeTransport tr c t
       in (t1, s1\<lparr>ctx := cancel c (ctx s1)\<rparr>))"

definition CloseSession :: "'t transport \<Rightarrow> 't \<times> session \<Rightarrow> 't \<times> session" where
  "CloseSession tr = closeWith tr (Some ErrSessionClosed)"

definition readCause :: "err \<Rightarrow> err" where
  "readCause e = (if errors_is e EOF \<or> errors_is e NetErrClosed then ErrSessionClosed else e)"

section \<open>Receiving\<close>

text \<open>
  \<^verbatim>\<open>Messages\<close> runs as a coroutine with its consumer. The list holds, for each message the
  consumer asks for, the clock and the answer of \<^verbatim>\<open>yield\<close>; when it is used up the consumer
  still works on the last message and nothing more is read. The last component says whether
  the iterator has returned.
\<close>

fun Messages :: "'t transport \<Rightarrow> (int \<times> bool) list \<Rightarrow> 't \<times> session \<Rightarrow>
    bytes list \<times> ('t \<times> session) \<times> bool" where
  "Messages tr [] ts = ([], ts, False)"
| "Messages tr ((now, again) # pulls) (t, s) =
     (case readMessage tr t of
        (Inl e, t') \<Rightarrow> ([], closeWith tr (Some (readCause e)) (t', s), True)
      | (Inr m, t') \<Rightarrow>
          let s' = touch now s in
          if again
          then (case Messages tr pulls (t', s') of (ms, ts', fin) \<Rightarrow> (m # ms, ts', fin))
          else ([m], (t', s'), True))"

section \<open>Sending\<close>

definition too_large_error :: err where
  "too_large_error = NewProtocolError ''message exceeds maximum length'' (Some ErrMessageTooLarge)"

definition closed_error :: "err \<Rightarrow> err" where
  "closed_error cause = NewSessionError ''session closed'' (Some cause)"

datatype send_check = Refuse err | Sent | MustWait

text \<open>
  \<^verbatim>\<open>SendToClient\<close> up to the call of \<^verbatim>\<open>waitToSend\<close>: the outcome and the session after it.
\<close>

definition SendToClient :: "bytes \<Rightarrow> session \<Rightarrow> send_check \<times> session" where
  "SendToClient d s =
     (if maxLen s < int (length d) then (Refuse too_large_error, s)
      else case ctx s of
        Some c \<Rightarrow> (Refuse (closed_error c), s)
      | None \<Rightarrow>
          if length (out s) < outCap s then (Sent, s\<lparr>out := out s @ [d]\<rparr>) else (MustWait, s))"

text \<open>\<^verbatim>\<open>fillBatch\<close>: the batch and what is left in the queue.\<close>

fun fillBatch :: "bytes list \<Rightarrow> bytes list \<Rightarrow> bytes list \<times> bytes list" where
  "fillBatch batch [] = (batch, [])"
| "fillBatch batch (m # ms) =
     (if length batch < maxBatch then fillBatch (batch @ [m]) ms else (batch, m # ms))"

text \<open>One round of \<^verbatim>\<open>writeLoop\<close> with a message waiting, then all rounds until the queue is empty.\<close>

definition writeRound :: "'t transport \<Rightarrow> 't \<times> session \<Rightarrow> bool \<times> 't \<times> session" where
  "writeRound tr ts = (case ts of (t, s) \<Rightarrow>
     (case out s of
        [] \<Rightarrow> (True, t, s)
      | m # q \<Rightarrow>
          (case fillBatch [m] q of (batch, q') \<Rightarrow>
             (case writeMessages tr batch t of
                (None, t') \<Rightarrow> (True, t', s\<lparr>out := q'\<rparr>)
              | (Some e, t') \<Rightarrow> (False, closeWith tr (Some e) (t', s\<lparr>out := q'\<rparr>))))))"

lemma fillBatch_eq:
  "length batch \<le> maxBatch \<Longrightarrow>
    fillBatch batch q = (batch @ take (maxBatch - length batch) q, drop (maxBatch - length batch) q)"
proof (induction batch q rule: fillBatch.induct)
  case (2 batch m ms)
  then show ?case by (cases "maxBatch - length batch") (auto simp: Suc_diff_Suc diff_Suc)
qed simp

lemma fillBatch_shrinks: "length (snd (fillBatch [m] q)) \<le> length q"
  by (simp add: fillBatch_eq maxBatch_def)

function drain :: "'t transport \<Rightarrow> 't \<times> session \<Rightarrow> bool \<times> 't \<times> session" where
  "drain tr (t, s) =
     (if out s = [] then (True, t, s)
      else case writeRound tr (t, s) of
        (True, t', s') \<Rightarrow> drain tr (t', s')
      | (False, t', s') \<Rightarrow> (False, t', s'))"
  by pat_completeness auto

lemma writeRound_shrinks:
  "writeRound tr (t, s) = (True, t', s') \<Longrightarrow> out s \<noteq> [] \<Longrightarrow> length (out s') < length (out s)"
  by (auto simp: writeRound_def fillBatch_eq maxBatch_def split: list.splits prod.splits option.splits)

termination drain
  by (relation "measure (\<lambda>(tr, t, s). length (out s))")
    (auto simp del: drop_eq_Nil dest!: sym [of _ "writeRound _ _"] intro: writeRound_shrinks)

declare drain.simps [simp del]

section \<open>Closing happens once\<close>

lemma closeWith_idem: "closeWith tr c' (closeWith tr c ts) = closeWith tr c ts"
  by (auto simp: closeWith_def runOnClose_def Let_def split: prod.splits)

lemma closeWith_closed [simp]: "closeOnce (snd (closeWith tr c ts))"
  by (auto simp: closeWith_def runOnClose_def Let_def split: prod.splits)

lemma closeWith_ctx: "\<not> closeOnce s \<Longrightarrow> ctx (snd (closeWith tr c (t, s))) = cancel (close_cause c) (ctx s)"
  by (simp add: closeWith_def runOnClose_def Let_def)

lemma cancel_Some [simp]: "cancel c x \<noteq> None"
  by (simp add: cancel_def split: option.splits)

lemma newSession_fields [simp]:
  "out (newSession p a cfg oc uid now) = []" "ctx (newSession p a cfg oc uid now) = p"
  "closeOnce (newSession p a cfg oc uid now) = False" "dataOnce (newSession p a cfg oc uid now) = False"
  "maxLen (newSession p a cfg oc uid now) = uint (MaxLength cfg)"
  "sendWait (newSession p a cfg oc uid now) = WriteTimeout cfg"
  "bufSize (newSession p a cfg oc uid now) = max (BufferSize cfg) 1"
  "addr (newSession p a cfg oc uid now) = a"
  "hasOnClose (newSession p a cfg oc uid now) = oc" "onCloseCalls (newSession p a cfg oc uid now) = 0"
  by (simp_all add: newSession_def Let_def)

lemma newSession_outCap [simp]: "0 < outCap (newSession p a cfg oc uid now)"
  by (simp add: newSession_def Let_def defaultSendQueueSize_def)

end
