(* ===== verification/Server.thy ===== *)
theory Server
  imports Session
begin

text \<open>
  \<^verbatim>\<open>listener/server.go\<close>: what every protocol server shares. A session is known here by its
  pointer, a number; its address is part of it. \<open>active\<close> is the atomic counter and \<open>wg\<close> the
  \<^verbatim>\<open>sync.WaitGroup\<close>. \<open>ServerMachine\<close> interleaves these operations.
\<close>

section \<open>State\<close>

type_synonym session_ptr = nat
type_synonym announce_func = nat

record server =
  cfg :: server_config
  logged :: "(log_level \<times> string) list"
  serverCtx :: "err option"
  byAddr :: "string \<rightharpoonup> session_ptr"
  announce :: "announce_func option"
  announceOpts :: string
  stopped :: bool
  active :: int
  wg :: int

definition newServer :: "err option \<Rightarrow> server_config \<Rightarrow> server" where
  "newServer parent c =
     \<lparr>cfg = c, logged = [], serverCtx = parent, byAddr = Map.empty, announce = None,
      announceOpts = [], stopped = False, active = 0, wg = 0\<rparr>"

definition log_at :: "log_level \<Rightarrow> string \<Rightarrow> server \<Rightarrow> server" where
  "log_at lvl msg s = s\<lparr>logged := log_call (Logger (cfg s)) lvl msg (logged s)\<rparr>"

section \<open>Admission\<close>

definition enter :: "server \<Rightarrow> bool \<times> server" where
  "enter s = (if stopped s then (False, s) else (True, s\<lparr>wg := wg s + 1\<rparr>))"

definition wg_Done :: "server \<Rightarrow> server" where
  "wg_Done s = s\<lparr>wg := wg s - 1\<rparr>"

text \<open>\<^verbatim>\<open>tryAdmit\<close> is two atomic operations: the addition, and after the comparison the undo.\<close>

definition admit_add :: "server \<Rightarrow> int \<times> server" where
  "admit_add s = (active s + 1, s\<lparr>active := active s + 1\<rparr>)"

definition admit_check :: "int \<Rightarrow> server \<Rightarrow> bool \<times> server" where
  "admit_check n s =
     (if MaxConnections (cfg s) < n
      then (False, log_at Warn ''gophersocks: max connections reached, rejecting connection''
              (s\<lparr>active := active s - 1\<rparr>))
      else (True, s))"

definition tryAdmit :: "server \<Rightarrow> bool \<times> server" where
  "tryAdmit s = (case admit_add s of (n, s1) \<Rightarrow> admit_check n s1)"

definition release :: "server \<Rightarrow> server" where
  "release s = s\<lparr>active := active s - 1\<rparr>"

section \<open>The registry\<close>

definition add :: "string \<Rightarrow> session_ptr \<Rightarrow> server \<Rightarrow> server" where
  "add a p s = s\<lparr>byAddr := (byAddr s)(a \<mapsto> p)\<rparr>"

text \<open>\<^verbatim>\<open>remove\<close>: the part under the lock, then the slot and the log line.\<close>

definition remove_entry :: "string \<Rightarrow> session_ptr \<Rightarrow> server \<Rightarrow> server" where
  "remove_entry a p s = (if byAddr s a = Some p then s\<lparr>byAddr := (byAddr s)(a := None)\<rparr> else s)"

definition remove :: "string \<Rightarrow> session_ptr \<Rightarrow> server \<Rightarrow> server" where
  "remove a p s = log_at Debug ''gophersocks: session closed'' (release (remove_entry a p s))"

definition GetActiveSessions :: "server \<Rightarrow> string \<rightharpoonup> session_ptr" where
  "GetActiveSessions s = byAddr s"

definition GetSession :: "string \<Rightarrow> server \<Rightarrow> session_ptr option" where
  "GetSession clientAddr s = byAddr s clientAddr"

definition SetAnnounceNewSession :: "announce_func option \<Rightarrow> string \<Rightarrow> server \<Rightarrow> server" where
  "SetAnnounceNewSession f opts s = s\<lparr>announce := f, announceOpts := opts\<rparr>"

section \<open>Handlers and contexts\<close>

text \<open>
  \<^verbatim>\<open>serveContext\<close>: Serve's context merged with the listener's lifetime. The merged context is
  the caller's, ended in addition when the server's ends.
\<close>

definition serveContext :: "err option \<Rightarrow> server \<Rightarrow> err option" where
  "serveContext c s = (case c of Some e \<Rightarrow> Some e | None \<Rightarrow> serverCtx s)"

text \<open>What \<^verbatim>\<open>legacyHandler\<close> does to its session, in order.\<close>

datatype handler_call = CallData | CallAnnounce announce_func string | AwaitDone

definition legacyHandler :: "server \<Rightarrow> handler_call list" where
  "legacyHandler s = CallData #
     (case announce s of None \<Rightarrow> [] | Some f \<Rightarrow> [CallAnnounce f (announceOpts s)]) @ [AwaitDone]"

definition serveSession ::
    "('t \<times> session \<Rightarrow> 't \<times> session) \<Rightarrow> 't transport \<Rightarrow> 't \<times> session \<Rightarrow> 't \<times> session" where
  "serveSession h tr ts = closeWith tr (Some ErrSessionClosed) (h ts)"

section \<open>Stopping\<close>

text \<open>\<^verbatim>\<open>stop\<close> up to its first unlock: the flag and the sessions it will close; then the cancellation.\<close>

definition stop_begin :: "server \<Rightarrow> (string \<rightharpoonup> session_ptr) \<times> server" where
  "stop_begin s = (byAddr s, s\<lparr>stopped := True\<rparr>)"

definition stop_cancel :: "server \<Rightarrow> server" where
  "stop_cancel s = s\<lparr>serverCtx := cancel ErrServerStopped (serverCtx s)\<rparr>"

section \<open>Facts\<close>

lemma tryAdmit_eq:
  "tryAdmit s = (if active s < MaxConnections (cfg s) then (True, s\<lparr>active := active s + 1\<rparr>)
     else (False, log_at Warn ''gophersocks: max connections reached, rejecting connection'' s))"
  by (auto simp: tryAdmit_def admit_add_def admit_check_def log_at_def)

lemma log_at_fields [simp]:
  "cfg (log_at l m s) = cfg s" "serverCtx (log_at l m s) = serverCtx s" "byAddr (log_at l m s) = byAddr s"
  "announce (log_at l m s) = announce s" "announceOpts (log_at l m s) = announceOpts s"
  "stopped (log_at l m s) = stopped s" "active (log_at l m s) = active s" "wg (log_at l m s) = wg s"
  by (simp_all add: log_at_def)

lemma release_fields [simp]:
  "cfg (release s) = cfg s" "byAddr (release s) = byAddr s" "stopped (release s) = stopped s"
  "active (release s) = active s - 1" "wg (release s) = wg s" "serverCtx (release s) = serverCtx s"
  by (simp_all add: release_def)

lemma remove_entry_fields [simp]:
  "cfg (remove_entry a p s) = cfg s" "stopped (remove_entry a p s) = stopped s"
  "active (remove_entry a p s) = active s" "wg (remove_entry a p s) = wg s"
  "serverCtx (remove_entry a p s) = serverCtx s"
  by (simp_all add: remove_entry_def)

lemma remove_entry_lookup:
  "byAddr (remove_entry a p s) b = Some q \<longleftrightarrow> byAddr s b = Some q \<and> (b = a \<longrightarrow> q \<noteq> p)"
  by (auto simp: remove_entry_def)

end
