(* ===== verification/TransportContract.thy ===== *)
theory TransportContract
  imports Session
begin

text \<open>
  What a session relies on in its transport, as two contracts, with what they give it.
  \<open>writing_transport\<close>: a batch goes to the wire completely, or up to some point with an error;
  then the writer's rounds put the send queue on the wire in order. \<open>reading_transport\<close>: the
  transport delivers the messages it holds in order; then \<^verbatim>\<open>Messages\<close> yields them and, at their
  end, closes the session. The transports interpret them.
\<close>

section \<open>Writing\<close>

locale writing_transport =
  fixes tr :: "'t transport"
    and ok :: "'t \<Rightarrow> bool"
    and sent :: "'t \<Rightarrow> 'w list"
    and enc :: "'t \<Rightarrow> bytes \<Rightarrow> 'w list"
  assumes write_ok: "ok t \<Longrightarrow> writeMessages tr ms t = (None, t') \<Longrightarrow>
      sent t' = sent t @ concat (map (enc t) ms) \<and> ok t' \<and> enc t' = enc t"
    and write_error: "ok t \<Longrightarrow> writeMessages tr ms t = (Some e, t') \<Longrightarrow>
      \<exists>p q. sent t' = sent t @ p \<and> concat (map (enc t) ms) = p @ q"
    and close_sent: "sent (closeTransport tr c t) = sent t"
begin

lemma closeWith_sent: "sent (fst (closeWith tr c (t, s))) = sent t"
  by (simp add: closeWith_def Let_def close_sent)

lemma closeWith_out: "out (snd (closeWith tr c (t, s))) = out s"
  by (simp add: closeWith_def Let_def runOnClose_def)

lemma writeRound_ok:
  assumes "ok t" and "writeRound tr (t, s) = (True, t', s')"
  shows "sent t @ concat (map (enc t) (out s)) = sent t' @ concat (map (enc t) (out s'))
    \<and> ok t' \<and> enc t' = enc t"
proof (cases "out s")
  case Nil
  then show ?thesis using assms by (simp add: writeRound_def)
next
  case (Cons m q)
  obtain b q' where fb: "fillBatch [m] q = (b, q')" by (cases "fillBatch [m] q") auto
  then have q: "b @ q' = out s" using Cons by (auto simp: fillBatch_eq maxBatch_def)
  obtain t1 where w: "writeMessages tr b t = (None, t1)" and r: "t1 = t'" "s' = s\<lparr>out := q'\<rparr>"
    using assms(2) by (auto simp: writeRound_def Cons fb split: prod.splits option.splits)
  show ?thesis using write_ok [OF assms(1) w] r by (simp flip: q)
qed

lemma writeRound_error:
  assumes "ok t" and "writeRound tr (t, s) = (False, t', s')"
  shows "(\<exists>p q. sent t' = sent t @ p \<and> concat (map (enc t) (out s)) = p @ q) \<and> closeOnce s'"
proof (cases "out s")
  case Nil
  then show ?thesis using assms by (simp add: writeRound_def)
next
  case (Cons m q)
  obtain b q' where fb: "fillBatch [m] q = (b, q')" by (cases "fillBatch [m] q") auto
  then have q: "b @ q' = out s" using Cons by (auto simp: fillBatch_eq maxBatch_def)
  obtain e t1 where w: "writeMessages tr b t = (Some e, t1)"
    and r: "(t', s') = closeWith tr (Some e) (t1, s\<lparr>out := q'\<rparr>)"
    using assms(2) by (auto simp: writeRound_def Cons fb split: prod.splits option.splits)
  obtain p p' where p: "sent t1 = sent t @ p" "concat (map (enc t) b) = p @ p'"
    using write_error [OF assms(1) w] by blast
  have "sent t' = sent t1" using closeWith_sent [of "Some e" t1] r by (metis fst_conv)
  moreover have "closeOnce s'" using closeWith_closed r by (metis snd_conv)
  moreover have "concat (map (enc t) (out s)) = p @ p' @ concat (map (enc t) q')"
    using p(2) by (simp flip: q)
  ultimately show ?thesis using p(1) by auto
qed

text \<open>Everything queued goes out in order; after a failure what went out is a prefix of it.\<close>

lemma drain_ok:
  "ok t \<Longrightarrow> drain tr (t, s) = (True, t', s') \<Longrightarrow>
    sent t' = sent t @ concat (map (enc t) (out s)) \<and> out s' = []"
proof (induction "length (out s)" arbitrary: t s rule: less_induct)
  case less
  show ?case
  proof (cases "out s = []")
    case True
    then show ?thesis using less(3) by (subst (asm) drain.simps) simp
  next
    case False
    then obtain t1 s1 where w: "writeRound tr (t, s) = (True, t1, s1)"
      and d: "drain tr (t1, s1) = (True, t', s')"
      using less(3) by (subst (asm) drain.simps) (auto split: prod.splits bool.splits)
    have r: "sent t @ concat (map (enc t) (out s)) = sent t1 @ concat (map (enc t) (out s1))"
      "ok t1" "enc t1 = enc t"
      using writeRound_ok [OF less(2) w] by blast+
    have "sent t' = sent t1 @ concat (map (enc t1) (out s1)) \<and> out s' = []"
      by (rule less(1) [OF writeRound_shrinks [OF w False] r(2) d])
    then show ?thesis using r by simp
  qed
qed

lemma drain_error:
  "ok t \<Longrightarrow> drain tr (t, s) = (False, t', s') \<Longrightarrow>
    (\<exists>p q. sent t' = sent t @ p \<and> concat (map (enc t) (out s)) = p @ q) \<and> closeOnce s'"
proof (induction "length (out s)" arbitrary: t s rule: less_induct)
  case less
  have ne: "out s \<noteq> []" using less(3) by (subst (asm) drain.simps) (auto split: if_splits)
  obtain b t1 s1 where w: "writeRound tr (t, s) = (b, t1, s1)" by (cases "writeRound tr (t, s)") auto
  show ?case
  proof (cases b)
    case False
    then have "t1 = t'" "s1 = s'" using less(3) ne w by (subst (asm) drain.simps; simp)+
    then show ?thesis using writeRound_error [OF less(2), of s t1 s1] w False by simp
  next
    case True
    then have d: "drain tr (t1, s1) = (False, t', s')"
      using less(3) ne w by (subst (asm) drain.simps) simp
    have r: "sent t @ concat (map (enc t) (out s)) = sent t1 @ concat (map (enc t) (out s1))"
      "ok t1" "enc t1 = enc t"
      using writeRound_ok [OF less(2), of s t1 s1] w True by simp_all
    have lt: "length (out s1) < length (out s)"
      using writeRound_shrinks [of tr t s t1 s1] w True ne by simp
    obtain p q where pq: "sent t' = sent t1 @ p" "concat (map (enc t) (out s1)) = p @ q" "closeOnce s'"
      using less(1) [OF lt r(2) d] r(3) by auto
    have "\<exists>u. sent t1 = sent t @ u"
    proof -
      obtain m ms where "out s = m # ms" using ne by (cases "out s") auto
      then show ?thesis
        using w True less(2) write_ok
        by (auto simp: writeRound_def split: prod.splits option.splits)
    qed
    then obtain u where u: "sent t1 = sent t @ u" by blast
    with r(1) pq(1,2) have "sent t' = sent t @ (u @ p)" "concat (map (enc t) (out s)) = (u @ p) @ q"
      by auto
    then show ?thesis using pq(3) by blast
  qed
qed

end

section \<open>Reading\<close>

text \<open>
  \<open>holds ms t\<close>: the transport has exactly the messages \<open>ms\<close> to deliver, and then fails with
  \<open>failure t\<close>.
\<close>

locale reading_transport =
  fixes tr :: "'t transport"
    and holds :: "bytes list \<Rightarrow> 't \<Rightarrow> bool"
    and failure :: "'t \<Rightarrow> err"
  assumes read_next: "holds (m # ms) t \<Longrightarrow>
      \<exists>t'. readMessage tr t = (Inr m, t') \<and> holds ms t' \<and> failure t' = failure t"
    and read_end: "holds [] t \<Longrightarrow> \<exists>t'. readMessage tr t = (Inl (failure t), t')"
begin

text \<open>A consumer that asks \<open>n\<close> times gets the next \<open>n\<close> messages.\<close>

lemma Messages_prefix:
  "holds (ms @ rest) t \<Longrightarrow> length clocks = length ms \<Longrightarrow>
    \<exists>t' s'. Messages tr (map (\<lambda>now. (now, True)) clocks) (t, s) = (ms, (t', s'), False)
      \<and> holds rest t' \<and> closeOnce s' = closeOnce s"
proof (induction ms arbitrary: t s clocks)
  case Nil
  then show ?case by simp
next
  case (Cons m ms)
  then obtain now cl where cl: "clocks = now # cl" "length cl = length ms" by (cases clocks) auto
  obtain t1 where t1: "readMessage tr t = (Inr m, t1)" "holds (ms @ rest) t1"
    using read_next [of m "ms @ rest" t] Cons.prems by auto
  obtain t' s' where "Messages tr (map (\<lambda>now. (now, True)) cl) (t1, touch now s) = (ms, (t', s'), False)"
    "holds rest t'" "closeOnce s' = closeOnce (touch now s)"
    using Cons.IH [OF t1(2) cl(2)] by blast
  then show ?case using t1 cl(1) by (simp add: touch_def)
qed

text \<open>One that asks once more gets them all, the iteration ends, and the session is closed.\<close>

lemma Messages_all:
  "holds ms t \<Longrightarrow> length clocks = Suc (length ms) \<Longrightarrow> \<not> closeOnce s \<Longrightarrow>
    \<exists>t' s'. Messages tr (map (\<lambda>now. (now, True)) clocks) (t, s) = (ms, (t', s'), True)
      \<and> closeOnce s' \<and> ctx s' = cancel (readCause (failure t)) (ctx s)"
proof (induction ms arbitrary: t s clocks)
  case Nil
  then obtain now where cl: "clocks = [now]" by (cases clocks) auto
  obtain t1 where t1: "readMessage tr t = (Inl (failure t), t1)" using read_end Nil.prems(1) by blast
  let ?cl = "closeWith tr (Some (readCause (failure t))) (t1, s)"
  have "closeOnce (snd ?cl)" "ctx (snd ?cl) = cancel (readCause (failure t)) (ctx s)"
    using Nil.prems(3) by (simp_all add: closeWith_ctx close_cause_def)
  then show ?case using cl t1 by (cases ?cl) simp
next
  case (Cons m ms)
  then obtain now cl where cl: "clocks = now # cl" "length cl = Suc (length ms)" by (cases clocks) auto
  obtain t1 where t1: "readMessage tr t = (Inr m, t1)" "holds ms t1" "failure t1 = failure t"
    using read_next [of m ms t] Cons.prems by auto
  obtain t' s' where "Messages tr (map (\<lambda>now. (now, True)) cl) (t1, touch now s) = (ms, (t', s'), True)"
    "closeOnce s'" "ctx s' = cancel (readCause (failure t)) (ctx s)"
    using Cons.IH [OF t1(2) cl(2), of "touch now s"] Cons.prems(3) t1(3) by (auto simp: touch_def)
  then show ?case using t1 cl(1) by simp
qed

text \<open>A consumer that stops after a message leaves the rest unread and the session open.\<close>

lemma Messages_stop:
  assumes "holds (m # ms) t"
  shows "\<exists>t'. Messages tr ((now, False) # pulls) (t, s) = ([m], (t', touch now s), True) \<and> holds ms t'"
  using read_next [OF assms] by auto

end

end
