(* ===== verification/FramingLegacy.thy ===== *)
theory FramingLegacy
  imports Framing
begin

text \<open>
  The Legacy codec. \<open>legacy_frame\<close> is the format; \<open>frame_end_iff\<close> says that the decoder's
  test recognises exactly the frames. From it follow soundness (what a Read returns was
  framed on the stream), completeness for payloads with no frame end of their own inside,
  and what bounds a Read really enforces.
\<close>

section \<open>The format\<close>

definition legacy_frame :: "bytes \<Rightarrow> bytes \<Rightarrow> bytes" where
  "legacy_frame delim p = p @ put_uint16 (of_nat (length p)) @ delim"

lemma length_put_uint16 [simp]: "length (put_uint16 v) = 2"
  by (simp add: put_uint16_def)

lemma length_legacy_frame [simp]: "length (legacy_frame delim p) = length p + 2 + length delim"
  by (simp add: legacy_frame_def)

lemma get_put_uint16 [simp]: "get_uint16 (put_uint16 v) = v"
  by (rule bit_word_eqI) (auto simp: get_uint16_def put_uint16_def bit_simps)

lemma put_get_uint16: "length b = 2 \<Longrightarrow> put_uint16 (get_uint16 b) = b"
proof -
  assume "length b = 2"
  then obtain x y where b: "b = [x, y]"
    by (metis One_nat_def Suc_1 length_0_conv length_Suc_conv)
  have "(ucast (drop_bit 8 (get_uint16 b)) :: byte) = x"
    by (rule bit_word_eqI) (auto simp: get_uint16_def b bit_simps dest: bit_imp_le_length)
  moreover have "(ucast (get_uint16 b) :: byte) = y"
    by (rule bit_word_eqI) (auto simp: get_uint16_def b bit_simps dest: bit_imp_le_length)
  ultimately show ?thesis by (simp add: put_uint16_def b)
qed

lemma legacy_append_eq:
  "length p \<le> MaxUint16 \<Longrightarrow> legacy_append delim dst p = (dst @ legacy_frame delim p, None)"
  by (simp add: legacy_append_def legacy_frame_def)

lemma frame_end_frame:
  "length p \<le> MaxUint16 \<Longrightarrow> frame_end delim (legacy_frame delim p) = Some (length p)"
  by (simp add: frame_end_def legacy_frame_def Let_def unat_of_nat MaxUint16_def nat_add_distrib)

lemma frame_end_iff:
  "frame_end delim buf = Some n \<longleftrightarrow>
    (\<exists>p. buf = legacy_frame delim p \<and> length p = n \<and> n \<le> MaxUint16)"
proof
  assume fe: "frame_end delim buf = Some n"
  define h where "h = take 2 (drop n buf)"
  from fe have len: "length buf = n + 2 + length delim" using frame_end_length [OF fe] by simp
  from fe have tail: "drop (n + 2) buf = delim" and n: "unat (get_uint16 h) = n"
    by (auto simp: frame_end_def Let_def len h_def nat_add_distrib split: if_splits)
  have "length h = 2" using len by (simp add: h_def)
  moreover have "of_nat n = get_uint16 h" using n by (simp flip: n)
  ultimately have "put_uint16 (of_nat n) = h" by (simp add: put_get_uint16)
  moreover have "buf = take n buf @ h @ drop (n + 2) buf"
    unfolding h_def by (metis add.commute append_take_drop_id drop_drop)
  ultimately have "buf = legacy_frame delim (take n buf)"
    using len tail by (simp add: legacy_frame_def)
  moreover have "unat (get_uint16 h) < 2 ^ LENGTH(16)" by (rule unsigned_less)
  then have "n \<le> MaxUint16" using n by (simp add: MaxUint16_def)
  ultimately show "\<exists>p. buf = legacy_frame delim p \<and> length p = n \<and> n \<le> MaxUint16"
    using len by (intro exI [of _ "take n buf"]) simp
next
  assume "\<exists>p. buf = legacy_frame delim p \<and> length p = n \<and> n \<le> MaxUint16"
  then show "frame_end delim buf = Some n" using frame_end_frame by blast
qed

lemma take_frame [simp]: "take (length p) (legacy_frame delim p) = p"
  by (simp add: legacy_frame_def)

lemma read_one_sound:
  assumes "read_one delim limit r [] = (Inr p, r')"
  shows "stream r = legacy_frame delim p @ stream r' \<and> length p \<le> MaxUint16"
proof -
  obtain c n where "stream r = c @ stream r'" "frame_end delim c = Some n" "p = take n c"
    using read_one_stream [OF assms] by auto
  then show ?thesis using frame_end_iff by auto
qed

lemma legacy_read_sound:
  assumes "legacy_read delim max_len r = (Inr p, r')"
  shows "p \<noteq> [] \<and> length p \<le> MaxUint16 \<and>
    (\<exists>k. stream r = concat (replicate k (legacy_frame delim [])) @ legacy_frame delim p @ stream r')"
  using assms
proof (induction delim max_len r rule: legacy_read.induct)
  case (1 delim max_len r)
  note unfolded = 1(2) [unfolded legacy_read.simps [of delim max_len r]]
  then obtain q r1 where one: "read_one delim (min max_len (int MaxUint16)) r [] = (Inr q, r1)"
    by (auto split: prod.splits sum.splits)
  note sound = read_one_sound [OF one]
  show ?case
  proof (cases "q = []")
    case True
    with one unfolded have rest: "legacy_read delim max_len r1 = (Inr p, r')" by simp
    with 1(1) [OF one [symmetric] refl] True obtain k where IH: "p \<noteq> []" "length p \<le> MaxUint16"
      "stream r1 = concat (replicate k (legacy_frame delim [])) @ legacy_frame delim p @ stream r'"
      by auto
    then show ?thesis using sound True by (intro conjI exI [of _ "Suc k"]) simp_all
  next
    case False
    with one unfolded sound show ?thesis by (intro conjI exI [of _ 0]) auto
  qed
qed

section \<open>Completeness\<close>

text \<open>
  A payload that contains, with the bytes that follow it, a shorter frame cannot be told
  apart from that frame: this is the format's own ambiguity. \<open>unambiguous\<close> excludes it.
\<close>

definition unambiguous :: "bytes \<Rightarrow> bytes \<Rightarrow> bool" where
  "unambiguous delim p \<longleftrightarrow>
     (\<forall>k \<in> set [0..<length (legacy_frame delim p)].
        frame_end delim (take k (legacy_frame delim p)) = None)"

lemma unambiguous_A: "unambiguous DefaultDelimiter [65]"
  by (simp add: unambiguous_def legacy_frame_def put_uint16_def DefaultDelimiter_def frame_end_def
      Let_def upt_rec)

lemma unambiguous_prefix:
  "unambiguous delim p \<Longrightarrow> legacy_frame delim p = b @ t \<Longrightarrow> t \<noteq> [] \<Longrightarrow> frame_end delim b = None"
proof -
  assume amb: "unambiguous delim p" and split: "legacy_frame delim p = b @ t" and "t \<noteq> []"
  have "length b < length (legacy_frame delim p)" using split \<open>t \<noteq> []\<close> by simp
  moreover have "take (length b) (legacy_frame delim p) = b" using split by simp
  ultimately show ?thesis
    using amb unfolding unambiguous_def by (metis atLeastLessThan_iff atLeastLessThan_upt le0)
qed

lemma unambiguous_Nil [simp]: "unambiguous delim []"
proof -
  have "frame_end delim (take k (legacy_frame delim [])) = None" if "k < 2 + length delim" for k
  proof (cases "frame_end delim (take k (legacy_frame delim []))")
    case (Some n)
    from frame_end_length [OF this] that show ?thesis by simp
  qed
  then show ?thesis by (simp add: unambiguous_def)
qed

lemma last_frame_rest:
  "buf @ rest = legacy_frame delim p \<Longrightarrow> rest \<noteq> [] \<Longrightarrow> delim \<noteq> [] \<Longrightarrow> last rest = last delim"
  by (metis append_is_Nil_conv last_appendR legacy_frame_def)

lemma read_slice_prefix:
  assumes ok: "reader_ok r" and str: "stream r = rest @ t" and rest: "rest \<noteq> []" "last rest = b"
    and rs: "read_slice b r = (line, e, r')"
  obtains rest' where "rest = line @ rest'" "stream r' = rest' @ t" "line \<noteq> []"
    "e = None \<or> e = Some ErrBufferFull" "reader_ok r'" "same_source r r'"
proof -
  note spec = read_slice_ok [OF ok rs]
  have b: "b \<in> set rest" using rest by (metis last_in_set)
  have tw: "takeWhile (\<lambda>x. x \<noteq> b) (rest @ t) = takeWhile (\<lambda>x. x \<noteq> b) rest"
    by (rule takeWhile_append1 [OF b]) simp
  have "b \<notin> set (take (bsize r) (stream r)) \<Longrightarrow> bsize r < length rest"
    using b str by (cases "length rest \<le> bsize r") auto
  then have "(\<exists>rest'. rest = line @ rest') \<and> (e = None \<or> e = Some ErrBufferFull)"
    using spec b takeWhile_neq_length [OF b]
    by (auto simp: slice_spec_def str tw split: if_splits) (metis append_take_drop_id)+
  then obtain rest' where "rest = line @ rest'" and e: "e = None \<or> e = Some ErrBufferFull" by blast
  moreover have "stream r' = rest' @ t"
    using read_slice_stream [OF rs] str calculation(1) by simp
  ultimately show thesis using that read_slice_progress [OF rs e] spec by blast
qed

lemma read_one_frame:
  assumes "delim \<noteq> []" and "unambiguous delim p" and "length p \<le> MaxUint16"
    and "int (length p) \<le> limit + 1" and "reader_ok r"
    and "buf @ rest = legacy_frame delim p" and "rest \<noteq> []" and "stream r = rest @ t"
  shows "\<exists>r'. read_one delim limit r buf = (Inr p, r') \<and> reader_ok r' \<and> same_source r r'
    \<and> stream r' = t"
  using assms
proof (induction delim limit r buf arbitrary: rest rule: read_one.induct)
  case (1 delim limit r buf)
  obtain chunk e r1 where rs: "read_slice (last delim) r = (chunk, e, r1)"
    by (cases "read_slice (last delim) r") auto
  have "last rest = last delim" using last_frame_rest 1 by blast
  from read_slice_prefix [OF \<open>reader_ok r\<close> \<open>stream r = rest @ t\<close> \<open>rest \<noteq> []\<close> this rs]
  obtain rest' where rest': "rest = chunk @ rest'" "stream r1 = rest' @ t" "reader_ok r1"
    "same_source r r1" and e: "e = None \<or> e = Some ErrBufferFull"
    by metis
  have split: "(buf @ chunk) @ rest' = legacy_frame delim p" using 1 rest' by simp
  show ?case
  proof (cases "rest' = []")
    case True
    with split have "buf @ chunk = legacy_frame delim p" by simp
    then show ?thesis
      using frame_end_frame [OF 1(5)] rest' True by (subst read_one.simps) (simp add: rs)
  next
    case False
    have fe: "frame_end delim (buf @ chunk) = None"
      using unambiguous_prefix [OF 1(4) split [symmetric] False] .
    have "length (buf @ chunk) < length (legacy_frame delim p)" using False by (simp flip: split)
    then have short: "\<not> limit + 2 + int (length delim) < int (length (buf @ chunk))"
      using 1 by simp
    have "read_one delim limit r buf = read_one delim limit r1 (buf @ chunk)"
      using e fe short by (subst read_one.simps) (auto simp: rs Let_def)
    moreover have "\<exists>r'. read_one delim limit r1 (buf @ chunk) = (Inr p, r') \<and> reader_ok r'
        \<and> same_source r1 r' \<and> stream r' = t"
    proof (cases e)
      case None
      then show ?thesis
        using 1(1) [OF rs [symmetric] refl refl refl fe short None] 1(3-6) rest' split False by simp
    next
      case (Some x)
      with e have "errors_is x ErrBufferFull" by simp
      then show ?thesis
        using 1(2) [OF rs [symmetric] refl refl refl fe short Some] 1(3-6) rest' split False by simp
    qed
    ultimately show ?thesis using rest'(4) same_source_trans by metis
  qed
qed

lemma legacy_read_frame:
  assumes "delim \<noteq> []" and "unambiguous delim p" and "length p \<le> MaxUint16"
    and "int (length p) \<le> max_len + 1" and "p \<noteq> []"
    and "reader_ok r" and "stream r = legacy_frame delim p @ t"
  shows "\<exists>r'. legacy_read delim max_len r = (Inr p, r') \<and> reader_ok r' \<and> same_source r r'
    \<and> stream r' = t"
proof -
  have "int (length p) \<le> min max_len (int MaxUint16) + 1" using assms by simp
  from read_one_frame [OF assms(1-3) this assms(6), of "[]" "legacy_frame delim p" t] assms(7)
  obtain r' where "read_one delim (min max_len (int MaxUint16)) r [] = (Inr p, r')"
    "reader_ok r'" "same_source r r'" "stream r' = t"
    by (auto simp: legacy_frame_def put_uint16_def)
  then show ?thesis using \<open>p \<noteq> []\<close> by (subst legacy_read.simps) simp
qed

section \<open>End of stream\<close>

lemma read_one_truncated:
  assumes "unambiguous delim p" and "int (length p) \<le> limit + 1" and "reader_ok r"
    and "buf @ stream r @ t = legacy_frame delim p" and "t \<noteq> []" and "buf @ stream r \<noteq> []"
    and "final r = FaultEOF"
  shows "fst (read_one delim limit r buf) = Inl ErrUnexpectedEOF"
  using assms
proof (induction delim limit r buf rule: read_one.induct)
  case (1 delim limit r buf)
  obtain chunk e r1 where rs: "read_slice (last delim) r = (chunk, e, r1)"
    by (cases "read_slice (last delim) r") auto
  have str: "stream r = chunk @ stream r1" by (rule read_slice_stream [OF rs])
  have spec: "(chunk, e) = slice_spec (last delim) (bsize r) (final r) (stream r)"
    and ok1: "reader_ok r1" and "same_source r r1"
    using read_slice_ok [OF 1(5) rs] by blast+
  then have fin: "final r1 = FaultEOF" using 1(9) by (simp add: same_source_def)
  have split: "legacy_frame delim p = (buf @ chunk) @ (stream r1 @ t)" using 1(6) str by simp
  have fe: "frame_end delim (buf @ chunk) = None"
    using unambiguous_prefix [OF 1(3) split] 1(7) by simp
  have "length (buf @ chunk) < length (legacy_frame delim p)" using 1(7) by (simp add: split)
  then have short: "\<not> limit + 2 + int (length delim) < int (length (buf @ chunk))"
    using 1(4) by simp
  have rest: "(buf @ chunk) @ stream r1 @ t = legacy_frame delim p" "(buf @ chunk) @ stream r1 \<noteq> []"
    using split 1(8) str by simp_all
  consider (none) "e = None" | (full) x where "e = Some x" "errors_is x ErrBufferFull"
    | (eof) "chunk = stream r" "e = Some EOF"
    using spec 1(9) by (auto simp: slice_spec_def split: if_splits)
  then show ?case
  proof cases
    case none
    from 1(1) [OF rs [symmetric] refl refl refl fe short this 1(3,4) ok1 rest(1) 1(7) rest(2) fin]
    show ?thesis using none fe short by (subst read_one.simps) (simp add: rs Let_def)
  next
    case full
    from 1(2) [OF rs [symmetric] refl refl refl fe short full 1(3,4) ok1 rest(1) 1(7) rest(2) fin]
    show ?thesis using full fe short by (subst read_one.simps) (simp add: rs Let_def)
  next
    case eof
    then show ?thesis using fe short 1(8) by (subst read_one.simps) (simp add: rs Let_def)
  qed
qed

lemma legacy_read_truncated:
  assumes "unambiguous delim p" and "length p \<le> MaxUint16" and "int (length p) \<le> max_len + 1"
    and "reader_ok r" and "stream r @ t = legacy_frame delim p" and "t \<noteq> []" and "stream r \<noteq> []"
    and "final r = FaultEOF"
  shows "fst (legacy_read delim max_len r) = Inl ErrUnexpectedEOF"
proof -
  have "int (length p) \<le> min max_len (int MaxUint16) + 1" using assms by simp
  with read_one_truncated [OF assms(1) this assms(4), of "[]" t] assms
  have "fst (read_one delim (min max_len (int MaxUint16)) r []) = Inl ErrUnexpectedEOF" by simp
  then show ?thesis by (subst legacy_read.simps) (auto split: prod.splits)
qed

lemma legacy_read_at_end:
  assumes "0 \<le> max_len" and "reader_ok r" and "stream r = []"
  shows "fst (legacy_read delim max_len r) = Inl (fault_err (final r))"
proof -
  obtain chunk e r1 where rs: "read_slice (last delim) r = (chunk, e, r1)"
    by (cases "read_slice (last delim) r") auto
  then have "chunk = []" "e = Some (fault_err (final r))"
    using read_slice_ok [OF assms(2) rs] assms(3) by (auto simp: slice_spec_def)
  moreover have "frame_end delim [] = None" by (simp add: frame_end_def)
  ultimately have "fst (read_one delim limit r []) = Inl (fault_err (final r))" if "0 \<le> limit" for limit
    using that by (subst read_one.simps) (simp add: rs Let_def)
  from this [of "min max_len (int MaxUint16)"] assms(1)
  have "fst (read_one delim (min max_len (int MaxUint16)) r []) = Inl (fault_err (final r))" by simp
  then show ?thesis by (subst legacy_read.simps) (auto split: prod.splits)
qed

section \<open>What the limit bounds\<close>

lemma slice_spec_length: "(line, e) = slice_spec b n f s \<Longrightarrow> 0 < n \<Longrightarrow> length line \<le> n"
proof -
  have "length (takeWhile (\<lambda>x. x \<noteq> b) s) < n" if "b \<in> set (take n s)"
  proof -
    have "length (takeWhile (\<lambda>x. x \<noteq> b) (take n s @ drop n s)) = length (takeWhile (\<lambda>x. x \<noteq> b) (take n s))"
      by (subst takeWhile_append1 [OF that]) simp_all
    also have "\<dots> < length (take n s)" by (rule takeWhile_neq_length [OF that])
    finally show ?thesis by simp
  qed
  then show "(line, e) = slice_spec b n f s \<Longrightarrow> length line \<le> n"
    by (auto simp: slice_spec_def split: if_splits)
qed

text \<open>However the stream looks, one frame costs at most \<open>frameMax\<close> plus one buffer of bytes.\<close>

lemma read_one_consumption:
  assumes "read_one delim limit r buf = (res, r')" and "reader_ok r"
    and "int (length buf) \<le> limit + 2 + int (length delim)"
  shows "int (length buf) + int (length (stream r)) - int (length (stream r'))
    \<le> limit + 2 + int (length delim) + int (bsize r)"
  using assms
proof (induction delim limit r buf arbitrary: res r' rule: read_one.induct)
  case (1 delim limit r buf)
  obtain chunk e r1 where rs: "read_slice (last delim) r = (chunk, e, r1)"
    by (cases "read_slice (last delim) r") auto
  have spec: "(chunk, e) = slice_spec (last delim) (bsize r) (final r) (stream r)"
    and ok1: "reader_ok r1" and src: "same_source r r1"
    using read_slice_ok [OF 1(4) rs] by blast+
  have str: "length (stream r) = length chunk + length (stream r1)"
    using read_slice_stream [OF rs] by simp
  have chunk: "length chunk \<le> bsize r" using slice_spec_length [OF spec] by simp
  let ?loop = "frame_end delim (buf @ chunk) = None
      \<and> \<not> limit + 2 + int (length delim) < int (length (buf @ chunk))
      \<and> (e = None \<or> (\<exists>x. e = Some x \<and> errors_is x ErrBufferFull))"
  show ?case
  proof (cases ?loop)
    case True
    then have "read_one delim limit r1 (buf @ chunk) = (res, r')"
      using 1(3) by (subst (asm) read_one.simps) (auto simp: rs Let_def)
    then have "int (length (buf @ chunk)) + int (length (stream r1)) - int (length (stream r'))
        \<le> limit + 2 + int (length delim) + int (bsize r1)"
      using True ok1 1(1) [OF rs [symmetric] refl refl refl] 1(2) [OF rs [symmetric] refl refl refl]
      by (cases e) auto
    then show ?thesis using str bsize_same [OF src] by simp
  next
    case False
    then have "r' = r1"
      using 1(3) by (subst (asm) read_one.simps)
        (auto simp: rs Let_def split: option.splits if_splits)
    then show ?thesis using str chunk 1(5) by simp
  qed
qed

text \<open>With the default delimiter a payload exceeds the limit by at most one byte.\<close>

lemma read_one_default_bound:
  assumes "read_one DefaultDelimiter limit r buf = (Inr p, r')" and "reader_ok r"
    and "int (length buf) \<le> limit + 5 \<or> length buf < 4"
  shows "int (length p) \<le> limit + 1"
  using assms
proof (induction "DefaultDelimiter" limit r buf arbitrary: p r' rule: read_one.induct)
  case (1 limit r buf)
  have D: "last DefaultDelimiter = 10" "length DefaultDelimiter = 3"
    by (simp_all add: DefaultDelimiter_def)
  obtain chunk e r1 where rs: "read_slice (last DefaultDelimiter) r = (chunk, e, r1)"
    by (cases "read_slice (last DefaultDelimiter) r") auto
  have spec: "(chunk, e) = slice_spec 10 (bsize r) (final r) (stream r)" and ok1: "reader_ok r1"
    using read_slice_ok [OF 1(4) rs] by (simp_all add: D)
  show ?case
  proof (cases "frame_end DefaultDelimiter (buf @ chunk)")
    case (Some n)
    then obtain q where q: "buf @ chunk = legacy_frame DefaultDelimiter q" "length q = n"
      by (auto simp: frame_end_iff)
    have p: "length p = n"
      using 1(3) Some q by (subst (asm) read_one.simps) (auto simp: rs Let_def)
    have "length chunk \<le> 1"
    proof (rule ccontr)
      assume "\<not> length chunk \<le> 1"
      then obtain w x y where w: "chunk = w @ [x, y]"
        by (metis append.assoc append_Cons append_Nil append_butlast_last_id length_0_conv
            length_append_singleton not_less_eq_eq zero_le Suc_eq_plus1 add_0)
      with q have "x = 10" and "y = 10"
        by (auto simp: legacy_frame_def DefaultDelimiter_def
            simp flip: append_assoc)
      moreover have "10 \<notin> set (butlast chunk)"
        by (rule slice_butlast [OF spec])
      ultimately show False using w by (simp add: butlast_append)
    qed
    then have "length buf \<ge> n + 4" using arg_cong [OF q(1), of length] q(2) D by simp
    then show ?thesis using 1(5) p by auto
  next
    case None
    then have big: "\<not> limit + 2 + int (length DefaultDelimiter) < int (length (buf @ chunk))"
      using 1(3) by (subst (asm) read_one.simps) (auto simp: rs Let_def)
    have "(e = None \<or> (\<exists>x. e = Some x \<and> errors_is x ErrBufferFull))
      \<and> read_one DefaultDelimiter limit r1 (buf @ chunk) = (Inr p, r')"
      using 1(3) None by (subst (asm) read_one.simps)
        (auto simp: rs Let_def split: option.splits if_splits)
    then show ?thesis
      using 1(1) [OF rs [symmetric] refl refl refl None big] 1(2) [OF rs [symmetric] refl refl refl None big]
        big ok1 D by auto
  qed
qed

section \<open>Independence of how the bytes arrive\<close>

lemma read_one_equiv:
  assumes "reader_equiv r1 r2"
  shows "\<exists>x s1 s2. read_one delim limit r1 buf = (x, s1) \<and> read_one delim limit r2 buf = (x, s2)
    \<and> reader_equiv s1 s2"
  using assms
proof (induction delim limit r1 buf arbitrary: r2 rule: read_one.induct)
  case (1 delim limit r1 buf)
  obtain l1 e1 s1 where rs1: "read_slice (last delim) r1 = (l1, e1, s1)"
    by (cases "read_slice (last delim) r1") auto
  obtain l2 e2 s2 where rs2: "read_slice (last delim) r2 = (l2, e2, s2)"
    by (cases "read_slice (last delim) r2") auto
  note eq = read_slice_equiv [OF 1(3) rs1 rs2]
  have rs2': "read_slice (last delim) r2 = (l1, e1, s2)" using rs2 eq by simp
  let ?loop = "frame_end delim (buf @ l1) = None
      \<and> \<not> limit + 2 + int (length delim) < int (length (buf @ l1))
      \<and> (e1 = None \<or> (\<exists>x. e1 = Some x \<and> errors_is x ErrBufferFull))"
  show ?case
  proof (cases ?loop)
    case True
    then have "read_one delim limit r1 buf = read_one delim limit s1 (buf @ l1)"
      and "read_one delim limit r2 buf = read_one delim limit s2 (buf @ l1)"
      by (subst read_one.simps, auto simp: rs1 rs2' Let_def)+
    moreover have "\<exists>x t1 t2. read_one delim limit s1 (buf @ l1) = (x, t1)
        \<and> read_one delim limit s2 (buf @ l1) = (x, t2) \<and> reader_equiv t1 t2"
      using True eq(3) 1(1) [OF rs1 [symmetric] refl refl refl] 1(2) [OF rs1 [symmetric] refl refl refl]
      by (cases e1) auto
    ultimately show ?thesis by simp
  next
    case False
    then show ?thesis
      using eq(3) by (subst (1 2) read_one.simps)
        (auto simp: rs1 rs2' Let_def split: option.splits)
  qed
qed

lemma legacy_read_equiv:
  assumes "reader_equiv r1 r2"
  shows "\<exists>x s1 s2. legacy_read delim max_len r1 = (x, s1) \<and> legacy_read delim max_len r2 = (x, s2)
    \<and> reader_equiv s1 s2"
  using assms
proof (induction delim max_len r1 arbitrary: r2 rule: legacy_read.induct)
  case (1 delim max_len r1)
  obtain x s1 s2 where one: "read_one delim (min max_len (int MaxUint16)) r1 [] = (x, s1)"
    "read_one delim (min max_len (int MaxUint16)) r2 [] = (x, s2)" "reader_equiv s1 s2"
    using read_one_equiv [OF 1(2)] by blast
  show ?case
  proof (cases "x = Inr []")
    case True
    from 1(1) [OF one(1) [symmetric] True _ one(3)] show ?thesis
      using one True by (subst (1 2) legacy_read.simps) simp
  next
    case False
    then show ?thesis
      using one by (subst (1 2) legacy_read.simps) (auto split: sum.splits)
  qed
qed

end
