(* ===== verification/FramingPrefix.thy ===== *)
theory FramingPrefix
  imports Framing
begin

text \<open>
  The length-prefixed codecs Uvarint and Uint32: the encodings of a length invert, a frame
  reads back, a cut frame is \<^verbatim>\<open>io.ErrUnexpectedEOF\<close>, the limit is enforced before anything is
  allocated, and the result does not depend on how the bytes arrive.
\<close>

section \<open>Uvarint lengths\<close>

definition uvarint_bytes :: "64 word \<Rightarrow> bytes" where
  "uvarint_bytes x = append_uvarint [] x"

lemma append_uvarint_eq: "append_uvarint dst x = dst @ uvarint_bytes x"
  unfolding uvarint_bytes_def
proof (induction dst x rule: append_uvarint.induct)
  case (1 dst x)
  show ?case
  proof (cases "0x80 \<le> x")
    case True
    have gen: "append_uvarint (d @ e) y = d @ append_uvarint e y" for d e y
    proof (induction e y rule: append_uvarint.induct)
      case (1 e y)
      then show ?case by (subst (1 2) append_uvarint.simps) simp
    qed
    from gen [of dst "[]" x] show ?thesis by simp
  next
    case False
    then show ?thesis by (subst (1 2) append_uvarint.simps) simp
  qed
qed

lemma uvarint_bytes_simps:
  "uvarint_bytes x =
    (if 0x80 \<le> x then (ucast x OR 0x80) # uvarint_bytes (drop_bit 7 x) else [ucast x])"
proof -
  have "uvarint_bytes x =
      (if 0x80 \<le> x then append_uvarint ([] @ [ucast x OR 0x80]) (drop_bit 7 x) else [] @ [ucast x])"
    unfolding uvarint_bytes_def by (subst append_uvarint.simps) (rule refl)
  then show ?thesis by (simp add: append_uvarint_eq)
qed

lemma uvarint_bytes_nonempty [simp]: "uvarint_bytes x \<noteq> []"
  by (subst uvarint_bytes_simps) simp

lemma bit_mask7: "bit (0x7f :: byte) n \<longleftrightarrow> n < 7"
proof -
  have "(0x7f :: byte) = mask 7" by (simp add: mask_eq_exp_minus_1)
  then show ?thesis by (simp only: bit_mask_iff) auto
qed

lemma bit_continuation: "bit (0x80 :: byte) n \<longleftrightarrow> n = 7"
proof -
  have "(0x80 :: byte) = 2 ^ 7" by simp
  then show ?thesis by (simp only: bit_exp_iff) auto
qed

lemma continuation_low7: "(ucast ((ucast y OR 0x80) AND (0x7f :: byte)) :: 64 word) = take_bit 7 (y :: 64 word)"
  by (rule bit_word_eqI)
    (simp only: bit_ucast_iff bit_and_iff bit_or_iff bit_mask7 bit_continuation bit_take_bit_iff,
     auto)

lemma no_high_bit: "unat (w :: 'a::len word) < 2 ^ k \<Longrightarrow> \<not> bit w k"
proof -
  assume "unat w < 2 ^ k"
  then have "take_bit k (unat w) = unat w" by (rule take_bit_nat_eq_self)
  then have "\<not> bit (unat w) k" by (metis bit_take_bit_iff less_irrefl)
  then show ?thesis by (simp add: bit_unsigned_iff)
qed

lemma small_no_high_bit: "(b :: byte) < 0x80 \<Longrightarrow> \<not> bit b 7"
  by (rule no_high_bit) (simp add: word_less_nat_alt)

lemma continuation_high: "\<not> (ucast (y :: 64 word) OR 0x80 :: byte) < 0x80"
  using small_no_high_bit bit_or_iff bit_continuation by blast

lemma uvarint_accumulate:
  "take_bit s (v :: 64 word) OR push_bit s (take_bit 7 (drop_bit s v)) = take_bit (s + 7) v"
  by (rule bit_word_eqI) (auto simp: bit_simps)

lemma uvarint_last: "take_bit s (v :: 64 word) OR push_bit s (drop_bit s v) = v"
  by (rule bit_word_eqI) (auto simp: bit_simps, metis le_add_diff_inverse not_le)

lemma small_byte: "\<not> 0x80 \<le> (y :: 64 word) \<Longrightarrow> ucast (ucast y :: byte) = y \<and> (ucast y :: byte) < 0x80"
proof -
  assume "\<not> 0x80 \<le> y"
  then have y: "unat y < 128" by (simp add: word_le_nat_alt not_le)
  then have "unat (ucast y :: byte) = unat y" by (simp add: unsigned_ucast_eq take_bit_nat_eq_self)
  then show ?thesis
    using y by (simp add: word_less_nat_alt word_unat_eq_iff unsigned_ucast_eq unsigned_take_bit_eq)
qed

lemma read_uvarint_from_bytes:
  assumes "reader_ok r" and "stream r = uvarint_bytes (drop_bit (7 * i) v) @ t"
    and "i + k = 9"
  shows "\<exists>r'. read_uvarint_from (Suc k) i (take_bit (7 * i) v) (7 * i) r = (Inr v, r')
    \<and> reader_ok r' \<and> same_source r r' \<and> stream r' = t"
  using assms
proof (induction k arbitrary: i r)
  case (0 i r)
  then have i: "i = 9" by simp
  have "unat (drop_bit 63 v) < 2"
    using unsigned_less [of v, where 'a = nat] by (simp add: drop_bit_eq_div unat_div_distrib)
  moreover from this have "take_bit 8 (unat (drop_bit 63 v)) = unat (drop_bit 63 v)"
    by (intro take_bit_nat_eq_self) simp
  ultimately have small: "\<not> 0x80 \<le> drop_bit 63 v" and le1: "\<not> 1 < (ucast (drop_bit 63 v) :: byte)"
    by (auto simp: word_le_nat_alt word_less_nat_alt unsigned_ucast_eq)
  have "stream r = ucast (drop_bit 63 v) # t"
    using 0 small by (simp add: i uvarint_bytes_simps [of "drop_bit 63 v"])
  then obtain r' where "read_byte r = (Inr (ucast (drop_bit 63 v)), r')" "reader_ok r'"
    "same_source r r'" "stream r' = t"
    using read_byte_ok [OF 0(1)] by auto
  then show ?case
    using small_byte [OF small] le1 uvarint_last [of 63 v] by (simp add: i)
next
  case (Suc k i r)
  let ?y = "drop_bit (7 * i) v"
  show ?case
  proof (cases "0x80 \<le> ?y")
    case True
    then have "stream r = (ucast ?y OR 0x80) # uvarint_bytes (drop_bit 7 ?y) @ t"
      using Suc.prems by (simp add: uvarint_bytes_simps [of ?y])
    then obtain r1 where rb: "read_byte r = (Inr (ucast ?y OR 0x80), r1)" and r1: "reader_ok r1"
      "same_source r r1" "stream r1 = uvarint_bytes (drop_bit 7 ?y) @ t"
      using read_byte_ok [OF Suc.prems(1)] by auto
    have s: "7 * Suc i = 7 * i + 7" by simp
    have "stream r1 = uvarint_bytes (drop_bit (7 * Suc i) v) @ t"
      using r1(3) by (simp add: add.commute)
    from Suc.IH [OF r1(1) this] Suc.prems(3)
    obtain r' where "read_uvarint_from (Suc k) (Suc i) (take_bit (7 * Suc i) v) (7 * Suc i) r1 = (Inr v, r')"
      "reader_ok r'" "same_source r1 r'" "stream r' = t"
      by auto
    then show ?thesis
      using rb continuation_high [of ?y] same_source_trans [OF r1(2)] unfolding s
      by (subst read_uvarint_from.simps)
        (simp add: continuation_low7 uvarint_accumulate add.commute)
  next
    case False
    then have "stream r = ucast ?y # t"
      using Suc.prems by (simp add: uvarint_bytes_simps [of ?y])
    then obtain r' where "read_byte r = (Inr (ucast ?y), r')" "reader_ok r'"
      "same_source r r'" "stream r' = t"
      using read_byte_ok [OF Suc.prems(1)] by auto
    then show ?thesis
      using small_byte [OF False] uvarint_last [of "7 * i" v] Suc.prems(3)
      by (subst read_uvarint_from.simps) simp
  qed
qed

lemma read_uvarint_bytes:
  assumes "reader_ok r" and "stream r = uvarint_bytes v @ t"
  shows "\<exists>r'. read_uvarint r = (Inr v, r') \<and> reader_ok r' \<and> same_source r r' \<and> stream r' = t"
  using read_uvarint_from_bytes [of r 0 v t 9] assms
  by (simp add: read_uvarint_def numeral_eq_Suc)

lemma read_uvarint_from_truncated:
  assumes "reader_ok r" and "stream r @ t = uvarint_bytes y" and "t \<noteq> []" and "final r = FaultEOF"
    and "length (stream r) < k" and "0 < i \<or> stream r \<noteq> []"
  shows "fst (read_uvarint_from k i x s r) = Inl ErrUnexpectedEOF"
  using assms
proof (induction k arbitrary: i x s r y)
  case 0
  then show ?case by simp
next
  case (Suc k)
  obtain r1 where rb: "read_byte r = (case stream r of [] \<Rightarrow> Inl (fault_err (final r)) | b # bs \<Rightarrow> Inr b, r1)"
    and r1: "reader_ok r1" "same_source r r1" "stream r1 = tl (stream r)"
    using read_byte_ok [OF Suc.prems(1)] by blast
  show ?case
  proof (cases "stream r")
    case Nil
    then show ?thesis using rb Suc.prems by (subst read_uvarint_from.simps) simp
  next
    case (Cons b bs)
    have y: "0x80 \<le> y" and b: "b = ucast y OR 0x80" and rest: "bs @ t = uvarint_bytes (drop_bit 7 y)"
      using Suc.prems(2,3) Cons by (simp_all add: uvarint_bytes_simps [of y] split: if_splits)
    have "stream r1 = bs" "final r1 = FaultEOF"
      using r1 Cons Suc.prems(4) by (simp_all add: same_source_def)
    then have "fst (read_uvarint_from k (Suc i) x' s' r1) = Inl ErrUnexpectedEOF" for x' s'
      using Suc.IH [OF r1(1), of "drop_bit 7 y" "Suc i" x' s'] rest Suc.prems(3,5) Cons by simp
    then show ?thesis
      using rb Cons b continuation_high [of y] by (subst read_uvarint_from.simps) simp
  qed
qed

lemma length_uvarint_bytes: "length (uvarint_bytes v) \<le> 10"
proof -
  have "unat v < 2 ^ (7 * k + 7) \<Longrightarrow> length (uvarint_bytes v) \<le> k + 1" for k
  proof (induction k arbitrary: v)
    case 0
    then have "\<not> 0x80 \<le> v" by (simp add: word_le_nat_alt)
    then show ?case by (simp add: uvarint_bytes_simps [of v])
  next
    case (Suc k)
    have "unat (drop_bit 7 v) < 2 ^ (7 * k + 7)"
      using Suc.prems by (simp add: unat_drop_bit_eq drop_bit_eq_div [where 'a = nat]
          less_mult_imp_div_less power_add)
    then show ?case using Suc.IH by (simp add: uvarint_bytes_simps [of v])
  qed
  moreover have "unat v < 2 ^ LENGTH(64)" by (rule unsigned_less)
  then have "unat v < 2 ^ (7 * 9 + 7)" by simp
  ultimately show ?thesis by fastforce
qed

section \<open>Payloads\<close>

text \<open>On a 64-bit platform a limit that is not negative survives the conversion to uint64.\<close>

definition go_int :: "int \<Rightarrow> bool" where
  "go_int i \<longleftrightarrow> - (2 ^ 63) \<le> i \<and> i < 2 ^ 63"

lemma uint_of_limit: "go_int i \<Longrightarrow> 0 \<le> i \<Longrightarrow> uint (word_of_int i :: 64 word) = i"
  by (simp add: go_int_def uint_word_of_int)

lemma not_sint_neg: "\<not> bit (n :: 64 word) 63 \<Longrightarrow> \<not> sint n < 0"
  by (simp add: sint_uint signed_take_bit_eq_if_positive bit_uint_iff flip: not_le)

lemma read_payload_ok:
  assumes "reader_ok r" and "go_int max_len" and "0 \<le> max_len" and "read_payload n max_len r = (res, r')"
  shows "reader_ok r' \<and> same_source r r' \<and>
    (if max_len < uint n then res = Inl (frame_too_large (uint n) max_len) \<and> r' = r
     else if unat n \<le> length (stream r)
     then res = Inr (take (unat n) (stream r)) \<and> stream r' = drop (unat n) (stream r)
     else res = Inl (if final r = FaultEOF then ErrUnexpectedEOF else fault_err (final r)))"
proof (cases "max_len < uint n")
  case True
  then have "word_of_int max_len < n"
    using uint_of_limit [OF assms(2,3)] by (simp add: word_less_alt)
  then show ?thesis using True assms by (simp add: read_payload_def)
next
  case False
  then have big: "\<not> word_of_int max_len < n"
    using uint_of_limit [OF assms(2,3)] by (simp add: word_less_alt)
  have "uint n < 2 ^ 63" using False assms(2) by (simp add: go_int_def)
  then have "int (unat n) < int (2 ^ 63)" by simp
  then have "unat n < 2 ^ 63" by (simp only: of_nat_less_iff)
  then have "\<not> bit n 63" by (rule no_high_bit)
  then have nonneg: "\<not> sint n < 0" by (simp add: not_sint_neg)
  obtain x r1 where rf: "read_full (unat n) r = (x, r1)" by (cases "read_full (unat n) r")
  with big nonneg have "(res, r') = (case x of Inl e \<Rightarrow> Inl (unexpectedEOF e True) | Inr p \<Rightarrow> Inr p, r1)"
    using assms(4) by (cases x) (auto simp: read_payload_def)
  then show ?thesis
    using read_full_ok [OF assms(1) rf] False
    by (cases "unat n \<le> length (stream r)") (auto simp: unexpectedEOF_def)
qed

section \<open>Uint32\<close>

definition uint32_frame :: "bytes \<Rightarrow> bytes" where
  "uint32_frame p = put_uint32 (of_nat (length p)) @ p"

lemma length_put_uint32 [simp]: "length (put_uint32 v) = 4"
  by (simp add: put_uint32_def)

lemma get_put_uint32 [simp]: "get_uint32 (put_uint32 v) = v"
proof -
  have top: "\<not> n - 16 < 8 \<Longrightarrow> 24 + (n - 24) = n" for n :: nat by simp
  show ?thesis
    by (rule bit_word_eqI) (auto simp: get_uint32_def put_uint32_def bit_simps, metis top)
qed

lemma put_get_uint32: "length b = 4 \<Longrightarrow> put_uint32 (get_uint32 b) = b"
proof -
  assume "length b = 4"
  then obtain w x y z where b: "b = [w, x, y, z]"
    by (auto simp: numeral_eq_Suc length_Suc_conv)
  have "(ucast (drop_bit 24 (get_uint32 b)) :: byte) = w" "(ucast (drop_bit 16 (get_uint32 b)) :: byte) = x"
    "(ucast (drop_bit 8 (get_uint32 b)) :: byte) = y" "(ucast (get_uint32 b) :: byte) = z"
    by (rule bit_word_eqI; auto simp: get_uint32_def b bit_simps dest: bit_imp_le_length)+
  then show ?thesis by (simp add: put_uint32_def b)
qed

definition uint32_fits :: "int \<Rightarrow> bytes \<Rightarrow> bool" where
  "uint32_fits max_len p \<longleftrightarrow> go_int max_len \<and> int (length p) \<le> max_len \<and> length p \<le> MaxUint32"

lemma small_of_nat64: "int n < 2 ^ 63 \<Longrightarrow> unat (of_nat n :: 64 word) = n \<and> uint (of_nat n :: 64 word) = int n"
proof -
  assume "int n < 2 ^ 63"
  then have "int n < int (2 ^ 63)" by simp
  then have "n < 2 ^ 63" by (simp only: of_nat_less_iff)
  then have "unat (of_nat n :: 64 word) = n" by (simp add: unat_of_nat)
  then show ?thesis by (metis of_nat_unat)
qed

lemma uint32_append_eq: "uint32_fits max_len p \<Longrightarrow> uint32_append dst p = (dst @ uint32_frame p, None)"
proof -
  assume fits: "uint32_fits max_len p"
  then have "int (length p) < 2 ^ 63" by (simp add: uint32_fits_def go_int_def)
  from small_of_nat64 [OF this] fits
  have "\<not> of_nat MaxUint32 < (of_nat (length p) :: 64 word)"
    by (simp add: word_less_nat_alt uint32_fits_def MaxUint32_def)
  then show ?thesis by (simp add: uint32_append_def uint32_frame_def)
qed

lemma unat_up: "unat (ucast (w :: 32 word) :: 64 word) = unat w"
proof -
  have "unat w < 2 ^ LENGTH(32)" by (rule unsigned_less)
  then have "take_bit 64 (unat w) = unat w" by (intro take_bit_nat_eq_self) simp
  then show ?thesis by (simp add: unsigned_ucast_eq)
qed

lemma header_len: "length p \<le> MaxUint32 \<Longrightarrow> unat (ucast (of_nat (length p) :: 32 word) :: 64 word) = length p"
  by (simp add: unat_up unat_of_nat MaxUint32_def)

lemma uint32_read_frame:
  assumes fits: "uint32_fits max_len p" and ok: "reader_ok r" and str: "stream r = uint32_frame p @ t"
  shows "\<exists>r'. uint32_read max_len r = (Inr p, r') \<and> reader_ok r' \<and> same_source r r' \<and> stream r' = t"
proof -
  let ?n = "ucast (of_nat (length p) :: 32 word) :: 64 word"
  obtain h r1 where rf: "read_full 4 r = (h, r1)" by (cases "read_full 4 r")
  from read_full_ok [OF ok rf] str have h: "h = Inr (put_uint32 (of_nat (length p)))"
    and r1: "reader_ok r1" "same_source r r1" "stream r1 = p @ t"
    by (simp_all add: uint32_frame_def)
  obtain x r' where rp: "read_payload ?n max_len r1 = (x, r')" by (cases "read_payload ?n max_len r1")
  have n: "unat ?n = length p" using header_len [of p] fits by (simp add: uint32_fits_def)
  then have "uint ?n = int (length p)" by (metis of_nat_unat)
  with read_payload_ok [OF r1(1) _ _ rp] fits n r1(3)
  have "x = Inr p" "stream r' = t" "reader_ok r'" "same_source r1 r'"
    by (auto simp: uint32_fits_def)
  then show ?thesis using same_source_trans [OF r1(2)] by (simp add: uint32_read_def rf h rp)
qed

lemma uint32_read_cut:
  assumes fits: "uint32_fits max_len p" and ok: "reader_ok r" and str: "stream r @ t = uint32_frame p"
    and "t \<noteq> []" and "stream r \<noteq> []"
  shows "fst (uint32_read max_len r) =
    Inl (if final r = FaultEOF then ErrUnexpectedEOF else fault_err (final r))" (is "_ = Inl ?e")
proof -
  let ?n = "ucast (of_nat (length p) :: 32 word) :: 64 word"
  obtain h r1 where rf: "read_full 4 r = (h, r1)" by (cases "read_full 4 r")
  note spec = read_full_ok [OF ok rf]
  show ?thesis
  proof (cases "4 \<le> length (stream r)")
    case False
    then show ?thesis using spec assms(5) by (simp add: uint32_read_def rf unexpectedEOF_def)
  next
    case True
    obtain x r' where rp: "read_payload ?n max_len r1 = (x, r')" by (cases "read_payload ?n max_len r1")
    have "take 4 (stream r) = put_uint32 (of_nat (length p))"
      and "drop 4 (stream r) @ t = p"
      using arg_cong [OF str, of "take 4"] arg_cong [OF str, of "drop 4"] True
      by (simp_all add: uint32_frame_def)
    then have h: "h = Inr (put_uint32 (of_nat (length p)))" and r1: "reader_ok r1" "same_source r r1"
      and "stream r1 @ t = p"
      using spec True by auto
    from arg_cong [OF this(4), of length] \<open>t \<noteq> []\<close>
    have short: "length (stream r1) < length p" by (cases t) auto
    have n: "unat ?n = length p" using header_len [of p] fits by (simp add: uint32_fits_def)
    then have "uint ?n = int (length p)" by (metis of_nat_unat)
    with read_payload_ok [OF r1(1) _ _ rp] fits n short r1(2)
    have "x = Inl ?e" by (auto simp: uint32_fits_def same_source_def)
    then show ?thesis by (simp add: uint32_read_def rf h rp)
  qed
qed

lemma uint32_read_truncated:
  assumes "uint32_fits max_len p" and "reader_ok r" and "stream r @ t = uint32_frame p"
    and "t \<noteq> []" and "stream r \<noteq> []" and "final r = FaultEOF"
  shows "fst (uint32_read max_len r) = Inl ErrUnexpectedEOF"
  using uint32_read_cut [OF assms(1-5)] assms(6) by simp

lemma uint32_read_at_end:
  "reader_ok r \<Longrightarrow> stream r = [] \<Longrightarrow> fst (uint32_read max_len r) = Inl (fault_err (final r))"
  using read_full_ok [of r 4] by (cases "read_full 4 r") (auto simp: uint32_read_def unexpectedEOF_def)

lemma uint32_read_sound:
  assumes ok: "reader_ok r" and lim: "go_int max_len" "0 \<le> max_len"
    and rd: "uint32_read max_len r = (Inr p, r')"
  shows "stream r = uint32_frame p @ stream r' \<and> int (length p) \<le> max_len"
proof -
  obtain h r1 where rf: "read_full 4 r = (h, r1)" by (cases "read_full 4 r")
  then obtain hdr where h: "h = Inr hdr" using rd by (cases h) (auto simp: uint32_read_def)
  with read_full_ok [OF ok rf] have r1: "reader_ok r1" "4 \<le> length (stream r)"
    "hdr = take 4 (stream r)" "stream r1 = drop 4 (stream r)"
    by (auto split: if_splits)
  let ?n = "ucast (get_uint32 hdr) :: 64 word"
  have "read_payload ?n max_len r1 = (Inr p, r')" using rd by (simp add: uint32_read_def rf h)
  from read_payload_ok [OF r1(1) lim this]
  have p: "uint ?n \<le> max_len" "unat ?n \<le> length (stream r1)" "p = take (unat ?n) (stream r1)"
    "stream r' = drop (unat ?n) (stream r1)"
    by (auto split: if_splits)
  then have len: "length p = unat ?n" by simp
  then have "of_nat (length p) = get_uint32 hdr" by (simp add: unat_up)
  then have "put_uint32 (of_nat (length p)) = hdr" using r1 by (simp add: put_get_uint32)
  moreover have "int (length p) \<le> max_len" using p(1) len by simp
  moreover have "stream r1 = p @ stream r'" unfolding p(3,4) by simp
  moreover have "stream r = hdr @ stream r1" unfolding r1(3,4) by simp
  ultimately show ?thesis by (simp add: uint32_frame_def)
qed

section \<open>Uvarint\<close>

definition uvarint_frame :: "bytes \<Rightarrow> bytes" where
  "uvarint_frame p = uvarint_bytes (of_nat (length p)) @ p"

definition uvarint_fits :: "int \<Rightarrow> bytes \<Rightarrow> bool" where
  "uvarint_fits max_len p \<longleftrightarrow> go_int max_len \<and> int (length p) \<le> max_len"

lemma uvarint_append_eq: "uvarint_append dst p = (dst @ uvarint_frame p, None)"
  by (simp add: uvarint_append_def uvarint_frame_def append_uvarint_eq)

lemma uvarint_len:
  "uvarint_fits max_len p \<Longrightarrow>
    unat (of_nat (length p) :: 64 word) = length p \<and> uint (of_nat (length p) :: 64 word) = int (length p)"
  by (rule small_of_nat64) (simp add: uvarint_fits_def go_int_def)

lemma uvarint_read_frame:
  assumes fits: "uvarint_fits max_len p" and ok: "reader_ok r" and str: "stream r = uvarint_frame p @ t"
  shows "\<exists>r'. uvarint_read max_len r = (Inr p, r') \<and> reader_ok r' \<and> same_source r r' \<and> stream r' = t"
proof -
  let ?n = "of_nat (length p) :: 64 word"
  obtain r1 where ru: "read_uvarint r = (Inr ?n, r1)" and r1: "reader_ok r1" "same_source r r1"
    "stream r1 = p @ t"
    using read_uvarint_bytes [OF ok, of ?n "p @ t"] str by (auto simp: uvarint_frame_def)
  obtain x r' where rp: "read_payload ?n max_len r1 = (x, r')" by (cases "read_payload ?n max_len r1")
  from read_payload_ok [OF r1(1) _ _ rp] fits uvarint_len [OF fits] r1(3)
  have "x = Inr p" "stream r' = t" "reader_ok r'" "same_source r1 r'"
    by (auto simp: uvarint_fits_def)
  then show ?thesis using same_source_trans [OF r1(2)] by (simp add: uvarint_read_def ru rp)
qed

lemma uvarint_read_truncated:
  assumes fits: "uvarint_fits max_len p" and ok: "reader_ok r" and str: "stream r @ t = uvarint_frame p"
    and "t \<noteq> []" and "stream r \<noteq> []" and fin: "final r = FaultEOF"
  shows "fst (uvarint_read max_len r) = Inl ErrUnexpectedEOF"
proof -
  let ?n = "of_nat (length p) :: 64 word"
  let ?h = "uvarint_bytes ?n"
  show ?thesis
  proof (cases "length ?h \<le> length (stream r)")
    case False
    then have "stream r = take (length (stream r)) ?h"
      using arg_cong [OF str, of "take (length (stream r))"] by (simp add: uvarint_frame_def)
    then have split: "stream r @ drop (length (stream r)) ?h = ?h" by (metis append_take_drop_id)
    have "length (stream r) < 10" using False length_uvarint_bytes [of ?n] by simp
    with read_uvarint_from_truncated [OF ok split _ fin, of 10 0 0 0] False assms(5)
    have "fst (read_uvarint r) = Inl ErrUnexpectedEOF" by (simp add: read_uvarint_def)
    then show ?thesis
      by (cases "read_uvarint r") (simp add: uvarint_read_def unexpectedEOF_def)
  next
    case True
    then have "stream r = ?h @ drop (length ?h) (stream r)" and rest: "drop (length ?h) (stream r) @ t = p"
      using arg_cong [OF str, of "take (length ?h)"] arg_cong [OF str, of "drop (length ?h)"]
        append_take_drop_id [of "length ?h" "stream r"]
      by (simp_all add: uvarint_frame_def)
    then obtain r1 where ru: "read_uvarint r = (Inr ?n, r1)" and r1: "reader_ok r1" "same_source r r1"
      "stream r1 = drop (length ?h) (stream r)"
      using read_uvarint_bytes [OF ok] by blast
    have short: "length (stream r1) < length p"
      using arg_cong [OF rest, of length] r1(3) \<open>t \<noteq> []\<close> by (cases t) auto
    obtain x r' where rp: "read_payload ?n max_len r1 = (x, r')" by (cases "read_payload ?n max_len r1")
    from read_payload_ok [OF r1(1) _ _ rp] fits uvarint_len [OF fits] short r1(2) fin
    have "x = Inl ErrUnexpectedEOF" by (auto simp: uvarint_fits_def same_source_def)
    then show ?thesis by (simp add: uvarint_read_def ru rp)
  qed
qed

lemma uvarint_read_at_end:
  assumes "reader_ok r" and "stream r = []"
  shows "fst (uvarint_read max_len r) = Inl (fault_err (final r))"
proof -
  obtain r1 where "read_byte r = (Inl (fault_err (final r)), r1)"
    using read_byte_ok [OF assms(1)] assms(2) by auto
  then have "read_uvarint r = (Inl (fault_err (final r)), r1)"
    by (simp add: read_uvarint_def numeral_eq_Suc)
  then show ?thesis by (simp add: uvarint_read_def unexpectedEOF_def)
qed

lemma read_uvarint_from_ok:
  assumes "reader_ok r" and "read_uvarint_from k i x s r = (res, r')"
  shows "reader_ok r' \<and> same_source r r' \<and> (\<exists>h. stream r = h @ stream r' \<and> length h \<le> k)"
  using assms
proof (induction k arbitrary: i x s r)
  case 0
  then show ?case by (auto intro: exI [of _ "[]"])
next
  case (Suc k)
  obtain r1 where rb: "read_byte r = (case stream r of [] \<Rightarrow> Inl (fault_err (final r)) | b # bs \<Rightarrow> Inr b, r1)"
    and r1: "reader_ok r1" "same_source r r1" "stream r1 = tl (stream r)"
    using read_byte_ok [OF Suc.prems(1)] by blast
  show ?case
  proof (cases "stream r")
    case Nil
    then show ?thesis using Suc.prems(2) rb r1 by (auto intro: exI [of _ "[]"])
  next
    case (Cons b bs)
    consider (stop) "r' = r1"
      | (more) "read_uvarint_from k (Suc i) (x OR push_bit s (ucast (b AND 0x7f))) (s + 7) r1 = (res, r')"
      using Suc.prems(2) rb Cons by (auto split: if_splits)
    then show ?thesis
    proof cases
      case stop
      then show ?thesis using r1 Cons by (auto intro: exI [of _ "[b]"])
    next
      case more
      from Suc.IH [OF r1(1) more] obtain h where "reader_ok r'" "same_source r1 r'"
        "stream r1 = h @ stream r'" "length h \<le> k"
        by blast
      then show ?thesis
        using r1 Cons same_source_trans [OF r1(2)] by (auto intro: exI [of _ "b # h"])
    qed
  qed
qed

lemma uvarint_read_sound:
  assumes ok: "reader_ok r" and lim: "go_int max_len" "0 \<le> max_len"
    and rd: "uvarint_read max_len r = (Inr p, r')"
  shows "int (length p) \<le> max_len \<and> (\<exists>h. stream r = h @ p @ stream r' \<and> length h \<le> 10)"
proof -
  obtain x r1 where ru: "read_uvarint r = (x, r1)" by (cases "read_uvarint r")
  then obtain n where x: "x = Inr n" using rd by (cases x) (auto simp: uvarint_read_def)
  from read_uvarint_from_ok [OF ok ru [unfolded read_uvarint_def]] obtain h
    where h: "reader_ok r1" "stream r = h @ stream r1" "length h \<le> 10" by blast
  have "read_payload n max_len r1 = (Inr p, r')" using rd by (simp add: uvarint_read_def ru x)
  from read_payload_ok [OF h(1) lim this]
  have p: "uint n \<le> max_len" "unat n \<le> length (stream r1)" "p = take (unat n) (stream r1)"
    "stream r' = drop (unat n) (stream r1)"
    by (auto split: if_splits)
  then have "length p = unat n" "stream r1 = p @ stream r'" by simp_all
  then show ?thesis using p(1) h by auto
qed

section \<open>Independence of how the bytes arrive\<close>

lemma read_payload_equiv:
  assumes "reader_equiv r1 r2"
  shows "\<exists>x s1 s2. read_payload n max_len r1 = (x, s1) \<and> read_payload n max_len r2 = (x, s2)
    \<and> reader_equiv s1 s2"
  using read_full_equiv [OF assms, of "unat n"] assms
  by (auto simp: read_payload_def split: sum.splits)

lemma uint32_read_equiv:
  assumes "reader_equiv r1 r2"
  shows "\<exists>x s1 s2. uint32_read max_len r1 = (x, s1) \<and> uint32_read max_len r2 = (x, s2)
    \<and> reader_equiv s1 s2"
proof -
  obtain x s1 s2 where rf: "read_full 4 r1 = (x, s1)" "read_full 4 r2 = (x, s2)" "reader_equiv s1 s2"
    using read_full_equiv [OF assms] by blast
  then show ?thesis
    using read_payload_equiv [OF rf(3)] by (cases x) (auto simp: uint32_read_def)
qed

lemma read_uvarint_from_equiv:
  "reader_equiv r1 r2 \<Longrightarrow>
    \<exists>y s1 s2. read_uvarint_from k i x s r1 = (y, s1) \<and> read_uvarint_from k i x s r2 = (y, s2)
      \<and> reader_equiv s1 s2"
proof (induction k arbitrary: i x s r1 r2)
  case (Suc k)
  obtain b s1 s2 where rb: "read_byte r1 = (b, s1)" "read_byte r2 = (b, s2)" "reader_equiv s1 s2"
    using read_byte_equiv [OF Suc.prems] by blast
  then show ?case using Suc.IH [OF rb(3)] by (cases b) auto
qed simp

lemma uvarint_read_equiv:
  assumes "reader_equiv r1 r2"
  shows "\<exists>x s1 s2. uvarint_read max_len r1 = (x, s1) \<and> uvarint_read max_len r2 = (x, s2)
    \<and> reader_equiv s1 s2"
proof -
  obtain x s1 s2 where ru: "read_uvarint r1 = (x, s1)" "read_uvarint r2 = (x, s2)" "reader_equiv s1 s2"
    using read_uvarint_from_equiv [OF assms] unfolding read_uvarint_def by blast
  then show ?thesis
    using read_payload_equiv [OF ru(3)] by (cases x) (auto simp: uvarint_read_def)
qed

end
