(* ===== verification/CodecContract.thy ===== *)
theory CodecContract
  imports FramingLegacy FramingPrefix
begin

text \<open>
  What the transports and clients rely on when they hold a \<^verbatim>\<open>framing.Codec\<close>: the locale
  \<open>framing_codec\<close> (the frames a codec appends are the frames it reads) and its extension
  \<open>stream_codec\<close> (the result does not depend on how the bytes arrive), with the facts about
  whole message sequences proved once. Legacy, Uvarint and Uint32 interpret both.
\<close>

section \<open>Message sequences\<close>

text \<open>The encoding loop of \<^verbatim>\<open>writeMessages\<close>.\<close>

fun append_all :: "codec \<Rightarrow> bytes \<Rightarrow> bytes list \<Rightarrow> bytes \<times> err option" where
  "append_all c buf [] = (buf, None)"
| "append_all c buf (m # ms) =
     (case Append c buf m of
        (buf', Some e) \<Rightarrow> (buf', Some e)
      | (buf', None) \<Rightarrow> append_all c buf' ms)"

text \<open>Successive Reads, up to the first error.\<close>

fun read_many :: "codec \<Rightarrow> int \<Rightarrow> nat \<Rightarrow> reader \<Rightarrow> bytes list \<times> err option \<times> reader" where
  "read_many c max_len 0 r = ([], None, r)"
| "read_many c max_len (Suc n) r =
     (case Read c max_len r of
        (Inl e, r') \<Rightarrow> ([], Some e, r')
      | (Inr p, r') \<Rightarrow>
          (case read_many c max_len n r' of (ps, e, r'') \<Rightarrow> (p # ps, e, r'')))"

section \<open>The contract\<close>

locale framing_codec =
  fixes c :: codec
    and frame :: "bytes \<Rightarrow> bytes"
    and fits :: "int \<Rightarrow> bytes \<Rightarrow> bool"
  assumes append_frame: "fits max_len p \<Longrightarrow> Append c dst p = (dst @ frame p, None)"
    and append_ok: "Append c dst p = (out, None) \<Longrightarrow> out = dst @ frame p"
    and append_error: "Append c dst p = (out, Some e) \<Longrightarrow> out = dst"
    and read_frame: "fits max_len p \<Longrightarrow> reader_ok r \<Longrightarrow> stream r = frame p @ t \<Longrightarrow>
      \<exists>r'. Read c max_len r = (Inr p, r') \<and> reader_ok r' \<and> same_source r r' \<and> stream r' = t"
    and read_truncated: "fits max_len p \<Longrightarrow> reader_ok r \<Longrightarrow> final r = FaultEOF \<Longrightarrow>
      stream r @ t = frame p \<Longrightarrow> t \<noteq> [] \<Longrightarrow> stream r \<noteq> [] \<Longrightarrow>
      fst (Read c max_len r) = Inl ErrUnexpectedEOF"
    and read_at_end: "0 \<le> max_len \<Longrightarrow> reader_ok r \<Longrightarrow> stream r = [] \<Longrightarrow>
      fst (Read c max_len r) = Inl (fault_err (final r))"
begin

lemma append_all_frames:
  "\<forall>m \<in> set ms. fits max_len m \<Longrightarrow> append_all c dst ms = (dst @ concat (map frame ms), None)"
  by (induction ms arbitrary: dst) (simp_all add: append_frame [of max_len])

lemma append_all_ok: "append_all c dst ms = (out, None) \<Longrightarrow> out = dst @ concat (map frame ms)"
  by (induction ms arbitrary: dst) (fastforce split: prod.splits option.splits dest: append_ok)+

lemma read_many_frames:
  "\<forall>m \<in> set ms. fits max_len m \<Longrightarrow> reader_ok r \<Longrightarrow> stream r = concat (map frame ms) @ t \<Longrightarrow>
    \<exists>r'. read_many c max_len (length ms) r = (ms, None, r') \<and> reader_ok r' \<and> same_source r r'
      \<and> stream r' = t"
proof (induction ms arbitrary: r)
  case Nil
  then show ?case by simp
next
  case (Cons m ms)
  then obtain r1 where r1: "Read c max_len r = (Inr m, r1)" "reader_ok r1" "same_source r r1"
    "stream r1 = concat (map frame ms) @ t"
    using read_frame [of max_len m r "concat (map frame ms) @ t"] by auto
  with Cons.IH [OF _ r1(2,4)] Cons.prems(1) obtain r' where
    "read_many c max_len (length ms) r1 = (ms, None, r')" "reader_ok r'" "same_source r1 r'"
    "stream r' = t"
    by auto
  then show ?case using r1 same_source_trans [OF r1(3)] by simp
qed

text \<open>Everything that was appended is read back, in order, and then the end of the stream.\<close>

lemma sequence_roundtrip:
  assumes "\<forall>m \<in> set ms. fits max_len m" and "append_all c [] ms = (out, e)"
    and "concat cs = out" and "[] \<notin> set cs"
  shows "e = None \<and> (\<exists>r'. read_many c max_len (length ms) (new_reader_size n cs f) = (ms, None, r')
    \<and> reader_ok r' \<and> stream r' = [])"
proof -
  have "e = None" and out: "out = concat (map frame ms)"
    using append_all_frames [OF assms(1), of "[]"] assms(2) by simp_all
  then show ?thesis
    using read_many_frames [OF assms(1) reader_ok_new [OF assms(4)], of n f "[]"] assms(3)
    by auto
qed

text \<open>A stream cut inside a frame gives the frames before it and an unexpected EOF.\<close>

lemma cut_stream:
  assumes "\<forall>m \<in> set ms. fits max_len m" and "fits max_len p" and "reader_ok r"
    and "final r = FaultEOF" and "stream r = concat (map frame ms) @ s"
    and "s @ t = frame p" and "s \<noteq> []" and "t \<noteq> []"
  shows "\<exists>r'. read_many c max_len (Suc (length ms)) r = (ms, Some ErrUnexpectedEOF, r')"
  using assms
proof (induction ms arbitrary: r)
  case Nil
  then have "fst (Read c max_len r) = Inl ErrUnexpectedEOF"
    using read_truncated [of max_len p r t] by simp
  then show ?case by (cases "Read c max_len r") simp
next
  case (Cons m ms)
  then obtain r1 where r1: "Read c max_len r = (Inr m, r1)" "reader_ok r1" "same_source r r1"
    "stream r1 = concat (map frame ms) @ s"
    using read_frame [of max_len m r "concat (map frame ms) @ s"] by auto
  moreover have "final r1 = FaultEOF" using r1(3) Cons.prems(4) by (simp add: same_source_def)
  ultimately obtain r' where "read_many c max_len (Suc (length ms)) r1 = (ms, Some ErrUnexpectedEOF, r')"
    using Cons.IH [of r1] Cons.prems by auto
  then show ?case using r1(1) by (simp del: read_many.simps(2) add: read_many.simps(2) [of c max_len "Suc (length ms)"])
qed

end

locale stream_codec = framing_codec +
  assumes read_equiv: "reader_equiv r1 r2 \<Longrightarrow>
      \<exists>x s1 s2. Read c max_len r1 = (x, s1) \<and> Read c max_len r2 = (x, s2) \<and> reader_equiv s1 s2"
begin

lemma read_many_equiv:
  "reader_equiv r1 r2 \<Longrightarrow>
    \<exists>ps e s1 s2. read_many c max_len n r1 = (ps, e, s1) \<and> read_many c max_len n r2 = (ps, e, s2)
      \<and> reader_equiv s1 s2"
proof (induction n arbitrary: r1 r2)
  case 0
  then show ?case by simp
next
  case (Suc n)
  obtain x s1 s2 where rd: "Read c max_len r1 = (x, s1)" "Read c max_len r2 = (x, s2)" "reader_equiv s1 s2"
    using read_equiv [OF Suc.prems] by blast
  obtain ps e t1 t2 where "read_many c max_len n s1 = (ps, e, t1)" "read_many c max_len n s2 = (ps, e, t2)"
    "reader_equiv t1 t2"
    using Suc.IH [OF rd(3)] by blast
  with rd show ?case by (cases x) auto
qed

end

section \<open>The three codecs\<close>

text \<open>
  Legacy frames a non-empty payload of at most 65535 bytes with no frame of its own inside.
  Its reader accepts one byte more than the limit asks (see \<open>legacy_limit_off_by_one\<close>).
\<close>

definition legacy_fits :: "bytes \<Rightarrow> int \<Rightarrow> bytes \<Rightarrow> bool" where
  "legacy_fits delim max_len p \<longleftrightarrow> delim \<noteq> [] \<and> p \<noteq> [] \<and> length p \<le> MaxUint16
     \<and> int (length p) \<le> max_len + 1 \<and> unambiguous delim p"

lemma codec_fields [simp]:
  "Append (legacy_codec delim) = legacy_append delim" "Read (legacy_codec delim) = legacy_read delim"
  "MaxPayload (legacy_codec delim) = int MaxUint16"
  "Append Uvarint = uvarint_append" "Read Uvarint = uvarint_read" "MaxPayload Uvarint = MaxInt32"
  "Append Uint32 = uint32_append" "Read Uint32 = uint32_read" "MaxPayload Uint32 = MaxInt32"
  by (simp_all add: legacy_codec_def Uvarint_def Uint32_def)

interpretation legacy_c: stream_codec "legacy_codec delim" "legacy_frame delim" "legacy_fits delim"
  for delim
proof (unfold_locales, unfold codec_fields)
  show "legacy_append delim dst p = (out, Some e) \<Longrightarrow> out = dst"
    and "legacy_append delim dst p = (out, None) \<Longrightarrow> out = dst @ legacy_frame delim p" for dst p out e
    by (auto simp: legacy_append_def legacy_frame_def split: if_splits)
qed (rule legacy_read_equiv, assumption |
    force simp: legacy_fits_def legacy_append_eq legacy_read_at_end
      intro: legacy_read_frame legacy_read_truncated)+

interpretation uvarint_c: stream_codec Uvarint uvarint_frame uvarint_fits
  by (unfold_locales, unfold codec_fields)
    (rule uvarint_read_equiv, assumption |
      force simp: uvarint_append_eq uvarint_append_def uvarint_read_at_end
        intro: uvarint_read_frame uvarint_read_truncated)+

interpretation uint32_c: stream_codec Uint32 uint32_frame uint32_fits
proof (unfold_locales, unfold codec_fields)
  show "uint32_append dst p = (out, Some e) \<Longrightarrow> out = dst"
    and "uint32_append dst p = (out, None) \<Longrightarrow> out = dst @ uint32_frame p" for dst p out e
    by (auto simp: uint32_append_def uint32_frame_def split: if_splits)
qed (rule uint32_read_equiv, assumption |
    force simp: uint32_append_eq uint32_read_at_end
      intro: uint32_read_frame uint32_read_truncated)+

end
