(* ===== verification/StreamTransport.thy ===== *)
theory StreamTransport
  imports TransportContract CodecContract
begin

text \<open>
  \<^verbatim>\<open>listener/stream.go\<close>: framing messages on a byte stream, as TCP and QUIC use it.
  With any codec of \<open>CodecContract\<close> it meets the two contracts of \<open>TransportContract\<close>.
\<close>

section \<open>State\<close>

definition readBufferSize :: nat where "readBufferSize = 32 * 1024"
definition maxRetainedWriteBuffer :: nat where "maxRetainedWriteBuffer = 2 ^ 20"

definition newReader :: "bytes list \<Rightarrow> fault \<Rightarrow> reader" where
  "newReader cs f = new_reader_size readBufferSize cs f"

text \<open>
  The first group is the Go struct; a deadline function is the error it returns at a given
  time, \<open>None\<close> for nil, and \<open>bufCap\<close> is the capacity of the write buffer kept between
  batches. The second group is what the connection does: \<open>clock\<close> is \<^verbatim>\<open>time.Now\<close> at each call,
  \<open>netWrite\<close> the answer to each \<^verbatim>\<open>Write\<close>, \<open>grown\<close> the capacity that appending up to a length
  leaves. The third records effects: the deadlines set, the bytes and the calls of \<^verbatim>\<open>Write\<close>,
  the calls of \<^verbatim>\<open>closeFn\<close>.
\<close>

record stream_transport =
  streamReader :: reader
  streamCodec :: codec
  maxMessage :: int
  readTimeout :: int
  writeTimeout :: int
  setReadDeadline :: "(int \<Rightarrow> err option) option"
  setWriteDeadline :: "int \<Rightarrow> err option"
  bufCap :: nat
  clock :: "nat \<Rightarrow> int"
  netWrite :: "nat \<Rightarrow> bytes \<Rightarrow> nat \<times> err option"
  grown :: "nat \<Rightarrow> nat \<Rightarrow> nat"
  ticks :: nat
  readDeadline :: "int option"
  writeDeadline :: "int option"
  wire :: bytes
  writes :: nat
  closeFnCalls :: "err list"

text \<open>\<^verbatim>\<open>io.Writer\<close>: at most all of the bytes, and an error when it is fewer.\<close>

definition io_writer :: "(nat \<Rightarrow> bytes \<Rightarrow> nat \<times> err option) \<Rightarrow> bool" where
  "io_writer w \<longleftrightarrow> (\<forall>i b n e. w i b = (n, e) \<longrightarrow> n \<le> length b \<and> (e = None \<longrightarrow> n = length b))"

section \<open>Operations\<close>

definition time_Now :: "stream_transport \<Rightarrow> int \<times> stream_transport" where
  "time_Now t = (clock t (ticks t), t\<lparr>ticks := Suc (ticks t)\<rparr>)"

definition codec_read :: "stream_transport \<Rightarrow> (err + bytes) \<times> stream_transport" where
  "codec_read t = (case Read (streamCodec t) (maxMessage t) (streamReader t) of
     (x, r) \<Rightarrow> (x, t\<lparr>streamReader := r\<rparr>))"

definition stream_readMessage :: "stream_transport \<Rightarrow> (err + bytes) \<times> stream_transport" where
  "stream_readMessage t =
     (case setReadDeadline t of
        Some set_deadline \<Rightarrow>
          if 0 < readTimeout t \<and> Buffered (streamReader t) = 0
          then (case time_Now t of (now, t1) \<Rightarrow>
             (case set_deadline (now + readTimeout t) of
                Some e \<Rightarrow> (Inl e, t1)
              | None \<Rightarrow> codec_read (t1\<lparr>readDeadline := Some (now + readTimeout t)\<rparr>)))
          else codec_read t
      | None \<Rightarrow> codec_read t)"

definition net_write :: "bytes \<Rightarrow> stream_transport \<Rightarrow> err option \<times> stream_transport" where
  "net_write b t = (case netWrite t (writes t) b of
     (n, e) \<Rightarrow>
       (let c = grown t (bufCap t) (length b) in
        (e, t\<lparr>wire := wire t @ take n b, writes := Suc (writes t),
           bufCap := (if c \<le> maxRetainedWriteBuffer then c else 0)\<rparr>)))"

definition stream_writeMessages ::
    "bytes list \<Rightarrow> stream_transport \<Rightarrow> err option \<times> stream_transport" where
  "stream_writeMessages ms t =
     (case append_all (streamCodec t) [] ms of
        (b, Some e) \<Rightarrow> (Some e, t)
      | (b, None) \<Rightarrow>
          if 0 < writeTimeout t
          then (case time_Now t of (now, t1) \<Rightarrow>
             (case setWriteDeadline t (now + writeTimeout t) of
                Some e \<Rightarrow> (Some e, t1)
              | None \<Rightarrow> net_write b (t1\<lparr>writeDeadline := Some (now + writeTimeout t)\<rparr>)))
          else net_write b t)"

definition stream_close :: "err \<Rightarrow> stream_transport \<Rightarrow> stream_transport" where
  "stream_close cause t = t\<lparr>closeFnCalls := closeFnCalls t @ [cause]\<rparr>"

definition streamTransport :: "stream_transport transport" where
  "streamTransport = \<lparr>readMessage = stream_readMessage, writeMessages = stream_writeMessages,
     closeTransport = stream_close\<rparr>"

section \<open>The deadline and the retained buffer\<close>

lemma readMessage_deadline:
  assumes "stream_readMessage t = (x, t')"
  shows "readDeadline t' = readDeadline t \<or>
    0 < readTimeout t \<and> Buffered (streamReader t) = 0 \<and> setReadDeadline t \<noteq> None
    \<and> readDeadline t' = Some (clock t (ticks t) + readTimeout t)"
  using assms
  by (auto simp: stream_readMessage_def codec_read_def time_Now_def split: option.splits if_splits prod.splits)

lemma writeMessages_buffer:
  assumes "stream_writeMessages ms t = (e, t')"
  shows "bufCap t' = bufCap t \<or> bufCap t' \<le> maxRetainedWriteBuffer"
  using assms
  by (auto simp: stream_writeMessages_def net_write_def time_Now_def Let_def
      split: option.splits if_splits prod.splits)

lemma writeMessages_writes:
  assumes "stream_writeMessages ms t = (e, t')"
  shows "writes t' \<le> Suc (writes t) \<and> (writes t' = writes t \<longrightarrow> wire t' = wire t)"
  using assms
  by (auto simp: stream_writeMessages_def net_write_def time_Now_def Let_def
      split: option.splits if_splits prod.splits)

lemma writeMessages_encode_error:
  "append_all (streamCodec t) [] ms = (b, Some e) \<Longrightarrow> stream_writeMessages ms t = (Some e, t)"
  by (simp add: stream_writeMessages_def)

section \<open>The contracts\<close>

definition can_write :: "codec \<Rightarrow> stream_transport \<Rightarrow> bool" where
  "can_write c t \<longleftrightarrow> io_writer (netWrite t) \<and> streamCodec t = c"

definition holds_frames ::
    "codec \<Rightarrow> (bytes \<Rightarrow> bytes) \<Rightarrow> (int \<Rightarrow> bytes \<Rightarrow> bool) \<Rightarrow> bytes list \<Rightarrow> stream_transport \<Rightarrow> bool" where
  "holds_frames c frame fits ms t \<longleftrightarrow>
     streamCodec t = c \<and> reader_ok (streamReader t)
   \<and> stream (streamReader t) = concat (map frame ms)
   \<and> (\<forall>m \<in> set ms. fits (maxMessage t) m) \<and> 0 \<le> maxMessage t
   \<and> (\<forall>f d. setReadDeadline t = Some f \<longrightarrow> f d = None)"

lemma transport_fields [simp]:
  "readMessage streamTransport = stream_readMessage"
  "writeMessages streamTransport = stream_writeMessages"
  "closeTransport streamTransport = stream_close"
  by (simp_all add: streamTransport_def)

lemma readMessage_eq:
  assumes "\<forall>f d. setReadDeadline t = Some f \<longrightarrow> f d = None"
  shows "\<exists>u. stream_readMessage t = codec_read u \<and> streamReader u = streamReader t
    \<and> streamCodec u = streamCodec t \<and> maxMessage u = maxMessage t \<and> setReadDeadline u = setReadDeadline t"
proof (cases "setReadDeadline t")
  case None
  then show ?thesis by (auto simp: stream_readMessage_def)
next
  case (Some f)
  then have f: "f d = None" for d using assms by simp
  show ?thesis
  proof (cases "0 < readTimeout t \<and> Buffered (streamReader t) = 0")
    case True
    let ?u = "(snd (time_Now t))\<lparr>readDeadline := Some (fst (time_Now t) + readTimeout t)\<rparr>"
    have "stream_readMessage t = codec_read ?u"
      using Some f True by (simp add: stream_readMessage_def time_Now_def)
    then show ?thesis by (intro exI [of _ ?u]) (simp add: time_Now_def)
  next
    case False
    then show ?thesis using Some by (intro exI [of _ t]) (auto simp: stream_readMessage_def)
  qed
qed

lemma net_write_result:
  assumes "io_writer (netWrite t)" and "net_write b t = (e, t')"
  shows "\<exists>n. wire t' = wire t @ take n b \<and> (e = None \<longrightarrow> n = length b)
    \<and> netWrite t' = netWrite t \<and> streamCodec t' = streamCodec t"
  using assms by (auto simp: net_write_def io_writer_def Let_def split: prod.splits)

lemma writeMessages_eq:
  assumes "append_all (streamCodec t) [] ms = (b, None)"
  shows "\<exists>u. wire u = wire t \<and> netWrite u = netWrite t \<and> streamCodec u = streamCodec t
    \<and> (stream_writeMessages ms t = net_write b u \<or> (\<exists>e. stream_writeMessages ms t = (Some e, u)))"
proof (cases "0 < writeTimeout t")
  case True
  let ?d = "clock t (ticks t) + writeTimeout t"
  show ?thesis
  proof (cases "setWriteDeadline t ?d")
    case None
    then show ?thesis using True assms
      by (intro exI [of _ "t\<lparr>ticks := Suc (ticks t), writeDeadline := Some ?d\<rparr>"])
        (simp add: stream_writeMessages_def time_Now_def)
  next
    case (Some e)
    then show ?thesis using True assms
      by (intro exI [of _ "t\<lparr>ticks := Suc (ticks t)\<rparr>"]) (simp add: stream_writeMessages_def time_Now_def)
  qed
next
  case False
  then show ?thesis using assms by (intro exI [of _ t]) (simp add: stream_writeMessages_def)
qed

lemma writeMessages_result:
  assumes "io_writer (netWrite t)" and "stream_writeMessages ms t = (e, t')"
    and "append_all (streamCodec t) [] ms = (b, None)"
  shows "\<exists>n. wire t' = wire t @ take n b \<and> (e = None \<longrightarrow> n = length b)
    \<and> netWrite t' = netWrite t \<and> streamCodec t' = streamCodec t"
proof -
  obtain u where u: "wire u = wire t" "netWrite u = netWrite t" "streamCodec u = streamCodec t"
    and w: "net_write b u = (e, t') \<or> (\<exists>x. e = Some x) \<and> t' = u"
    using writeMessages_eq [OF assms(3)] assms(2) by auto
  from w show ?thesis
  proof
    assume "net_write b u = (e, t')"
    from net_write_result [OF _ this] show ?thesis using assms(1) u by simp
  next
    assume "(\<exists>x. e = Some x) \<and> t' = u"
    then show ?thesis using u by (intro exI [of _ 0]) auto
  qed
qed

sublocale framing_codec \<subseteq> stream_writer: writing_transport streamTransport "can_write c" wire "\<lambda>_. frame"
proof (unfold_locales, unfold transport_fields)
  fix t ms t' assume ok: "can_write c t" and w: "stream_writeMessages ms t = (None, t')"
  obtain b where b: "append_all c [] ms = (b, None)"
    using ok w by (auto simp: can_write_def stream_writeMessages_def split: prod.splits option.splits)
  from append_all_ok [OF this] have "b = concat (map frame ms)" by simp
  then show "wire t' = wire t @ concat (map frame ms) \<and> can_write c t' \<and> frame = frame"
    using writeMessages_result [OF _ w, of b] ok b by (auto simp: can_write_def)
next
  fix t ms e t' assume ok: "can_write c t" and w: "stream_writeMessages ms t = (Some e, t')"
  show "\<exists>p q. wire t' = wire t @ p \<and> concat (map frame ms) = p @ q"
  proof (cases "append_all c [] ms")
    case (Pair b x)
    show ?thesis
    proof (cases x)
      case None
      then have "b = concat (map frame ms)" using append_all_ok Pair by force
      moreover obtain n where "wire t' = wire t @ take n b"
        using writeMessages_result [OF _ w, of b] ok Pair None by (auto simp: can_write_def)
      ultimately show ?thesis by (metis append_take_drop_id)
    next
      case (Some e')
      then have "t' = t" using w Pair ok writeMessages_encode_error [of t ms b e'] by (simp add: can_write_def)
      then show ?thesis by simp
    qed
  qed
qed (simp add: stream_close_def)

sublocale framing_codec \<subseteq> stream_source: reading_transport streamTransport
    "holds_frames c frame fits" "\<lambda>t. fault_err (final (streamReader t))"
proof (unfold_locales, unfold transport_fields)
  fix m ms t assume h: "holds_frames c frame fits (m # ms) t"
  then obtain u where u: "stream_readMessage t = codec_read u" "streamReader u = streamReader t"
    "streamCodec u = c" "maxMessage u = maxMessage t" "setReadDeadline u = setReadDeadline t"
    using readMessage_eq [of t] by (auto simp: holds_frames_def)
  obtain r where "Read c (maxMessage t) (streamReader t) = (Inr m, r)" "reader_ok r"
    "stream r = concat (map frame ms)" "same_source (streamReader t) r"
    using read_frame [of "maxMessage t" m "streamReader t" "concat (map frame ms)"] h
    by (auto simp: holds_frames_def)
  then show "\<exists>t'. stream_readMessage t = (Inr m, t') \<and> holds_frames c frame fits ms t'
      \<and> fault_err (final (streamReader t')) = fault_err (final (streamReader t))"
    using h u by (simp add: codec_read_def holds_frames_def same_source_def)
next
  fix t assume h: "holds_frames c frame fits [] t"
  then obtain u where u: "stream_readMessage t = codec_read u" "streamReader u = streamReader t"
    "streamCodec u = c" "maxMessage u = maxMessage t"
    using readMessage_eq [of t] by (auto simp: holds_frames_def)
  obtain r where "Read c (maxMessage t) (streamReader t) = (Inl (fault_err (final (streamReader t))), r)"
    using read_at_end [of "maxMessage t" "streamReader t"] h by (auto simp: holds_frames_def) (metis prod.collapse)
  then show "\<exists>t'. stream_readMessage t = (Inl (fault_err (final (streamReader t))), t')"
    using u by (simp add: codec_read_def)
qed

context framing_codec
begin

text \<open>What the two contracts give a session on a byte stream, for any codec.\<close>

lemma session_yields:
  assumes "holds_frames c frame fits ms t" and "length clocks = Suc (length ms)" and "\<not> closeOnce s"
  shows "\<exists>t' s'. Messages streamTransport (map (\<lambda>now. (now, True)) clocks) (t, s) = (ms, (t', s'), True)
    \<and> closeOnce s' \<and> ctx s' = cancel (readCause (fault_err (final (streamReader t)))) (ctx s)"
  by (rule stream_source.Messages_all [OF assms])

lemma session_sends:
  assumes "can_write c t" and "drain streamTransport (t, s) = (True, t', s')"
  shows "wire t' = wire t @ concat (map frame (out s)) \<and> out s' = []"
  by (rule stream_writer.drain_ok [OF assms])

end

end
