(* ===== verification/Net.thy ===== *)
theory Net
  imports Server StreamTransport
begin

text \<open>
  What the servers use of \<^verbatim>\<open>net\<close>: listeners and sockets that report \<^verbatim>\<open>net.ErrClosed\<close> when they
  are closed again, connections as what the peer and the network will do, and how a Serve
  call ends.
\<close>

text \<open>\<open>closeErr\<close> is what the first Close reports.\<close>

record net_listener =
  lnClosed :: bool
  closeErr :: "err option"

definition already_closed :: err where
  "already_closed = Wrap ''close: '' NetErrClosed ''''"

definition ln_Close :: "net_listener \<Rightarrow> err option \<times> net_listener" where
  "ln_Close l = (if lnClosed l then (Some already_closed, l) else (closeErr l, l\<lparr>lnClosed := True\<rparr>))"

text \<open>\<^verbatim>\<open>closeListener\<close> and \<^verbatim>\<open>closeConn\<close>: closing what may be nil, or closed already, is no error.\<close>

definition close_once :: "net_listener option \<Rightarrow> err option \<times> net_listener option" where
  "close_once ln = (case ln of
     None \<Rightarrow> (None, None)
   | Some l \<Rightarrow> (case ln_Close l of
       (Some e, l') \<Rightarrow> ((if errors_is e NetErrClosed then None else Some e), Some l')
     | (None, l') \<Rightarrow> (None, Some l')))"

record net_conn =
  remoteAddr :: string
  incoming :: "bytes list"
  incomingEnd :: fault
  connReadDeadline :: "int \<Rightarrow> err option"
  connWriteDeadline :: "int \<Rightarrow> err option"
  connClock :: "nat \<Rightarrow> int"
  connWrite :: "nat \<Rightarrow> bytes \<Rightarrow> nat \<times> err option"
  connGrown :: "nat \<Rightarrow> nat \<Rightarrow> nat"

text \<open>\<open>Blocked\<close>: the call still waits for the next event.\<close>

datatype serve_result = Blocked | ServeReturned "err option"

text \<open>The transport both stream servers build; the arguments are the fields that differ.\<close>

definition stream_on ::
    "net_conn \<Rightarrow> codec \<Rightarrow> int \<Rightarrow> int \<Rightarrow> int \<Rightarrow> (int \<Rightarrow> err option) option \<Rightarrow> stream_transport" where
  "stream_on conn c max_len read_to write_to set_read =
     \<lparr>streamReader = newReader (incoming conn) (incomingEnd conn), streamCodec = c,
      maxMessage = max_len, readTimeout = read_to, writeTimeout = write_to,
      setReadDeadline = set_read, setWriteDeadline = connWriteDeadline conn, bufCap = 0,
      clock = connClock conn, netWrite = connWrite conn, grown = connGrown conn, ticks = 0,
      readDeadline = None, writeDeadline = None, wire = [], writes = 0, closeFnCalls = []\<rparr>"

lemma stream_on_holds:
  assumes "[] \<notin> set (incoming conn)" and "concat (incoming conn) = concat (map frame ms)"
    and "\<forall>m \<in> set ms. fits max_len m" and "0 \<le> max_len"
    and "\<forall>f d. set_read = Some f \<longrightarrow> f d = None"
  shows "holds_frames c frame fits ms (stream_on conn c max_len rt wt set_read)"
  using assms by (simp add: holds_frames_def stream_on_def newReader_def reader_ok_new)

lemma stream_on_can_write:
  "io_writer (connWrite conn) \<Longrightarrow> can_write c (stream_on conn c max_len rt wt set_read)"
  by (simp add: can_write_def stream_on_def)

lemma close_once_closed: "snd (close_once ln) = Some l \<Longrightarrow> lnClosed l"
  by (auto simp: close_once_def ln_Close_def split: option.splits prod.splits if_splits)

lemma close_once_idem: "close_once (snd (close_once ln)) = (None, snd (close_once ln))"
  by (auto simp: close_once_def ln_Close_def already_closed_def split: option.splits prod.splits)

end
