(* ===== verification/Tcp.thy ===== *)
theory Tcp
  imports Net
begin

text \<open>
  \<^verbatim>\<open>listener/tcp.go\<close>: the constructor, \<^verbatim>\<open>Listen\<close>, \<^verbatim>\<open>Serve\<close> with its accept loop over what Accept
  returns, \<^verbatim>\<open>accept\<close>, and stopping. Each operation runs here without interruption;
  \<open>ServerMachine\<close> has the interleavings. Sessions are kept in a list, their pointer is the
  position.
\<close>

section \<open>State\<close>

definition acceptRetryDelay :: int where "acceptRetryDelay = 50 * Millisecond"

record tcp_server =
  tcpBase :: server
  tcpAddr :: string
  tcpLn :: "net_listener option"
  tcpSessions :: "(stream_transport \<times> session) list"
  tcpRefused :: "string list"
  tcpSlept :: int

definition NewTCP ::
    "string \<Rightarrow> 16 word \<Rightarrow> err option \<Rightarrow> server_option list \<Rightarrow> err + tcp_server" where
  "NewTCP host port parent opts =
     (let config = apply_options opts defaultConfig in
      case ValidateConfig config of
        Some e \<Rightarrow> Inl (NewConfigError ''invalid configuration'' (Some e))
      | None \<Rightarrow> Inr \<lparr>tcpBase = newServer parent config, tcpAddr = hostPort host port, tcpLn = None,
          tcpSessions = [], tcpRefused = [], tcpSlept = 0\<rparr>)"

section \<open>Listening\<close>

text \<open>\<open>bind\<close> is \<^verbatim>\<open>net.Listen\<close>.\<close>

definition tcp_Listen ::
    "(string \<Rightarrow> err + net_listener) \<Rightarrow> tcp_server \<Rightarrow> err option \<times> tcp_server" where
  "tcp_Listen bind t =
     (case tcpLn t of
        Some l \<Rightarrow> (None, t)
      | None \<Rightarrow> (case bind (tcpAddr t) of
          Inl e \<Rightarrow> (Some (NewConnectionError ''failed to start listener'' (Some e)), t)
        | Inr l \<Rightarrow> (None, t\<lparr>tcpLn := Some l,
            tcpBase := log_at Info ''gophersocks: TCP server listening'' (tcpBase t)\<rparr>)))"

definition tcp_closeListener :: "tcp_server \<Rightarrow> err option \<times> tcp_server" where
  "tcp_closeListener t = (case close_once (tcpLn t) of (e, l) \<Rightarrow> (e, t\<lparr>tcpLn := l\<rparr>))"

text \<open>The \<^verbatim>\<open>AfterFunc\<close> of Serve: the listener is closed once Serve's context has ended.\<close>

definition tcp_unblock :: "err option \<Rightarrow> tcp_server \<Rightarrow> tcp_server" where
  "tcp_unblock c t = (case c of None \<Rightarrow> t | Some e \<Rightarrow> snd (tcp_closeListener t))"

lemma tcp_unblock_fields [simp]:
  "tcpBase (tcp_unblock c t) = tcpBase t" "tcpSessions (tcp_unblock c t) = tcpSessions t"
  "tcpAddr (tcp_unblock c t) = tcpAddr t"
  by (simp_all add: tcp_unblock_def tcp_closeListener_def split: option.splits prod.splits)

section \<open>Accepting\<close>

text \<open>\<open>c\<close> is the cause of Serve's context, if it has ended; \<open>uid\<close> and \<open>now\<close> as in \<open>newSession\<close>.\<close>

definition tcp_refuse :: "net_conn \<Rightarrow> tcp_server \<Rightarrow> tcp_server" where
  "tcp_refuse conn t = t\<lparr>tcpRefused := tcpRefused t @ [remoteAddr conn]\<rparr>"

definition tcp_transport :: "server_config \<Rightarrow> net_conn \<Rightarrow> stream_transport" where
  "tcp_transport config conn =
     stream_on conn Uint32 (uint (MaxLength config)) (ReadTimeout config) (WriteTimeout config)
       (Some (connReadDeadline conn))"

definition tcp_accept ::
    "err option \<Rightarrow> net_conn \<Rightarrow> string \<Rightarrow> int \<Rightarrow> tcp_server \<Rightarrow> tcp_server" where
  "tcp_accept c conn uid now t =
     (case tryAdmit (tcpBase t) of
        (False, v) \<Rightarrow> tcp_refuse conn (t\<lparr>tcpBase := v\<rparr>)
      | (True, v) \<Rightarrow>
          (case enter v of
             (False, v') \<Rightarrow> tcp_refuse conn (t\<lparr>tcpBase := release v'\<rparr>)
           | (True, v') \<Rightarrow>
               let tr = tcp_transport (cfg v') conn;
                   s = newSession c (remoteAddr conn) (cfg v') True uid now
               in t\<lparr>tcpBase := add (remoteAddr conn) (length (tcpSessions t)) v',
                    tcpSessions := tcpSessions t @ [(tr, s)]\<rparr>))"

text \<open>
  Closing session \<open>p\<close> from the server: \<^verbatim>\<open>closeWith\<close>, whose callback is \<^verbatim>\<open>remove\<close>.
\<close>

definition tcp_close_session :: "err \<Rightarrow> session_ptr \<Rightarrow> tcp_server \<Rightarrow> tcp_server" where
  "tcp_close_session e p t =
     (case tcpSessions t ! p of (tr, s) \<Rightarrow>
        if closeOnce s then t
        else t\<lparr>tcpBase := remove (addr s) p (tcpBase t),
               tcpSessions := (tcpSessions t)[p := closeWith streamTransport (Some e) (tr, s)]\<rparr>)"

text \<open>
  The \<^verbatim>\<open>AfterFunc\<close> that \<^verbatim>\<open>newSession\<close> registers: once Serve's context has ended with a cause, every session
  of this Serve call closes with it. \<open>mine\<close> are those sessions; without an end nothing happens.
\<close>

definition tcp_ctx_ends :: "err option \<Rightarrow> session_ptr list \<Rightarrow> tcp_server \<Rightarrow> tcp_server" where
  "tcp_ctx_ends c mine t = (case c of None \<Rightarrow> t | Some e \<Rightarrow> fold (tcp_close_session e) mine t)"

text \<open>What Accept returns, with the state of Serve's context at that moment.\<close>

datatype accept_event =
    Accepted net_conn string int "err option"
  | AcceptFailed err "err option"

text \<open>
  The loop of Serve. Where it returns, the deferred \<^verbatim>\<open>stop\<close> cancels Serve's context: the cause is
  \<^verbatim>\<open>context.Canceled\<close>, or the one it has ended with already.
\<close>

fun tcp_accept_loop ::
    "session_ptr list \<Rightarrow> accept_event list \<Rightarrow> tcp_server \<Rightarrow> serve_result \<times> tcp_server" where
  "tcp_accept_loop mine [] t = (Blocked, t)"
| "tcp_accept_loop mine (Accepted conn uid now c # evs) t =
     (let t1 = tcp_accept c conn uid now t;
          mine1 = mine @ [length (tcpSessions t)..<length (tcpSessions t1)]
      in tcp_accept_loop mine1 evs (tcp_ctx_ends c mine1 t1))"
| "tcp_accept_loop mine (AcceptFailed e c # evs) t =
     (if c \<noteq> None \<or> errors_is e NetErrClosed
      then (ServeReturned None, tcp_ctx_ends (cancel Canceled c) mine (tcp_unblock c t))
      else if is_timeout e then tcp_accept_loop mine evs (t\<lparr>tcpSlept := tcpSlept t + acceptRetryDelay\<rparr>)
      else (ServeReturned (Some (NewConnectionError ''accept failed'' (Some e))),
        tcp_ctx_ends (cancel Canceled c) mine t))"

text \<open>A listener that is closed accepts nothing.\<close>

fun event_ctx :: "accept_event \<Rightarrow> err option" where
  "event_ctx (Accepted conn uid now c) = c"
| "event_ctx (AcceptFailed e c) = c"

definition accepts_on :: "net_listener option \<Rightarrow> accept_event list \<Rightarrow> accept_event list" where
  "accepts_on ln evs =
     (if (case ln of None \<Rightarrow> False | Some l \<Rightarrow> lnClosed l)
      then [AcceptFailed already_closed (case evs of [] \<Rightarrow> None | ev # _ \<Rightarrow> event_ctx ev)] else evs)"

definition tcp_Serve ::
    "(string \<Rightarrow> err + net_listener) \<Rightarrow> accept_event list \<Rightarrow> tcp_server \<Rightarrow> serve_result \<times> tcp_server" where
  "tcp_Serve bind evs t =
     (case tcp_Listen bind t of
        (Some e, t1) \<Rightarrow> (ServeReturned (Some e), t1)
      | (None, t1) \<Rightarrow>
          (case enter (tcpBase t1) of
             (False, v) \<Rightarrow> (ServeReturned (Some ErrServerStopped), t1\<lparr>tcpBase := v\<rparr>)
           | (True, v) \<Rightarrow>
               (case tcp_accept_loop [] (accepts_on (tcpLn t1) evs) (t1\<lparr>tcpBase := v\<rparr>) of
                  (Blocked, t2) \<Rightarrow> (Blocked, t2)
                | (ServeReturned r, t2) \<Rightarrow>
                    (ServeReturned r, t2\<lparr>tcpBase := wg_Done (tcpBase t2)\<rparr>))))"

text \<open>\<^verbatim>\<open>StartListener\<close>: the error, and whether the serving goroutine was started.\<close>

definition tcp_StartListener ::
    "(string \<Rightarrow> err + net_listener) \<Rightarrow> tcp_server \<Rightarrow> err option \<times> bool \<times> tcp_server" where
  "tcp_StartListener bind t = (case tcp_Listen bind t of
     (Some e, t') \<Rightarrow> (Some e, False, t') | (None, t') \<Rightarrow> (None, True, t'))"

section \<open>Stopping\<close>

text \<open>\<open>order\<close> is the order in which the range over the cloned map visits the sessions.\<close>

definition tcp_StopListener :: "session_ptr list \<Rightarrow> tcp_server \<Rightarrow> err option \<times> tcp_server" where
  "tcp_StopListener order t =
     (let t0 = t\<lparr>tcpBase := log_at Info ''gophersocks: shutting down TCP server'' (tcpBase t)\<rparr> in
      case stop_begin (tcpBase t0) of (m, v) \<Rightarrow>
        (case tcp_closeListener (t0\<lparr>tcpBase := stop_cancel v\<rparr>) of (e, t1) \<Rightarrow>
           (e, fold (tcp_close_session ErrServerStopped) order t1)))"

section \<open>Facts\<close>

lemma tcp_close_session_fields [simp]:
  "tcpLn (tcp_close_session e p t) = tcpLn t" "tcpAddr (tcp_close_session e p t) = tcpAddr t"
  "tcpRefused (tcp_close_session e p t) = tcpRefused t" "tcpSlept (tcp_close_session e p t) = tcpSlept t"
  "length (tcpSessions (tcp_close_session e p t)) = length (tcpSessions t)"
  "stopped (tcpBase (tcp_close_session e p t)) = stopped (tcpBase t)"
  "wg (tcpBase (tcp_close_session e p t)) = wg (tcpBase t)"
  "cfg (tcpBase (tcp_close_session e p t)) = cfg (tcpBase t)"
  by (simp_all add: tcp_close_session_def remove_def split: prod.split)

lemma tcp_ctx_ends_fields [simp]:
  "tcpLn (tcp_ctx_ends c mine t) = tcpLn t" "tcpAddr (tcp_ctx_ends c mine t) = tcpAddr t"
  "tcpRefused (tcp_ctx_ends c mine t) = tcpRefused t" "tcpSlept (tcp_ctx_ends c mine t) = tcpSlept t"
  "length (tcpSessions (tcp_ctx_ends c mine t)) = length (tcpSessions t)"
  "stopped (tcpBase (tcp_ctx_ends c mine t)) = stopped (tcpBase t)"
  "wg (tcpBase (tcp_ctx_ends c mine t)) = wg (tcpBase t)"
  "cfg (tcpBase (tcp_ctx_ends c mine t)) = cfg (tcpBase t)"
proof -
  let ?P = "\<lambda>u. tcpLn u = tcpLn t \<and> tcpAddr u = tcpAddr t \<and> tcpRefused u = tcpRefused t
    \<and> tcpSlept u = tcpSlept t \<and> length (tcpSessions u) = length (tcpSessions t)
    \<and> stopped (tcpBase u) = stopped (tcpBase t) \<and> wg (tcpBase u) = wg (tcpBase t)
    \<and> cfg (tcpBase u) = cfg (tcpBase t)"
  have step: "?P (tcp_close_session e p u)" if "?P u" for e p u using that by simp
  have "?P (fold (tcp_close_session e) mine t)" for e
    by (rule fold_invariant [where P = ?P and Q = "\<lambda>_. True"]) (use step in auto)
  then have "?P (tcp_ctx_ends c mine t)" by (cases c) (simp_all add: tcp_ctx_ends_def)
  then show "tcpLn (tcp_ctx_ends c mine t) = tcpLn t" "tcpAddr (tcp_ctx_ends c mine t) = tcpAddr t"
    "tcpRefused (tcp_ctx_ends c mine t) = tcpRefused t" "tcpSlept (tcp_ctx_ends c mine t) = tcpSlept t"
    "length (tcpSessions (tcp_ctx_ends c mine t)) = length (tcpSessions t)"
    "stopped (tcpBase (tcp_ctx_ends c mine t)) = stopped (tcpBase t)"
    "wg (tcpBase (tcp_ctx_ends c mine t)) = wg (tcpBase t)"
    "cfg (tcpBase (tcp_ctx_ends c mine t)) = cfg (tcpBase t)" by simp_all
qed

lemma tcp_ctx_lives [simp]: "tcp_ctx_ends None mine t = t" "tcp_ctx_ends c [] t = t"
  by (simp_all add: tcp_ctx_ends_def split: option.split)

lemma tcp_Listen_bound: "tcp_Listen bind t = (None, t') \<Longrightarrow> tcp_Listen bind' t' = (None, t')"
  by (auto simp: tcp_Listen_def split: option.splits sum.splits)

lemma tcp_accept_session:
  assumes "fst (tryAdmit (tcpBase t))" and "\<not> stopped (tcpBase t)"
  shows "tcpSessions (tcp_accept c conn uid now t) = tcpSessions t @
      [(tcp_transport (cfg (tcpBase t)) conn, newSession c (remoteAddr conn) (cfg (tcpBase t)) True uid now)]
    \<and> GetSession (remoteAddr conn) (tcpBase (tcp_accept c conn uid now t)) = Some (length (tcpSessions t))
    \<and> active (tcpBase (tcp_accept c conn uid now t)) = active (tcpBase t) + 1"
  using assms
  by (auto simp: tcp_accept_def tryAdmit_eq enter_def add_def GetSession_def Let_def split: if_splits)

lemma tcp_accept_refused:
  assumes "\<not> fst (tryAdmit (tcpBase t)) \<or> stopped (tcpBase t)"
  shows "tcpSessions (tcp_accept c conn uid now t) = tcpSessions t
    \<and> tcpRefused (tcp_accept c conn uid now t) = tcpRefused t @ [remoteAddr conn]
    \<and> active (tcpBase (tcp_accept c conn uid now t)) = active (tcpBase t)"
  using assms
  by (auto simp: tcp_accept_def tcp_refuse_def tryAdmit_eq enter_def split: if_splits)

lemma uint32_fits_config:
  "int (length m) \<le> uint (n :: 32 word) \<Longrightarrow> uint32_fits (uint n) m"
proof -
  have b: "0 \<le> uint n" "uint n < 2 ^ 32" using uint_lt2p [of n] by simp_all
  assume "int (length m) \<le> uint n"
  then show "uint32_fits (uint n) m" using b by (simp add: uint32_fits_def go_int_def MaxUint32_def)
qed

lemma tcp_transport_holds:
  assumes "[] \<notin> set (incoming conn)" and "concat (incoming conn) = concat (map uint32_frame ms)"
    and "\<forall>m \<in> set ms. int (length m) \<le> uint (MaxLength c)" and "\<forall>d. connReadDeadline conn d = None"
  shows "holds_frames Uint32 uint32_frame uint32_fits ms (tcp_transport c conn)"
  unfolding tcp_transport_def using assms by (intro stream_on_holds) (auto intro: uint32_fits_config)

end
