(* ===== verification/Batching.thy ===== *)
theory Batching
  imports Tcp
begin

text \<open>
  How many transport writes the writer goroutine makes for a queue: \<^verbatim>\<open>fillBatch\<close> takes up to 128
  messages, and a TCP session's batch is one write of its bytes.
\<close>

definition rounds :: "nat \<Rightarrow> nat" where
  "rounds n = (n + (maxBatch - 1)) div maxBatch"

lemma rounds_0 [simp]: "rounds 0 = 0"
  by (simp add: rounds_def maxBatch_def)

lemma rounds_step:
  assumes "0 < n"
  shows "rounds n = Suc (rounds (n - maxBatch))"
proof (cases "n < 128")
  case True
  then have "(n + 127) div 128 = 1" using assms by (intro div_nat_eqI) auto
  then have "rounds n = 1" by (simp add: rounds_def maxBatch_def)
  moreover have "n - maxBatch = 0" using True by (simp add: maxBatch_def)
  ultimately show ?thesis by simp
next
  case False
  then obtain m where n: "n = 128 + m" using le_Suc_ex not_less by blast
  have "(m + 127 + 128) div 128 = Suc ((m + 127) div 128)" by (subst div_add_self2) simp_all
  then have "rounds (128 + m) = Suc (rounds m)" by (simp add: rounds_def maxBatch_def add.commute)
  moreover have "n - maxBatch = m" using n by (simp add: maxBatch_def)
  ultimately show ?thesis using n by simp
qed

lemma round_queue:
  assumes "writeRound tr (t, s) = (b, t', s')" and "out s \<noteq> []"
  shows "out s' = drop maxBatch (out s)
    \<and> (\<exists>e t1. writeMessages tr (take maxBatch (out s)) t = (e, t1) \<and> b = (e = None)
      \<and> (t' = t1 \<or> (\<exists>c. t' = closeTransport tr c t1)))"
proof -
  obtain m q where q: "out s = m # q" using assms(2) by (cases "out s") auto
  have fb: "fillBatch [m] q = (take maxBatch (out s), drop maxBatch (out s))"
    by (simp add: fillBatch_eq q maxBatch_def take_Cons' drop_Cons')
  show ?thesis using assms(1)
    by (auto simp: writeRound_def q fb [unfolded q] closeWith_def runOnClose_def Let_def
        split: prod.splits option.splits if_splits)
qed

lemma drain_writes:
  "drain streamTransport (t, s) = (b, t', s') \<Longrightarrow> writes t' \<le> writes t + rounds (length (out s))"
proof (induction "length (out s)" arbitrary: t s rule: less_induct)
  case less
  show ?case
  proof (cases "out s = []")
    case True
    then show ?thesis using less(2) by (subst (asm) drain.simps) simp
  next
    case False
    obtain r t1 s1 where w: "writeRound streamTransport (t, s) = (r, t1, s1)"
      by (cases "writeRound streamTransport (t, s)") auto
    have q: "out s1 = drop maxBatch (out s)" and one: "writes t1 \<le> Suc (writes t)"
      using round_queue [OF w False] writeMessages_writes by (auto simp: stream_close_def)
    have n: "rounds (length (out s)) = Suc (rounds (length (out s1)))"
      using rounds_step [of "length (out s)"] False q by simp
    show ?thesis
    proof (cases r)
      case False
      then have "t' = t1" using less(2) w \<open>out s \<noteq> []\<close> by (subst (asm) drain.simps) simp
      then show ?thesis using one n by simp
    next
      case True
      then have d: "drain streamTransport (t1, s1) = (b, t', s')"
        using less(2) w False by (subst (asm) drain.simps) simp
      have "length (out s1) < length (out s)"
        using q False by (simp add: maxBatch_def)
      from less(1) [OF this d] show ?thesis using one n by simp
    qed
  qed
qed

text \<open>
  C29. Small messages share a write: whatever happens, the writer of a TCP session calls the connection
  at most once per 128 queued messages, rounded up.
\<close>

theorem tcp_batches_writes:
  assumes "drain streamTransport (tcp_transport config conn, s) = (b, t', s')"
  shows "writes t' \<le> (length (out s) + 127) div 128"
  using drain_writes [OF assms] by (simp add: tcp_transport_def stream_on_def rounds_def maxBatch_def)

definition loop_conn :: net_conn where
  "loop_conn = \<lparr>remoteAddr = ''c'', incoming = [], incomingEnd = FaultEOF, connReadDeadline = (\<lambda>_. None),
     connWriteDeadline = (\<lambda>_. None), connClock = int, connWrite = (\<lambda>_ b. (length b, None)),
     connGrown = (\<lambda>c n. max c n)\<rparr>"

theorem tcp_batches_writes_witness:
  "\<exists>b t' s'. drain streamTransport (tcp_transport defaultConfig loop_conn,
      (newSession None ''c'' defaultConfig True ''u'' 0)\<lparr>out := replicate 256 [1]\<rparr>) = (b, t', s') \<and> writes t' \<le> 2"
proof -
  let ?s = "(newSession None ''c'' defaultConfig True ''u'' 0)\<lparr>out := replicate 256 [1]\<rparr>"
  obtain b t' s' where d: "drain streamTransport (tcp_transport defaultConfig loop_conn, ?s) = (b, t', s')"
    by (metis prod_cases3)
  have "length (out ?s) = 256" by simp
  then show ?thesis using tcp_batches_writes [OF d] d by auto
qed

end
