(* ===== verification/FramingProps.thy ===== *)
theory FramingProps
  imports CodecContract
begin

text \<open>
  What the three codecs guarantee, over the contracts of \<open>CodecContract\<close>: round trips of message
  sequences, truncated streams, independence of packet boundaries, limits; and where the
  Legacy limit does not hold.
\<close>

text \<open>\<open>is_codec c frame fits\<close>: one of the three codecs with its frames and the messages it can carry.\<close>

definition is_codec :: "codec \<Rightarrow> (bytes \<Rightarrow> bytes) \<Rightarrow> (int \<Rightarrow> bytes \<Rightarrow> bool) \<Rightarrow> bool" where
  "is_codec c frame fits \<longleftrightarrow>
     c = Uvarint \<and> frame = uvarint_frame \<and> fits = uvarint_fits
   \<or> c = Uint32 \<and> frame = uint32_frame \<and> fits = uint32_fits
   \<or> (\<exists>delim. c = legacy_codec delim \<and> frame = legacy_frame delim \<and> fits = legacy_fits delim)"

lemma is_codec_contract: "is_codec c frame fits \<Longrightarrow> stream_codec c frame fits"
  unfolding is_codec_def
  using uvarint_c.stream_codec_axioms uint32_c.stream_codec_axioms legacy_c.stream_codec_axioms by auto

lemma is_codec_framing: "is_codec c frame fits \<Longrightarrow> framing_codec c frame fits"
  unfolding is_codec_def
  using uvarint_c.framing_codec_axioms uint32_c.framing_codec_axioms legacy_c.framing_codec_axioms by auto

lemma is_codec_Uvarint: "is_codec Uvarint uvarint_frame uvarint_fits"
  by (simp add: is_codec_def)

lemma fits_AB: "\<forall>m \<in> set [[65], [66 :: byte]]. uvarint_fits 10 m"
  by (simp add: uvarint_fits_def go_int_def)

lemma frames_AB: "uvarint_frame [65] = [1, 65]" "uvarint_frame [66] = [1, 66]"
  by (simp_all add: uvarint_frame_def uvarint_bytes_simps word_le_nat_alt)

section \<open>Round trips\<close>

text \<open>
  C1. For each codec: what Append encodes one after the other, Read decodes in the same order,
  whatever the reader's buffer size and however the connection cuts the bytes into pieces;
  and it consumes exactly the encoded bytes.
\<close>

theorem codec_roundtrip:
  assumes "is_codec c frame fits" and "\<forall>m \<in> set ms. fits max_len m"
    and "append_all c [] ms = (encoded, e)" and "concat cs = encoded" and "[] \<notin> set cs"
  shows "e = None \<and> (\<exists>r'. read_many c max_len (length ms) (new_reader_size n cs f) = (ms, None, r')
    \<and> stream r' = [])"
  using framing_codec.sequence_roundtrip [OF is_codec_framing [OF assms(1)] assms(2,3,4,5)] by blast

theorem codec_roundtrip_witness:
  "\<exists>r'. read_many Uvarint 10 (length [[65], [66]]) (new_reader_size 16 [[1], [65, 1], [66]] FaultEOF)
    = ([[65], [66]], None, r') \<and> stream r' = []"
proof -
  have "append_all Uvarint [] [[65], [66]] = ([1, 65, 1, 66], None)"
    using uvarint_c.append_all_frames [OF fits_AB, of "[]"] by (simp add: frames_AB)
  from codec_roundtrip [OF is_codec_Uvarint fits_AB this, of "[[1], [65, 1], [66]]"] show ?thesis by simp
qed

text \<open>
  C8. For each codec: a stream that ends inside a frame yields the messages before it and then
  io.ErrUnexpectedEOF, never a message and never a clean EOF.
\<close>

theorem codec_truncated:
  assumes "is_codec c frame fits" and "\<forall>m \<in> set (ms @ [p]). fits max_len m"
    and "concat cs = concat (map frame ms) @ s" and "s @ t = frame p" and "s \<noteq> []" and "t \<noteq> []"
    and "[] \<notin> set cs"
  shows "\<exists>r'. read_many c max_len (Suc (length ms)) (new_reader_size n cs FaultEOF)
    = (ms, Some ErrUnexpectedEOF, r')"
  using framing_codec.cut_stream [OF is_codec_framing [OF assms(1)], of ms max_len p
      "new_reader_size n cs FaultEOF" s t] assms(2-7)
  by (simp del: read_many.simps add: reader_ok_new)

theorem codec_truncated_witness:
  "\<exists>r'. read_many Uvarint 10 (Suc (length [[65 :: byte]])) (new_reader_size 16 [[1, 65], [1]] FaultEOF)
    = ([[65]], Some ErrUnexpectedEOF, r')"
  by (rule codec_truncated [OF is_codec_Uvarint, of _ "[66]" _ _ "[1]" "[66]"])
    (simp_all add: frames_AB uvarint_fits_def go_int_def)

text \<open>
  C11. For each codec: what is read from a connection, messages and errors, does not depend on
  how its bytes are split into packets, not even for bytes that are no valid frames.
\<close>

theorem codec_packet_independent:
  assumes "is_codec c frame fits" and "concat cs = concat cs'" and "[] \<notin> set cs" and "[] \<notin> set cs'"
  shows "fst (read_many c max_len k (new_reader_size n cs f)) = fst (read_many c max_len k (new_reader_size n cs' f))
    \<and> fst (snd (read_many c max_len k (new_reader_size n cs f))) = fst (snd (read_many c max_len k (new_reader_size n cs' f)))"
proof -
  have "reader_equiv (new_reader_size n cs f) (new_reader_size n cs' f)"
    using assms(2-4) by (simp add: reader_equiv_def reader_ok_new)
  from stream_codec.read_many_equiv [OF is_codec_contract [OF assms(1)] this, of max_len k]
  show ?thesis by auto
qed

theorem codec_packet_independent_witness:
  "fst (read_many Uint32 9 2 (new_reader_size 16 [[0, 0, 0], [1, 65, 7]] FaultEOF))
    = fst (read_many Uint32 9 2 (new_reader_size 16 [[0], [0, 0, 1], [65, 7]] FaultEOF))"
proof -
  have "is_codec Uint32 uint32_frame uint32_fits" by (simp add: is_codec_def)
  from codec_packet_independent [OF this, of "[[0, 0, 0], [1, 65, 7]]" "[[0], [0, 0, 1], [65, 7]]"]
  show ?thesis by simp
qed

section \<open>Legacy\<close>

text \<open>
  frameEnd recognises a buffer exactly when the whole of it is one frame, payload, length
  and delimiter, of at most 65535 payload bytes, and then returns the payload's length.
\<close>

theorem frame_end_exact:
  "frame_end delim buf = Some n \<longleftrightarrow>
    (\<exists>p. fst (legacy_append delim [] p) = buf \<and> snd (legacy_append delim [] p) = None \<and> length p = n)"
proof -
  have "fst (legacy_append delim [] p) = buf \<and> snd (legacy_append delim [] p) = None \<and> length p = n
      \<longleftrightarrow> buf = legacy_frame delim p \<and> length p = n \<and> n \<le> MaxUint16" for p
    by (auto simp: legacy_append_def legacy_frame_def)
  then show ?thesis by (simp add: frame_end_iff)
qed

text \<open>
  C25. Whatever bytes arrive, a message the Legacy reader returns is not empty, and the bytes
  consumed are exactly its frame after some number of empty frames: nothing is skipped.
\<close>

theorem legacy_read_exact:
  assumes "Read (legacy_codec delim) max_len r = (Inr p, r')"
  shows "p \<noteq> [] \<and> length p \<le> MaxUint16
    \<and> (\<exists>k. stream r = concat (replicate k (legacy_frame delim [])) @ legacy_frame delim p @ stream r')"
  using assms legacy_read_sound by simp



lemma legacy_read_A:
  "\<exists>r'. Read (legacy_codec DefaultDelimiter) 10 (new_reader_size 16 [[65, 0, 1, 10, 10, 10]] FaultEOF) = (Inr [65], r')"
proof -
  have "legacy_fits DefaultDelimiter 10 [65]"
    using unambiguous_A by (simp add: legacy_fits_def DefaultDelimiter_def MaxUint16_def)
  from legacy_c.read_frame [OF this, of "new_reader_size 16 [[65, 0, 1, 10, 10, 10]] FaultEOF" "[]"]
  show ?thesis
    by (auto simp: reader_ok_new legacy_frame_def put_uint16_def DefaultDelimiter_def)
qed

theorem legacy_read_exact_witness:
  "\<exists>r' k. Read (legacy_codec DefaultDelimiter) 10 (new_reader_size 16 [[65, 0, 1, 10, 10, 10]] FaultEOF) = (Inr [65], r')
    \<and> [65, 0, 1, 10, 10, 10] = concat (replicate k (legacy_frame DefaultDelimiter [])) @
        legacy_frame DefaultDelimiter [65] @ stream r'"
proof -
  obtain r' where r: "Read (legacy_codec DefaultDelimiter) 10 (new_reader_size 16 [[65, 0, 1, 10, 10, 10]] FaultEOF) = (Inr [65], r')"
    using legacy_read_A by blast
  from legacy_read_exact [OF r] r show ?thesis by auto
qed

text \<open>
  A client that never sends a valid frame cannot make the Legacy reader hold more than the
  largest frame and one read buffer: that many bytes at most are consumed for one message.
\<close>

theorem legacy_memory_bound:
  assumes "read_one delim limit r [] = (res, r')" and "reader_ok r" and "0 \<le> limit"
  shows "int (length (stream r)) - int (length (stream r'))
    \<le> limit + 2 + int (length delim) + int (max (rsize r) 16)"
  using read_one_consumption [OF assms(1,2)] assms(3) by (simp add: bsize_def)

theorem legacy_memory_bound_witness:
  "\<exists>res r'. read_one [10] 3 (new_reader_size 16 [replicate 100 0] FaultEOF) [] = (res, r')
    \<and> 100 - int (length (stream r')) \<le> 22"
proof -
  let ?r = "new_reader_size 16 [replicate 100 0] FaultEOF"
  obtain res r' where r: "read_one [10] 3 ?r [] = (res, r')" by (metis surj_pair)
  have "reader_ok ?r" by (rule reader_ok_new) simp
  from legacy_memory_bound [OF r this] r show ?thesis by (simp add: new_reader_size_def stream_def)
qed

lemma legacy_default_bound:
  "legacy_read DefaultDelimiter max_len r = (Inr p, r') \<Longrightarrow> reader_ok r \<Longrightarrow>
    int (length p) \<le> max_len + 1 \<or> length p = 0"
proof (induction DefaultDelimiter max_len r rule: legacy_read.induct)
  case (1 max_len r)
  note unfolded = 1(2) [unfolded legacy_read.simps [of DefaultDelimiter max_len r]]
  obtain x r1 where one: "read_one DefaultDelimiter (min max_len (int MaxUint16)) r [] = (x, r1)"
    by (metis surj_pair)
  with unfolded obtain q where x: "x = Inr q" by (cases x) auto
  show ?case
  proof (cases "q = []")
    case True
    then have "legacy_read DefaultDelimiter max_len r1 = (Inr p, r')" using unfolded one x by simp
    moreover have "reader_ok r1"
      using read_one_equiv [of r r DefaultDelimiter "min max_len (int MaxUint16)" "[]"] one 1(3)
      by (auto simp: reader_equiv_def)
    ultimately show ?thesis using 1(1) [OF one [symmetric] x] True by simp
  next
    case False
    then have "p = q" using unfolded one x by simp
    then show ?thesis using read_one_default_bound [OF one [unfolded x] 1(3)]
      by (simp add: min_def split: if_splits)
  qed
qed

text \<open>
  C37. With the default delimiter the Legacy reader accepts a message one byte longer than the
  limit it was given, against its doc, and never one that is longer still.
\<close>

theorem legacy_limit_off_by_one:
  assumes "reader_ok r"
  shows "(Read Legacy max_len r = (Inr p, r') \<longrightarrow> int (length p) \<le> max_len + 1)
    \<and> (stream r = legacy_frame DefaultDelimiter q @ t \<and> int (length q) = max_len + 1 \<and> q \<noteq> []
        \<and> length q \<le> MaxUint16 \<and> unambiguous DefaultDelimiter q \<longrightarrow>
        fst (Read Legacy max_len r) = Inr q)"
proof (intro conjI impI)
  assume rd: "Read Legacy max_len r = (Inr p, r')"
  then have "legacy_read DefaultDelimiter max_len r = (Inr p, r')" by (simp add: Legacy_def)
  with legacy_default_bound [OF this assms] legacy_read_sound [OF this]
  show "int (length p) \<le> max_len + 1" by auto
next
  assume a: "stream r = legacy_frame DefaultDelimiter q @ t \<and> int (length q) = max_len + 1 \<and> q \<noteq> []
    \<and> length q \<le> MaxUint16 \<and> unambiguous DefaultDelimiter q"
  then have "legacy_fits DefaultDelimiter max_len q" by (simp add: legacy_fits_def DefaultDelimiter_def)
  from legacy_c.read_frame [OF this assms] a show "fst (Read Legacy max_len r) = Inr q"
    by (auto simp: Legacy_def)
qed

theorem legacy_limit_off_by_one_witness:
  "fst (Read Legacy 0 (new_reader_size 16 [[65, 0, 1, 10, 10, 10]] FaultEOF)) = Inr [65]"
proof -
  let ?r = "new_reader_size 16 [[65, 0, 1, 10, 10, 10]] FaultEOF"
  have ok: "reader_ok ?r" by (simp add: reader_ok_new)
  have amb: "unambiguous DefaultDelimiter [65]"
    by (simp add: unambiguous_def legacy_frame_def put_uint16_def DefaultDelimiter_def frame_end_def
        Let_def upt_rec)
  have "stream ?r = legacy_frame DefaultDelimiter [65] @ []"
    by (simp add: legacy_frame_def put_uint16_def DefaultDelimiter_def)
  with legacy_limit_off_by_one [OF ok, of 0 _ _ "[65]" "[]"] amb show ?thesis
    by (simp add: MaxUint16_def)
qed

text \<open>
  C38. With a delimiter of one byte the limit does not hold for every message: one that does not
  contain the delimiter, neither in its bytes nor in its length field, and whose frame fits the
  read buffer (32 KiB on the servers), is accepted whatever the limit.
\<close>

theorem one_byte_delimiter_unlimited:
  assumes "reader_ok r" and "stream r = legacy_frame [d] p @ t" and "p \<noteq> []" and "length p \<le> MaxUint16"
    and "d \<notin> set p" and "d \<notin> set (put_uint16 (of_nat (length p)))"
    and "length (legacy_frame [d] p) \<le> max (rsize r) 16"
  shows "fst (Read (legacy_codec [d]) max_len r) = Inr p"
proof -
  let ?b = "p @ put_uint16 (of_nat (length p))"
  have fr: "legacy_frame [d] p = ?b @ [d]" and nb: "d \<notin> set ?b"
    using assms(5,6) by (simp_all add: legacy_frame_def)
  obtain line e r1 where rs: "read_slice d r = (line, e, r1)" by (metis prod_cases3)
  have "takeWhile (\<lambda>x. x \<noteq> d) (?b @ [d] @ t) = ?b"
    using nb by (subst takeWhile_append2) auto
  then have tw: "take (Suc (length (takeWhile (\<lambda>x. x \<noteq> d) (stream r)))) (stream r) = ?b @ [d]"
    using assms(2) fr by simp
  have "d \<in> set (take (bsize r) (stream r))"
    using assms(2,7) fr by (auto simp: bsize_def take_Cons' max_def split: if_splits)
  then have "(line, e) = (?b @ [d], None)"
    using read_slice_ok [OF assms(1) rs] tw by (simp add: slice_spec_def)
  then have line: "line = legacy_frame [d] p" "e = None" using fr by simp_all
  have "frame_end [d] line = Some (length p)" using frame_end_frame [OF assms(4)] line by simp
  then have "read_one [d] l r [] = (Inr p, r1)" for l
    using rs line by (subst read_one.simps) (simp add: Let_def legacy_frame_def)
  then have "legacy_read [d] max_len r = (Inr p, r1)"
    using assms(3) by (subst legacy_read.simps) simp
  then show ?thesis by simp
qed

theorem one_byte_delimiter_unlimited_witness:
  "fst (Read (legacy_codec [124]) 0 (new_reader_size 16 [[104, 105], [33, 0, 3, 124]] FaultEOF)) = Inr [104, 105, 33]"
  by (rule one_byte_delimiter_unlimited [of _ _ _ "[]"])
    (simp_all add: reader_ok_def legacy_frame_def put_uint16_def MaxUint16_def new_reader_size_def stream_def)

section \<open>Uvarint and Uint32\<close>

text \<open>
  C26. The length-prefixed codecs enforce a limit that is not negative exactly: whatever the
  peer sends, no returned message is longer; and Uvarint spends at most ten bytes on a length.
\<close>

theorem prefix_codecs_enforce_limit:
  assumes "reader_ok r" and "go_int max_len" and "0 \<le> max_len"
  shows "(Read Uint32 max_len r = (Inr p, r') \<longrightarrow>
        int (length p) \<le> max_len \<and> stream r = uint32_frame p @ stream r')
    \<and> (Read Uvarint max_len r = (Inr p, r') \<longrightarrow>
        int (length p) \<le> max_len \<and> (\<exists>h. stream r = h @ p @ stream r' \<and> length h \<le> 10))"
  using uint32_read_sound [OF assms] uvarint_read_sound [OF assms] by simp

lemma put_uint32_1: "put_uint32 1 = [0, 0, 0, 1]"
  by (simp add: put_uint32_def)

theorem prefix_codecs_enforce_limit_witness:
  "\<exists>p r'. Read Uint32 2 (new_reader_size 16 [[0, 0], [0, 1, 7, 9]] FaultEOF) = (Inr p, r')
    \<and> int (length p) \<le> 2 \<and> [0, 0, 0, 1, 7, 9] = uint32_frame p @ stream r'"
proof -
  let ?r = "new_reader_size 16 [[0, 0], [0, 1, 7, 9]] FaultEOF"
  have ok: "reader_ok ?r" by (simp add: reader_ok_new)
  obtain r' where r': "Read Uint32 2 ?r = (Inr [7], r')"
    using uint32_c.read_frame [of 2 "[7]" ?r "[9]", OF _ ok]
    by (auto simp: uint32_fits_def go_int_def MaxUint32_def uint32_frame_def put_uint32_1)
  from prefix_codecs_enforce_limit [OF ok, of 2 "[7]" r'] r' show ?thesis by (auto simp: go_int_def)
qed

text \<open>
  A frame whose announced length is over the limit is refused with ErrFrameTooLarge before
  a byte of its payload is read or a buffer for it made.
\<close>

theorem oversized_frame_refused:
  assumes "go_int max_len" and "0 \<le> max_len" and "max_len < uint n"
  shows "\<exists>e. read_payload n max_len r = (Inl e, r) \<and> errors_is e ErrFrameTooLarge"
proof -
  have "word_of_int max_len < n" using assms uint_of_limit [OF assms(1,2)] by (simp add: word_less_def)
  then show ?thesis by (simp add: read_payload_def frame_too_large_def)
qed

theorem oversized_frame_refused_witness:
  "\<exists>e. read_payload 11 10 (new_reader_size 16 [] FaultEOF) = (Inl e, new_reader_size 16 [] FaultEOF)
    \<and> errors_is e ErrFrameTooLarge"
  by (rule oversized_frame_refused) (simp_all add: go_int_def)

text \<open>
  A negative limit, which WithClientMaxLength accepts, switches the limit off: converted to
  uint64 it is at least 2^63, and every length a Go slice can have passes the comparison.
\<close>

theorem negative_limit_is_no_limit:
  assumes "go_int max_len" and "max_len < 0" and "reader_ok r" and "int (length p) < 2 ^ 63"
    and "stream r = uint32_frame p @ t" and "length p \<le> MaxUint32"
  shows "fst (Read Uint32 max_len r) = Inr p"
proof -
  let ?n = "ucast (of_nat (length p) :: 32 word) :: 64 word"
  have n32: "unat (of_nat (length p) :: 32 word) = length p"
    using assms(6) by (simp add: unat_of_nat MaxUint32_def)
  then have n: "unat ?n = length p" by (simp add: unat_up)
  have "uint (word_of_int max_len :: 64 word) = max_len + 2 ^ 64"
  proof -
    have "(max_len + 2 ^ 64) mod 2 ^ 64 = max_len + 2 ^ 64"
      using assms(1,2) by (intro mod_pos_pos_trivial) (auto simp: go_int_def)
    then show ?thesis by (simp add: uint_word_of_int)
  qed
  moreover have "uint ?n = int (length p)" using n by (metis uint_nat)
  ultimately have lim: "\<not> word_of_int max_len < ?n"
    using assms(1,4) by (simp add: word_less_def go_int_def)
  have sgn: "\<not> sint ?n < 0"
  proof -
    have "\<not> bit ?n 63" by (auto simp: bit_ucast_iff dest: bit_imp_le_length)
    then show ?thesis by (rule not_sint_neg)
  qed
  obtain h r1 where rf: "read_full 4 r = (h, r1)" by (metis surj_pair)
  have h: "h = Inr (put_uint32 (of_nat (length p)))" "stream r1 = p @ t" "reader_ok r1"
    using read_full_ok [OF assms(3) rf] assms(5) by (simp_all add: uint32_frame_def)
  obtain x r2 where rp: "read_full (length p) r1 = (x, r2)" by (metis surj_pair)
  have "x = Inr p" using read_full_ok [OF h(3) rp] h(2) by simp
  then show ?thesis
    using rf h(1) rp lim sgn n by (simp add: uint32_read_def read_payload_def)
qed

theorem negative_limit_is_no_limit_witness:
  "fst (Read Uint32 (-1) (new_reader_size 16 [[0, 0, 0, 2, 7, 8]] FaultEOF)) = Inr [7, 8]"
  by (rule negative_limit_is_no_limit [of _ _ _ "[]"])
    (simp_all add: go_int_def reader_ok_new uint32_frame_def put_uint32_def MaxUint32_def)

end
