(* ===== verification/IdleTimeout.thy ===== *)
theory IdleTimeout
  imports FramingProps Tcp
begin

text \<open>
  The read deadline of \<^verbatim>\<open>listener/stream.go\<close> in time: a connection on which bytes arrive at given
  moments, and Reads that fail once the deadline in force has passed. What \<^verbatim>\<open>readMessage\<close> makes of
  it: a frame that arrives within the timeout is received when nothing is buffered, but the
  deadline stays where it was when the first bytes of a frame are.
\<close>

section \<open>A connection with deadlines\<close>

text \<open>
  \<open>arrivals\<close> are the packets with the moment each arrives, in order; at \<open>endAt\<close> the peer is gone
  and Reads report \<open>endFault\<close>.
\<close>

record timed_conn =
  arrivals :: "(int \<times> bytes) list"
  endAt :: int
  endFault :: fault

definition deadline_exceeded :: fault where
  "deadline_exceeded = FaultOther ''i/o timeout'' True"

text \<open>The deadline in force while \<^verbatim>\<open>readMessage\<close>, called at \<open>now\<close>, reads.\<close>

definition deadline_in_force :: "int \<Rightarrow> stream_transport \<Rightarrow> int option" where
  "deadline_in_force now t =
     (if setReadDeadline t \<noteq> None \<and> 0 < readTimeout t \<and> Buffered (streamReader t) = 0
      then Some (now + readTimeout t) else readDeadline t)"

text \<open>
  What Reads that start at \<open>now\<close> get: after the deadline nothing, not even what has arrived; before
  it every packet that arrives in time.
\<close>

definition arrives_by :: "int option \<Rightarrow> int \<Rightarrow> timed_conn \<Rightarrow> (int \<times> bytes) list \<times> fault" where
  "arrives_by dl now c = (case dl of
     None \<Rightarrow> (arrivals c, endFault c)
   | Some d \<Rightarrow>
       if d < now then ([], deadline_exceeded)
       else let seen = takeWhile (\<lambda>(at, p). at \<le> d) (arrivals c) in
         (seen, if seen = arrivals c \<and> endAt c \<le> d then endFault c else deadline_exceeded))"

text \<open>One \<^verbatim>\<open>readMessage\<close> at \<open>now\<close>; packets it did not take, or took in part, stay.\<close>

definition timed_read ::
    "int \<Rightarrow> timed_conn \<times> stream_transport \<Rightarrow> (err + bytes) \<times> timed_conn \<times> stream_transport" where
  "timed_read now ct = (case ct of (c, t) \<Rightarrow>
     (case arrives_by (deadline_in_force now t) now c of (seen, f) \<Rightarrow>
        (case stream_readMessage (t\<lparr>clock := \<lambda>_. now,
             streamReader := (streamReader t)\<lparr>chunks := map snd seen, final := f\<rparr>\<rparr>) of
           (x, t') \<Rightarrow>
             let rest = chunks (streamReader t');
                 times = map fst (drop (length seen - length rest) seen)
             in (x, c\<lparr>arrivals := zip times rest @ drop (length seen) (arrivals c)\<rparr>, t'))))"

text \<open>The messages a reader gets that calls \<^verbatim>\<open>readMessage\<close> at the given moments, up to an error.\<close>

fun timed_reads ::
    "int list \<Rightarrow> timed_conn \<times> stream_transport \<Rightarrow> bytes list \<times> err option" where
  "timed_reads [] ct = ([], None)"
| "timed_reads (now # nows) ct =
     (case timed_read now ct of
        (Inl e, ct') \<Rightarrow> ([], Some e)
      | (Inr m, ct') \<Rightarrow> (case timed_reads nows ct' of (ms, e) \<Rightarrow> (m # ms, e)))"

section \<open>Frames in time are received\<close>

context framing_codec
begin

lemma timed_read_frame:
  assumes "streamCodec t = c" and "rerr (streamReader t) = None" and "Buffered (streamReader t) = 0"
    and "setReadDeadline t = Some f" and "\<forall>d. f d = None" and "0 < readTimeout t"
    and "fits (maxMessage t) m" and "arrivals conn = pre @ post"
    and "concat (map snd pre) = frame m" and "[] \<notin> set (map snd (arrivals conn))"
    and "\<forall>(at, p) \<in> set pre. at \<le> now + readTimeout t"
  shows "\<exists>conn' t'. timed_read now (conn, t) = (Inr m, conn', t')"
proof -
  let ?d = "now + readTimeout t"
  obtain seen x where s: "arrives_by (Some ?d) now conn = (seen, x)" by (metis surj_pair)
  then have seen: "seen = takeWhile (\<lambda>(at, p). at \<le> ?d) (pre @ post)"
    using assms(6,8) by (simp add: arrives_by_def Let_def)
  then have more: "seen = pre @ takeWhile (\<lambda>(at, p). at \<le> ?d) post" (is "_ = _ @ ?more")
    using assms(11) by (auto simp: takeWhile_append2)
  have sub: "set ?more \<subseteq> set post" by (auto dest: set_takeWhileD)
  let ?r = "(streamReader t)\<lparr>chunks := map snd seen, final := x\<rparr>"
  have b: "rbuf (streamReader t) = []" using assms(3) by (simp add: Buffered_def)
  have ok: "reader_ok ?r" and str: "stream ?r = frame m @ concat (map snd ?more)"
    using assms(2,8,9,10) more sub b by (auto simp: reader_ok_def stream_def bsize_def)
  obtain r' where "Read c (maxMessage t) ?r = (Inr m, r')" using read_frame [OF assms(7) ok str] by blast
  moreover have "deadline_in_force now t = Some ?d" using assms(3,4,6) by (simp add: deadline_in_force_def)
  ultimately show ?thesis
    using assms(1,3,4,5,6) s
    by (simp add: timed_read_def stream_readMessage_def time_Now_def codec_read_def Buffered_def Let_def)
qed

end

section \<open>A partial frame in the buffer keeps the old deadline\<close>

lemma partial_frame_keeps_deadline:
  assumes "Buffered (streamReader t) \<noteq> 0" and "stream_readMessage t = (x, t')"
  shows "readDeadline t' = readDeadline t"
  using readMessage_deadline [OF assms(2)] assms(1) by simp


text \<open>A Read served from the buffer, and one served from the first packet.\<close>

lemma read_full_buffered:
  assumes "n \<le> length (rbuf r)" shows "read_full n r = (Inr (take n (rbuf r)), r\<lparr>rbuf := drop n (rbuf r)\<rparr>)"
proof (cases n)
  case 0
  then show ?thesis by (simp add: read_full_def read_full_from.simps [of 0])
next
  case (Suc k)
  then have "bufio_read n r = (take n (rbuf r), None, r\<lparr>rbuf := drop n (rbuf r)\<rparr>)"
    using assms by (auto simp: bufio_read_def)
  then show ?thesis using Suc assms
    by (simp add: read_full_def read_full_from.simps [of _ "[]"] read_full_from.simps [of _ "take _ _"])
qed

lemma read_full_packet:
  assumes "rbuf r = []" and "rerr r = None" and "chunks r = p # ps" and "0 < n" and "n < bsize r"
    and "n \<le> length p" and "length p \<le> bsize r"
  shows "read_full n r = (Inr (take n p), r\<lparr>rbuf := drop n p, chunks := ps\<rparr>)"
proof -
  have "p \<noteq> []" using assms(4,6) by auto
  then have "bufio_read n r = (take n p, None, r\<lparr>rbuf := drop n p, chunks := ps\<rparr>)"
    using assms by (simp add: bufio_read_def conn_read_def)
  then show ?thesis using assms(4,6)
    by (simp add: read_full_def read_full_from.simps [of _ "[]"] read_full_from.simps [of _ "take _ _"])
qed

lemma uint32_read_packet:
  assumes "uint32_fits max_len m" and "0 \<le> max_len" and "rbuf r = []" and "rerr r = None"
    and "chunks r = (uint32_frame m @ p) # ps" and "length (uint32_frame m @ p) \<le> bsize r"
  shows "uint32_read max_len r = (Inr m, r\<lparr>rbuf := p, chunks := ps\<rparr>)"
proof -
  let ?n = "ucast (of_nat (length m) :: 32 word) :: 64 word"
  let ?r1 = "r\<lparr>rbuf := m @ p, chunks := ps\<rparr>"
  have "4 < bsize r" by (simp add: bsize_def)
  then have h: "read_full 4 r = (Inr (put_uint32 (of_nat (length m))), ?r1)"
    using read_full_packet [OF assms(3-5), of 4] assms(6) by (simp add: uint32_frame_def)
  have n: "unat ?n = length m" using header_len [of m] assms(1) by (simp add: uint32_fits_def)
  then have u: "uint ?n = int (length m)" by (metis of_nat_unat)
  have "read_payload ?n max_len ?r1 = (Inr m, r\<lparr>rbuf := p, chunks := ps\<rparr>)"
  proof -
    have "\<not> word_of_int max_len < ?n"
      using uint_of_limit [of max_len] assms(1,2) u by (simp add: word_less_alt uint32_fits_def)
    moreover have "\<not> sint ?n < 0"
    proof -
      have "int (unat ?n) < int (2 ^ 63)" using assms(1) n by (simp add: uint32_fits_def go_int_def)
      then have "unat ?n < 2 ^ 63" by (simp only: of_nat_less_iff)
      then show ?thesis using no_high_bit not_sint_neg by blast
    qed
    ultimately show ?thesis
      using read_full_buffered [of "length m" ?r1] n by (simp add: read_payload_def)
  qed
  then show ?thesis by (simp add: uint32_read_def h)
qed

section \<open>TCP\<close>

text \<open>A peer that sends two packets, the first a frame and \<open>p\<close>, the second \<open>q\<close>.\<close>

definition two_packets :: "bytes \<Rightarrow> int \<Rightarrow> bytes \<Rightarrow> int \<Rightarrow> bytes \<Rightarrow> timed_conn" where
  "two_packets m at1 p at2 q =
     \<lparr>arrivals = [(at1, uint32_frame m @ p), (at2, q)], endAt = at2, endFault = FaultEOF\<rparr>"

lemma first_read:
  assumes "\<forall>d. connReadDeadline conn d = None" and "0 < ReadTimeout config" and "at1 \<le> ReadTimeout config"
    and "int (length m) \<le> uint (MaxLength config)" and "length (uint32_frame m @ p) \<le> readBufferSize"
  shows "\<exists>t'. timed_read 0 (two_packets m at1 p at2 q, tcp_transport config conn) =
      (Inr m, \<lparr>arrivals = [(at2, q)], endAt = at2, endFault = FaultEOF\<rparr>, t')
    \<and> rbuf (streamReader t') = p \<and> rerr (streamReader t') = None \<and> rsize (streamReader t') = readBufferSize
    \<and> readDeadline t' = Some (ReadTimeout config) \<and> setReadDeadline t' = Some (connReadDeadline conn)
    \<and> readTimeout t' = ReadTimeout config \<and> streamCodec t' = Uint32 \<and> maxMessage t' = uint (MaxLength config)"
proof -
  let ?T = "ReadTimeout config" and ?max = "uint (MaxLength config)"
  let ?more = "if at2 \<le> ?T then [(at2, q)] else []"
  have fits: "uint32_fits ?max m" by (rule uint32_fits_config [OF assms(4)])
  obtain f where seen: "arrives_by (Some ?T) 0 (two_packets m at1 p at2 q) = ((at1, uint32_frame m @ p) # ?more, f)"
    using assms(2,3) by (simp add: arrives_by_def two_packets_def Let_def)
  let ?r = "(new_reader_size readBufferSize [] (incomingEnd conn))
    \<lparr>chunks := (uint32_frame m @ p) # map snd ?more, final := f\<rparr>"
  have "uint32_read ?max ?r = (Inr m, ?r\<lparr>rbuf := p, chunks := map snd ?more\<rparr>)"
    by (rule uint32_read_packet [OF fits]) (use assms(5) in \<open>simp_all add: new_reader_size_def bsize_def\<close>)
  then show ?thesis
    using assms(1,2) seen
    by (simp add: timed_read_def stream_readMessage_def time_Now_def codec_read_def deadline_in_force_def
        tcp_transport_def stream_on_def newReader_def Buffered_def Let_def new_reader_size_def
        two_packets_def)
qed

text \<open>
  C21. The TCP server gives a peer ReadTimeout for a frame only if the frame before it ended with a
  packet. If the first bytes of a frame came with the frame before, the deadline of that frame
  stays in force: when the rest arrives after it, or when the consumer asks after it, the session
  is timed out, though the pauses of the peer were shorter than the timeout.
\<close>

theorem idle_deadline:
  assumes "\<forall>d. connReadDeadline conn d = None" and "0 < ReadTimeout config" and "at1 \<le> ReadTimeout config"
    and "\<forall>x \<in> {m, m'}. int (length x) \<le> uint (MaxLength config)"
    and "length (uint32_frame m @ p) \<le> readBufferSize" and "p @ q = uint32_frame m'" and "q \<noteq> []"
  shows "(p = [] \<and> at2 \<le> later + ReadTimeout config \<longrightarrow>
      timed_reads [0, later] (two_packets m at1 p at2 q, tcp_transport config conn) = ([m, m'], None))
    \<and> (p \<noteq> [] \<and> (ReadTimeout config < at2 \<or> ReadTimeout config < later) \<longrightarrow>
      timed_reads [0, later] (two_packets m at1 p at2 q, tcp_transport config conn)
        = ([m], Some (fault_err deadline_exceeded)))"
proof -
  let ?T = "ReadTimeout config" and ?conn = "\<lparr>arrivals = [(at2, q)], endAt = at2, endFault = FaultEOF\<rparr>"
  obtain t where first: "timed_read 0 (two_packets m at1 p at2 q, tcp_transport config conn) = (Inr m, ?conn, t)"
    and t: "rbuf (streamReader t) = p" "rerr (streamReader t) = None" "rsize (streamReader t) = readBufferSize"
      "readDeadline t = Some ?T" "setReadDeadline t = Some (connReadDeadline conn)" "readTimeout t = ?T"
      "streamCodec t = Uint32" "maxMessage t = uint (MaxLength config)"
    using first_read [OF assms(1-3) _ assms(5), of at2 q] assms(4) by auto
  have fits: "uint32_fits (maxMessage t) m'" using uint32_fits_config assms(4) t(8) by simp
  have A: "\<exists>c' t'. timed_read later (?conn, t) = (Inr m', c', t')" if "p = []" "at2 \<le> later + ?T"
    unfolding two_packets_def
    by (rule uint32_c.timed_read_frame [OF t(7) _ _ t(5) assms(1) _ fits, where pre = "[(at2, q)]" and post = "[]"])
      (use that t assms in \<open>auto simp: Buffered_def\<close>)
  have B: "\<exists>c' t'. timed_read later (?conn, t) = (Inl (fault_err deadline_exceeded), c', t')"
    if "p \<noteq> []" "?T < at2 \<or> ?T < later"
  proof -
    let ?r = "(streamReader t)\<lparr>chunks := [], final := deadline_exceeded\<rparr>"
    have "arrives_by (Some ?T) later ?conn = ([], deadline_exceeded)" using that(2) by (auto simp: arrives_by_def)
    moreover have "fst (uint32_read (maxMessage t) ?r) = Inl (fault_err deadline_exceeded)"
      using uint32_read_cut [OF fits, of ?r q] t that(1) assms(5-7)
      by (simp add: reader_ok_def stream_def bsize_def deadline_exceeded_def)
    moreover have "Buffered (streamReader t) \<noteq> 0" using t(1) that(1) by (simp add: Buffered_def)
    moreover obtain x r' where "uint32_read (maxMessage t) ?r = (x, r')" by (metis surj_pair)
    ultimately show ?thesis using t
      by (simp add: timed_read_def deadline_in_force_def stream_readMessage_def codec_read_def Buffered_def Let_def)
  qed
  show ?thesis using A B first by auto
qed

theorem idle_deadline_witness:
  "\<exists>p q. timed_reads [0, 29] (two_packets [65] 29 p 31 q,
      tcp_transport (defaultConfig\<lparr>ReadTimeout := 30\<rparr>)
        \<lparr>remoteAddr = ''c'', incoming = [], incomingEnd = FaultEOF, connReadDeadline = (\<lambda>_. None),
         connWriteDeadline = (\<lambda>_. None), connClock = int, connWrite = (\<lambda>_ b. (length b, None)),
         connGrown = (\<lambda>c n. max c n)\<rparr>) = ([[65]], Some (fault_err deadline_exceeded))"
proof -
  let ?c = "\<lparr>remoteAddr = ''c'', incoming = [], incomingEnd = FaultEOF, connReadDeadline = (\<lambda>_. None),
    connWriteDeadline = (\<lambda>_. None), connClock = int, connWrite = (\<lambda>_ b. (length b, None)),
    connGrown = (\<lambda>c n. max c n)\<rparr>"
  have "timed_reads [0, 29] (two_packets [65] 29 [0, 0] 31 [0, 1, 66],
      tcp_transport (defaultConfig\<lparr>ReadTimeout := 30\<rparr>) ?c) = ([[65]], Some (fault_err deadline_exceeded))"
    using idle_deadline [of ?c "defaultConfig\<lparr>ReadTimeout := 30\<rparr>" 29 "[65]" "[66]" "[0, 0]" "[0, 1, 66]" 31 29]
    by (simp add: defaultConfig_def defaultMaxLength_def uint32_frame_def put_uint32_1 readBufferSize_def)
  then show ?thesis by blast
qed

end
