(* ===== verification/TcpProps.thy ===== *)
theory TcpProps
  imports Tcp
begin

text \<open>
  TCP end to end: a session made by \<^verbatim>\<open>accept\<close> yields the messages the peer framed and puts its
  queue on the wire framed; how Serve ends; listening and stopping.
\<close>

definition sample_conn :: net_conn where
  "sample_conn = \<lparr>remoteAddr = ''10.0.0.1:5'', incoming = [[0, 0], [0, 1, 65, 0, 0], [0, 0]],
     incomingEnd = FaultEOF, connReadDeadline = (\<lambda>_. None), connWriteDeadline = (\<lambda>_. None),
     connClock = int, connWrite = (\<lambda>_ b. (length b, None)), connGrown = (\<lambda>c n. max c n)\<rparr>"

definition sample_tcp :: tcp_server where
  "sample_tcp = \<lparr>tcpBase = newServer None defaultConfig, tcpAddr = '':7'',
     tcpLn = Some \<lparr>lnClosed = False, closeErr = None\<rparr>, tcpSessions = [], tcpRefused = [], tcpSlept = 0\<rparr>"

lemmas sample_tcp_defs = sample_conn_def sample_tcp_def newServer_def defaultConfig_def
  defaultMaxLength_def tryAdmit_eq

text \<open>
  C12. A session accepted on a TCP connection yields exactly the messages its peer framed, in
  order, however the bytes are split into packets; at the end of the stream the iteration
  stops and the session is closed with ErrSessionClosed.
\<close>

theorem tcp_yields_messages:
  assumes "fst (tryAdmit (tcpBase t))" and "\<not> stopped (tcpBase t)"
    and "[] \<notin> set (incoming conn)" and "concat (incoming conn) = concat (map uint32_frame ms)"
    and "incomingEnd conn = FaultEOF"
    and "\<forall>m \<in> set ms. int (length m) \<le> uint (MaxLength (cfg (tcpBase t)))"
    and "\<forall>d. connReadDeadline conn d = None" and "length clocks = Suc (length ms)"
  shows "\<exists>tr' s'. Messages streamTransport (map (\<lambda>now. (now, True)) clocks)
      (last (tcpSessions (tcp_accept c conn uid now t))) = (ms, (tr', s'), True)
    \<and> closeOnce s' \<and> ctx s' = cancel ErrSessionClosed c"
proof -
  let ?tr = "tcp_transport (cfg (tcpBase t)) conn"
  let ?s = "newSession c (remoteAddr conn) (cfg (tcpBase t)) True uid now"
  have "last (tcpSessions (tcp_accept c conn uid now t)) = (?tr, ?s)"
    using tcp_accept_session [OF assms(1,2)] by simp
  moreover have h: "holds_frames Uint32 uint32_frame uint32_fits ms ?tr"
    by (rule tcp_transport_holds [OF assms(3,4,6,7)])
  moreover have "fault_err (final (streamReader ?tr)) = EOF"
    using assms(5) by (simp add: tcp_transport_def stream_on_def newReader_def)
  moreover have "readCause EOF = ErrSessionClosed" by (simp add: readCause_def)
  ultimately show ?thesis
    using uint32_c.stream_source.Messages_all [OF h assms(8), of ?s] by simp
qed

theorem tcp_yields_messages_witness:
  "\<exists>tr' s'. Messages streamTransport (map (\<lambda>now. (now, True)) [1, 2, 3])
      (last (tcpSessions (tcp_accept None sample_conn ''u'' 0 sample_tcp))) = ([[65], []], (tr', s'), True)
    \<and> closeOnce s' \<and> ctx s' = cancel ErrSessionClosed None"
  by (rule tcp_yields_messages)
    (simp_all add: sample_tcp_defs uint32_frame_def put_uint32_def)

text \<open>
  When the writer has emptied the queue of a TCP session without an error, the wire
  carries the frames of the queued messages in order and nothing else; after an error it
  carries a prefix of them and the session is closed.
\<close>

theorem tcp_sends_queue:
  assumes "io_writer (connWrite conn)"
    and "drain streamTransport (tcp_transport config conn, s) = (done_ok, tr', s')"
  shows "if done_ok then wire tr' = concat (map uint32_frame (out s)) \<and> out s' = []
    else (\<exists>q. concat (map uint32_frame (out s)) = wire tr' @ q) \<and> closeOnce s'"
proof -
  let ?tr = "tcp_transport config conn"
  have ok: "can_write Uint32 ?tr" and w: "wire ?tr = []"
    using assms(1) by (simp_all add: tcp_transport_def stream_on_can_write stream_on_def can_write_def)
  show ?thesis
    using uint32_c.stream_writer.drain_ok [OF ok, of s tr' s']
      uint32_c.stream_writer.drain_error [OF ok, of s tr' s'] assms(2) w
    by (cases done_ok) auto
qed

theorem tcp_sends_queue_witness:
  "\<exists>ok tr' s'. drain streamTransport (tcp_transport defaultConfig sample_conn,
        (newSession None ''a'' defaultConfig True ''u'' 0)\<lparr>out := [[65], [66, 67]]\<rparr>) = (ok, tr', s')
    \<and> (if ok then wire tr' = concat (map uint32_frame [[65], [66, 67]]) \<and> out s' = []
       else (\<exists>q. concat (map uint32_frame [[65], [66, 67]]) = wire tr' @ q) \<and> closeOnce s')"
proof -
  let ?s = "(newSession None ''a'' defaultConfig True ''u'' 0)\<lparr>out := [[65], [66, 67]]\<rparr>"
  obtain ok tr' s' where d: "drain streamTransport (tcp_transport defaultConfig sample_conn, ?s) = (ok, tr', s')"
    by (metis prod_cases3)
  have "io_writer (connWrite sample_conn)" by (simp add: io_writer_def sample_conn_def)
  from tcp_sends_queue [OF this d] d show ?thesis by auto
qed

section \<open>How Serve ends\<close>

fun goes_on :: "accept_event \<Rightarrow> bool" where
  "goes_on (Accepted conn uid now c) = True"
| "goes_on (AcceptFailed e c) = (c = None \<and> \<not> errors_is e NetErrClosed \<and> is_timeout e)"

text \<open>
  The accept loop survives every transient Accept error, and rejected connections; it
  returns only at the first other error, with nil if its context has ended or the listener
  was closed, and with that error wrapped otherwise.
\<close>

theorem tcp_accept_loop_ends:
  assumes "tcp_accept_loop mine evs t = (res, t')"
  shows "(res = Blocked \<and> (\<forall>ev \<in> set evs. goes_on ev))
    \<or> (\<exists>pre e c post. evs = pre @ AcceptFailed e c # post \<and> (\<forall>ev \<in> set pre. goes_on ev)
        \<and> \<not> goes_on (AcceptFailed e c)
        \<and> res = ServeReturned (if c \<noteq> None \<or> errors_is e NetErrClosed then None
            else Some (NewConnectionError ''accept failed'' (Some e))))"
  using assms
proof (induction mine evs t rule: tcp_accept_loop.induct)
  case (1 mine t)
  then show ?case by simp
next
  case (2 mine conn uid now c evs t)
  let ?t = "tcp_accept c conn uid now t"
  let ?mine = "mine @ [length (tcpSessions t)..<length (tcpSessions ?t)]"
  have "tcp_accept_loop ?mine evs (tcp_ctx_ends c ?mine ?t) = (res, t')" using 2(2) by (simp add: Let_def)
  from 2(1) [OF refl refl this] show ?case
    by (metis append_Cons goes_on.simps(1) set_ConsD)
next
  case (3 mine e c evs t)
  show ?case
  proof (cases "goes_on (AcceptFailed e c)")
    case True
    then have "tcp_accept_loop mine evs (t\<lparr>tcpSlept := tcpSlept t + acceptRetryDelay\<rparr>) = (res, t')"
      using 3(2) by simp
    then have "(res = Blocked \<and> (\<forall>ev \<in> set evs. goes_on ev))
      \<or> (\<exists>pre e c post. evs = pre @ AcceptFailed e c # post \<and> (\<forall>ev \<in> set pre. goes_on ev)
        \<and> \<not> goes_on (AcceptFailed e c)
        \<and> res = ServeReturned (if c \<noteq> None \<or> errors_is e NetErrClosed then None
            else Some (NewConnectionError ''accept failed'' (Some e))))"
      using 3(1) True by simp
    then show ?thesis using True by (metis append_Cons set_ConsD)
  next
    case False
    then have "res = ServeReturned (if c \<noteq> None \<or> errors_is e NetErrClosed then None
        else Some (NewConnectionError ''accept failed'' (Some e)))"
      using 3(2) by (auto split: if_splits)
    then show ?thesis using False by (intro disjI2 exI [of _ "[]"]) auto
  qed
qed

theorem tcp_accept_loop_ends_witness:
  "fst (tcp_accept_loop [] [AcceptFailed (OpError ''timeout'' True) None, AcceptFailed NetErrClosed None] sample_tcp)
    = ServeReturned None"
proof -
  let ?evs = "[AcceptFailed (OpError ''timeout'' True) None, AcceptFailed NetErrClosed None]"
  obtain res t' where r: "tcp_accept_loop [] ?evs sample_tcp = (res, t')" by (metis surj_pair)
  from tcp_accept_loop_ends [OF r] have "res = ServeReturned None"
    by (auto simp: Cons_eq_append_conv append_eq_Cons_conv)
  then show ?thesis using r by simp
qed

section \<open>Listening and stopping\<close>

text \<open>
  A server that has been stopped does not serve again: Serve returns ErrServerStopped and
  changes nothing. StartListener, whose doc promises background serving, reports success all
  the same.
\<close>

theorem tcp_after_stop:
  assumes "tcpLn t = Some l" and "tcp_StopListener order t = (e, t')"
  shows "tcp_Serve bind evs t' = (ServeReturned (Some ErrServerStopped), t')
    \<and> tcp_StartListener bind t' = (None, True, t')"
proof -
  have keep: "stopped (tcpBase u) \<and> tcpLn u \<noteq> None \<Longrightarrow>
      stopped (tcpBase (fold (tcp_close_session x) ps u)) \<and> tcpLn (fold (tcp_close_session x) ps u) \<noteq> None"
    for x ps u
    by (induction ps arbitrary: u) (auto simp: tcp_close_session_def remove_def split: prod.splits)
  have "stopped (tcpBase t') \<and> tcpLn t' \<noteq> None"
    using assms(1,2) keep
    by (auto simp: tcp_StopListener_def stop_begin_def stop_cancel_def tcp_closeListener_def close_once_def
        Let_def split: prod.splits option.splits)
  then show ?thesis
    by (auto simp: tcp_Serve_def tcp_StartListener_def tcp_Listen_def enter_def)
qed

theorem tcp_after_stop_witness:
  "\<exists>e t'. tcp_StopListener [] sample_tcp = (e, t') \<and> tcp_Serve (\<lambda>_. Inl EOF) [] t' = (ServeReturned (Some ErrServerStopped), t')"
proof -
  obtain e t' where s: "tcp_StopListener [] sample_tcp = (e, t')" by (metis surj_pair)
  have "tcpLn sample_tcp = Some \<lparr>lnClosed = False, closeErr = None\<rparr>" by (simp add: sample_tcp_def)
  from tcp_after_stop [OF this s] s show ?thesis by blast
qed

end
