(* ===== verification/Udp.thy ===== *)
theory Udp
  imports Net
begin

text \<open>
  \<^verbatim>\<open>listener/udp.go\<close>: one socket for all clients, a session per client address. The transport
  of a session has a queue that the server's read loop fills and that drops when it is full.
\<close>

section \<open>The transport of one client address\<close>

definition maxUDPPayload :: nat where "maxUDPPayload = 65507"

text \<open>
  \<open>inQ\<close> and \<open>inCap\<close> are the channel \<^verbatim>\<open>in\<close>; \<open>doneClosed\<close> says whether \<^verbatim>\<open>done\<close> is closed and
  \<open>udpCloseOnce\<close> whether the \<^verbatim>\<open>sync.Once\<close> has run. The rest is the environment: \<open>arriving\<close>, the
  datagrams the read loop will still deliver while a read waits (after them the session is
  closed); \<open>preferDone\<close>, the choice of \<^verbatim>\<open>select\<close> when both cases are ready; \<open>udpWrite\<close>, the
  answer of the socket to each write; and the datagrams that went out.
\<close>

record udp_transport =
  peerAddr :: string
  inQ :: "bytes list"
  inCap :: nat
  doneClosed :: bool
  udpCloseOnce :: bool
  arriving :: "bytes list"
  preferDone :: bool
  udpWrite :: "nat \<Rightarrow> bytes \<Rightarrow> err option"
  udpWrites :: nat
  datagrams :: "bytes list"

definition udp_close :: "err \<Rightarrow> udp_transport \<Rightarrow> udp_transport" where
  "udp_close cause t = (if udpCloseOnce t then t else t\<lparr>udpCloseOnce := True, doneClosed := True\<rparr>)"

definition udp_readMessage :: "udp_transport \<Rightarrow> (err + bytes) \<times> udp_transport" where
  "udp_readMessage t =
     (case inQ t of
        m # ms \<Rightarrow>
          if doneClosed t \<and> preferDone t then (Inl ErrSessionClosed, t) else (Inr m, t\<lparr>inQ := ms\<rparr>)
      | [] \<Rightarrow>
          if doneClosed t then (Inl ErrSessionClosed, t)
          else (case arriving t of
             m # ms \<Rightarrow> (Inr m, t\<lparr>arriving := ms\<rparr>)
           | [] \<Rightarrow> (Inl ErrSessionClosed, udp_close ErrSessionClosed t)))"

fun udp_writeMessages :: "bytes list \<Rightarrow> udp_transport \<Rightarrow> err option \<times> udp_transport" where
  "udp_writeMessages [] t = (None, t)"
| "udp_writeMessages (m # ms) t =
     (case udpWrite t (udpWrites t) m of
        Some e \<Rightarrow> (Some e, t\<lparr>udpWrites := Suc (udpWrites t)\<rparr>)
      | None \<Rightarrow> udp_writeMessages ms
          (t\<lparr>udpWrites := Suc (udpWrites t), datagrams := datagrams t @ [m]\<rparr>))"

definition udpTransport :: "udp_transport transport" where
  "udpTransport = \<lparr>readMessage = udp_readMessage, writeMessages = udp_writeMessages,
     closeTransport = udp_close\<rparr>"

section \<open>The server\<close>

record udp_server =
  udpBase :: server
  udpAddr :: string
  udpConn :: "net_listener option"
  udpSessions :: "(udp_transport \<times> session) list"

definition NewUDP ::
    "string \<Rightarrow> 16 word \<Rightarrow> err option \<Rightarrow> server_option list \<Rightarrow> err + udp_server" where
  "NewUDP host port parent opts =
     (let config = apply_options opts defaultConfig in
      case ValidateConfig config of
        Some e \<Rightarrow> Inl (NewConfigError ''invalid configuration'' (Some e))
      | None \<Rightarrow> Inr \<lparr>udpBase = newServer parent config, udpAddr = hostPort host port,
          udpConn = None, udpSessions = []\<rparr>)"

text \<open>\<open>resolve\<close> is \<^verbatim>\<open>net.ResolveUDPAddr\<close>, \<open>bind\<close> is \<^verbatim>\<open>net.ListenUDP\<close>.\<close>

definition udp_Listen ::
    "(string \<Rightarrow> err + string) \<Rightarrow> (string \<Rightarrow> err + net_listener) \<Rightarrow> udp_server \<Rightarrow> err option \<times> udp_server" where
  "udp_Listen resolve bind u =
     (case udpConn u of
        Some l \<Rightarrow> (None, u)
      | None \<Rightarrow> (case resolve (udpAddr u) of
          Inl e \<Rightarrow> (Some (NewConnectionError ''failed to resolve address'' (Some e)), u)
        | Inr a \<Rightarrow> (case bind a of
            Inl e \<Rightarrow> (Some (NewConnectionError ''failed to start listener'' (Some e)), u)
          | Inr l \<Rightarrow> (None, u\<lparr>udpConn := Some l,
              udpBase := log_at Info ''gophersocks: UDP server listening'' (udpBase u)\<rparr>))))"

definition udp_closeConn :: "udp_server \<Rightarrow> err option \<times> udp_server" where
  "udp_closeConn u = (case close_once (udpConn u) of (e, l) \<Rightarrow> (e, u\<lparr>udpConn := l\<rparr>))"

text \<open>The \<^verbatim>\<open>AfterFunc\<close> of Serve: the socket is closed once Serve's context has ended.\<close>

definition udp_unblock :: "err option \<Rightarrow> udp_server \<Rightarrow> udp_server" where
  "udp_unblock c u = (case c of None \<Rightarrow> u | Some e \<Rightarrow> snd (udp_closeConn u))"

lemma udp_unblock_fields [simp]:
  "udpBase (udp_unblock c u) = udpBase u" "udpSessions (udp_unblock c u) = udpSessions u"
  "udpAddr (udp_unblock c u) = udpAddr u"
  by (simp_all add: udp_unblock_def udp_closeConn_def split: option.splits prod.splits)

section \<open>Delivering a datagram\<close>

text \<open>\<open>env\<close> gives the environment of a new session's transport: its future and its socket.\<close>

definition new_udp_transport :: "udp_transport \<Rightarrow> string \<Rightarrow> server_config \<Rightarrow> udp_transport" where
  "new_udp_transport env a config =
     env\<lparr>peerAddr := a, inQ := [], inCap := nat (max (BufferSize config) 1), doneClosed := False,
         udpCloseOnce := False\<rparr>"

definition udp_open ::
    "udp_transport \<Rightarrow> err option \<Rightarrow> string \<Rightarrow> string \<Rightarrow> int \<Rightarrow> udp_server \<Rightarrow> session_ptr option \<times> udp_server" where
  "udp_open env c a uid now u =
     (case tryAdmit (udpBase u) of
        (False, v) \<Rightarrow> (None, u\<lparr>udpBase := v\<rparr>)
      | (True, v) \<Rightarrow>
          (case enter v of
             (False, v') \<Rightarrow> (None, u\<lparr>udpBase := release v'\<rparr>)
           | (True, v') \<Rightarrow>
               let p = length (udpSessions u) in
               (Some p, u\<lparr>udpBase := add a p v', udpSessions := udpSessions u @
                  [(new_udp_transport env a (cfg v'), newSession c a (cfg v') True uid now)]\<rparr>)))"

definition udp_enqueue :: "session_ptr \<Rightarrow> bytes \<Rightarrow> int \<Rightarrow> udp_server \<Rightarrow> udp_server" where
  "udp_enqueue p msg now u =
     (case udpSessions u ! p of (t, s) \<Rightarrow>
        if length (inQ t) < inCap t
        then u\<lparr>udpSessions := (udpSessions u)[p := (t\<lparr>inQ := inQ t @ [msg]\<rparr>, touch now s)]\<rparr>
        else u\<lparr>udpSessions := (udpSessions u)[p := (t, touch now s)],
               udpBase := log_at Warn ''gophersocks: session queue full, dropping datagram'' (udpBase u)\<rparr>)"

definition udp_deliver ::
    "udp_transport \<Rightarrow> err option \<Rightarrow> string \<Rightarrow> bytes \<Rightarrow> string \<Rightarrow> int \<Rightarrow> udp_server \<Rightarrow> udp_server" where
  "udp_deliver env c a msg uid now u =
     (case byAddr (udpBase u) a of
        Some p \<Rightarrow> udp_enqueue p msg now u
      | None \<Rightarrow> (case udp_open env c a uid now u of
          (None, u') \<Rightarrow> u'
        | (Some p, u') \<Rightarrow> udp_enqueue p msg now u'))"

section \<open>The read loop\<close>

definition udp_close_session :: "err \<Rightarrow> session_ptr \<Rightarrow> udp_server \<Rightarrow> udp_server" where
  "udp_close_session e p u =
     (case udpSessions u ! p of (t, s) \<Rightarrow>
        if closeOnce s then u
        else u\<lparr>udpBase := remove (addr s) p (udpBase u),
               udpSessions := (udpSessions u)[p := closeWith udpTransport (Some e) (t, s)]\<rparr>)"

text \<open>
  The \<^verbatim>\<open>AfterFunc\<close> that \<^verbatim>\<open>newSession\<close> registers, as in \<open>Tcp\<close>: once Serve's context has ended, the
  sessions \<open>mine\<close> of this Serve call close with its cause.
\<close>

definition udp_ctx_ends :: "err option \<Rightarrow> session_ptr list \<Rightarrow> udp_server \<Rightarrow> udp_server" where
  "udp_ctx_ends c mine u = (case c of None \<Rightarrow> u | Some e \<Rightarrow> fold (udp_close_session e) mine u)"

text \<open>
  A datagram on the wire with its sender, or an error of the socket. \<^verbatim>\<open>ReadFromUDP\<close> cuts a
  datagram that is longer than the buffer.
\<close>

datatype udp_event =
    Arrives udp_transport string bytes string int "err option"
  | ReadFails err "err option"

definition udp_buffer :: "server_config \<Rightarrow> nat" where
  "udp_buffer config = min (unat (MaxLength config)) maxUDPPayload + 1"

text \<open>As in \<open>Tcp\<close>, the deferred \<^verbatim>\<open>stop\<close> runs where the loop returns.\<close>

fun udp_read_loop ::
    "session_ptr list \<Rightarrow> udp_event list \<Rightarrow> udp_server \<Rightarrow> serve_result \<times> udp_server" where
  "udp_read_loop mine [] u = (Blocked, u)"
| "udp_read_loop mine (ReadFails e c # evs) u =
     (if c \<noteq> None \<or> errors_is e NetErrClosed
      then (ServeReturned None, udp_ctx_ends (cancel Canceled c) mine (udp_unblock c u))
      else (ServeReturned (Some (NewConnectionError ''read failed'' (Some e))),
        udp_ctx_ends (cancel Canceled c) mine u))"
| "udp_read_loop mine (Arrives env a payload uid now c # evs) u =
     (let buf = take (udp_buffer (cfg (udpBase u))) payload in
      if length buf = 0 then udp_read_loop mine evs u
      else if unat (MaxLength (cfg (udpBase u))) < length buf
      then udp_read_loop mine evs
        (u\<lparr>udpBase := log_at Warn ''gophersocks: dropping oversized datagram'' (udpBase u)\<rparr>)
      else
        (let u1 = udp_deliver env c a buf uid now u;
             mine1 = mine @ [length (udpSessions u)..<length (udpSessions u1)]
         in udp_read_loop mine1 evs (udp_ctx_ends c mine1 u1)))"

text \<open>A socket that is closed delivers nothing.\<close>

fun udp_event_ctx :: "udp_event \<Rightarrow> err option" where
  "udp_event_ctx (Arrives env a payload uid now c) = c"
| "udp_event_ctx (ReadFails e c) = c"

definition reads_on :: "net_listener option \<Rightarrow> udp_event list \<Rightarrow> udp_event list" where
  "reads_on conn evs =
     (if (case conn of None \<Rightarrow> False | Some l \<Rightarrow> lnClosed l)
      then [ReadFails already_closed (case evs of [] \<Rightarrow> None | ev # _ \<Rightarrow> udp_event_ctx ev)] else evs)"

definition udp_Serve ::
    "(string \<Rightarrow> err + string) \<Rightarrow> (string \<Rightarrow> err + net_listener) \<Rightarrow> udp_event list \<Rightarrow> udp_server
      \<Rightarrow> serve_result \<times> udp_server" where
  "udp_Serve resolve bind evs u =
     (case udp_Listen resolve bind u of
        (Some e, u1) \<Rightarrow> (ServeReturned (Some e), u1)
      | (None, u1) \<Rightarrow>
          (case enter (udpBase u1) of
             (False, v) \<Rightarrow> (ServeReturned (Some ErrServerStopped), u1\<lparr>udpBase := v\<rparr>)
           | (True, v) \<Rightarrow>
               (case udp_read_loop [] (reads_on (udpConn u1) evs) (u1\<lparr>udpBase := v\<rparr>) of
                  (Blocked, u2) \<Rightarrow> (Blocked, u2)
                | (ServeReturned r, u2) \<Rightarrow> (ServeReturned r, u2\<lparr>udpBase := wg_Done (udpBase u2)\<rparr>))))"

definition udp_StartListener ::
    "(string \<Rightarrow> err + string) \<Rightarrow> (string \<Rightarrow> err + net_listener) \<Rightarrow> udp_server
      \<Rightarrow> err option \<times> bool \<times> udp_server" where
  "udp_StartListener resolve bind u = (case udp_Listen resolve bind u of
     (Some e, u') \<Rightarrow> (Some e, False, u') | (None, u') \<Rightarrow> (None, True, u'))"

section \<open>Idle sessions and stopping\<close>

text \<open>\<^verbatim>\<open>reapIdle\<close>: the period of its ticker, \<open>None\<close> when it returns at once; and one tick.\<close>

definition reap_period :: "server_config \<Rightarrow> int option" where
  "reap_period config =
     (if ReadTimeout config \<le> 0 then None
      else Some (max (ReadTimeout config div 4) (10 * Millisecond)))"

definition is_idle :: "int \<Rightarrow> udp_server \<Rightarrow> session_ptr \<Rightarrow> bool" where
  "is_idle now u p \<longleftrightarrow> ReadTimeout (cfg (udpBase u)) < now - lastSeen (snd (udpSessions u ! p))"

text \<open>\<open>order\<close> is the order in which the range over the sessions visits them.\<close>

definition reap_one :: "int \<Rightarrow> session_ptr \<Rightarrow> udp_server \<Rightarrow> udp_server" where
  "reap_one now p u = (if is_idle now u p then udp_close_session DeadlineExceeded p u else u)"

definition reapIdle :: "int \<Rightarrow> session_ptr list \<Rightarrow> udp_server \<Rightarrow> udp_server" where
  "reapIdle now order u = fold (reap_one now) order u"

definition udp_StopListener :: "session_ptr list \<Rightarrow> udp_server \<Rightarrow> err option \<times> udp_server" where
  "udp_StopListener order u =
     (let u0 = u\<lparr>udpBase := log_at Info ''gophersocks: shutting down UDP server'' (udpBase u)\<rparr> in
      case stop_begin (udpBase u0) of (m, v) \<Rightarrow>
        (case udp_closeConn (u0\<lparr>udpBase := stop_cancel v\<rparr>) of (e, u1) \<Rightarrow>
           (e, fold (udp_close_session ErrServerStopped) order u1)))"

section \<open>The contracts\<close>

lemma udp_fields [simp]:
  "readMessage udpTransport = udp_readMessage" "writeMessages udpTransport = udp_writeMessages"
  "closeTransport udpTransport = udp_close"
  by (simp_all add: udpTransport_def)

lemma udp_write_ok:
  "udp_writeMessages ms t = (None, t') \<Longrightarrow> datagrams t' = datagrams t @ ms"
  by (induction ms t rule: udp_writeMessages.induct) (auto split: option.splits)

lemma udp_write_error:
  "udp_writeMessages ms t = (Some e, t') \<Longrightarrow> \<exists>p q. datagrams t' = datagrams t @ p \<and> ms = p @ q"
proof (induction ms t rule: udp_writeMessages.induct)
  case (2 m ms t)
  show ?case
  proof (cases "udpWrite t (udpWrites t) m")
    case None
    then obtain p q where "datagrams t' = (datagrams t @ [m]) @ p" "ms = p @ q"
      using 2 by auto
    then show ?thesis by (intro exI [of _ "m # p"] exI [of _ q]) simp
  next
    case (Some x)
    then have "datagrams t' = datagrams t" using 2(2) by auto
    then show ?thesis by simp
  qed
qed simp

interpretation udp_writer: writing_transport udpTransport "\<lambda>t. True" datagrams "\<lambda>t m. [m]"
  by unfold_locales (auto dest: udp_write_ok udp_write_error simp: udp_close_def)

definition udp_holds :: "bytes list \<Rightarrow> udp_transport \<Rightarrow> bool" where
  "udp_holds ms t \<longleftrightarrow> \<not> doneClosed t \<and> ms = inQ t @ arriving t"

interpretation udp_source: reading_transport udpTransport udp_holds "\<lambda>t. ErrSessionClosed"
  by unfold_locales (auto simp: udp_holds_def udp_readMessage_def split: list.splits)

section \<open>The invariant of the read loop\<close>

definition live :: "'t \<times> session \<Rightarrow> bool" where
  "live ts \<longleftrightarrow> \<not> closeOnce (snd ts)"

definition udp_queue_ok :: "server_config \<Rightarrow> udp_transport \<times> session \<Rightarrow> bool" where
  "udp_queue_ok config ts \<longleftrightarrow> length (inQ (fst ts)) \<le> inCap (fst ts)
     \<and> inCap (fst ts) = nat (max (BufferSize config) 1)
     \<and> (\<forall>m \<in> set (inQ (fst ts)). m \<noteq> [] \<and> length m \<le> unat (MaxLength config))"

definition udp_inv :: "udp_server \<Rightarrow> bool" where
  "udp_inv u \<longleftrightarrow>
     (\<forall>a p. byAddr (udpBase u) a = Some p \<longrightarrow> p < length (udpSessions u)
        \<and> addr (snd (udpSessions u ! p)) = a \<and> live (udpSessions u ! p))
   \<and> (\<forall>ts \<in> set (udpSessions u). udp_queue_ok (cfg (udpBase u)) ts)
   \<and> active (udpBase u) = int (count_where live (udpSessions u))
   \<and> active (udpBase u) \<le> MaxConnections (cfg (udpBase u))"

lemma udp_enqueue_cfg [simp]: "cfg (udpBase (udp_enqueue p m now u)) = cfg (udpBase u)"
  by (simp add: udp_enqueue_def split: prod.splits)

lemma live_touch [simp]: "live (t, touch now s) = live (t', s)"
  by (simp add: live_def touch_def)

lemma count_update_same:
  "i < length xs \<Longrightarrow> P x = P (xs ! i) \<Longrightarrow> count_where P (xs[i := x]) = count_where P xs"
  using count_where_update [of i xs P x] by simp

lemma udp_enqueue_inv:
  assumes "udp_inv u" and "p < length (udpSessions u)" and "m \<noteq> []"
    and "length m \<le> unat (MaxLength (cfg (udpBase u)))"
  shows "udp_inv (udp_enqueue p m now u)"
proof -
  obtain t s where ts: "udpSessions u ! p = (t, s)" by (cases "udpSessions u ! p") auto
  have q: "udp_queue_ok (cfg (udpBase u)) (t, s)"
    using assms(1,2) ts nth_mem [of p "udpSessions u"] by (auto simp: udp_inv_def)
  let ?t = "if length (inQ t) < inCap t then t\<lparr>inQ := inQ t @ [m]\<rparr> else t"
  have sess: "udpSessions (udp_enqueue p m now u) = (udpSessions u)[p := (?t, touch now s)]"
    and base: "byAddr (udpBase (udp_enqueue p m now u)) = byAddr (udpBase u)"
      "active (udpBase (udp_enqueue p m now u)) = active (udpBase u)"
    by (auto simp: udp_enqueue_def ts)
  have "udp_queue_ok (cfg (udpBase u)) (?t, touch now s)"
    using q assms(3,4) by (auto simp: udp_queue_ok_def)
  moreover have "live (?t, touch now s) = live (udpSessions u ! p)" using ts by (simp add: live_def touch_def)
  moreover have "addr (touch now s) = addr (snd (udpSessions u ! p))" using ts by (simp add: touch_def)
  ultimately show ?thesis
    using assms(1,2) unfolding udp_inv_def sess base udp_enqueue_cfg
    by (auto simp: count_update_same nth_list_update dest!: set_update_subset_insert [THEN subsetD])
qed

lemma udp_open_some:
  assumes "udp_inv u" and "udp_open env c a uid now u = (Some p, u')"
  shows "udp_inv u'" and "p < length (udpSessions u')" and "cfg (udpBase u') = cfg (udpBase u)"
proof -
  have u': "active (udpBase u) < MaxConnections (cfg (udpBase u))" "p = length (udpSessions u)"
    "udpBase u' = (udpBase u)\<lparr>active := active (udpBase u) + 1, wg := wg (udpBase u) + 1,
      byAddr := (byAddr (udpBase u))(a \<mapsto> p)\<rparr>"
    "udpSessions u' = udpSessions u @ [(new_udp_transport env a (cfg (udpBase u)),
       newSession c a (cfg (udpBase u)) True uid now)]"
    using assms(2) by (auto simp: udp_open_def tryAdmit_eq enter_def add_def Let_def split: if_splits)
  then show "p < length (udpSessions u')" "cfg (udpBase u') = cfg (udpBase u)" by simp_all
  show "udp_inv u'"
    using assms(1) u' by (auto simp: udp_inv_def udp_queue_ok_def new_udp_transport_def live_def nth_append less_SucI
        split: if_splits)
qed

lemma udp_open_none:
  assumes "udp_inv u" and "udp_open env c a uid now u = (None, u')"
  shows "udp_inv u'" and "udpSessions u' = udpSessions u" and "cfg (udpBase u') = cfg (udpBase u)"
  using assms
  by (auto simp: udp_open_def udp_inv_def tryAdmit_eq enter_def release_def Let_def split: if_splits)

lemma udp_deliver_inv:
  assumes "udp_inv u" and "m \<noteq> []" and "length m \<le> unat (MaxLength (cfg (udpBase u)))"
  shows "udp_inv (udp_deliver env c a m uid now u)
    \<and> cfg (udpBase (udp_deliver env c a m uid now u)) = cfg (udpBase u)"
proof (cases "byAddr (udpBase u) a")
  case (Some p)
  then have "p < length (udpSessions u)" using assms(1) by (auto simp: udp_inv_def)
  then show ?thesis using udp_enqueue_inv assms Some by (simp add: udp_deliver_def)
next
  case None
  obtain r u' where o: "udp_open env c a uid now u = (r, u')" by (metis surj_pair)
  show ?thesis
  proof (cases r)
    case None
    then show ?thesis using \<open>byAddr (udpBase u) a = None\<close> o udp_open_none [OF assms(1)] by (simp add: udp_deliver_def)
  next
    case (Some p)
    then show ?thesis
      using \<open>byAddr (udpBase u) a = None\<close> o udp_open_some [OF assms(1)] udp_enqueue_inv [of u' p m now] assms(2,3)
      by (simp add: udp_deliver_def)
  qed
qed

lemma udp_ctx_lives [simp]: "udp_ctx_ends None mine u = u" "udp_ctx_ends c [] u = u"
  by (simp_all add: udp_ctx_ends_def split: option.split)

lemma udp_close_session_inv:
  assumes "udp_inv u" and "p < length (udpSessions u)"
  shows "udp_inv (udp_close_session e p u)
    \<and> cfg (udpBase (udp_close_session e p u)) = cfg (udpBase u)
    \<and> length (udpSessions (udp_close_session e p u)) = length (udpSessions u)"
proof -
  obtain t s where ts: "udpSessions u ! p = (t, s)" by (metis surj_pair)
  show ?thesis
  proof (cases "closeOnce s")
    case True
    then show ?thesis using assms(1) ts by (simp add: udp_close_session_def)
  next
    case False
    obtain t1 s1 where c: "closeWith udpTransport (Some e) (t, s) = (t1, s1)" by (metis surj_pair)
    have s1: "closeOnce s1" "addr s1 = addr s" "inQ t1 = inQ t" "inCap t1 = inCap t"
      using c False by (auto simp: closeWith_def runOnClose_def udp_close_def Let_def split: if_splits)
    let ?u = "udp_close_session e p u"
    have u: "udpSessions ?u = (udpSessions u)[p := (t1, s1)]"
      "byAddr (udpBase ?u) = byAddr (remove_entry (addr s) p (udpBase u))"
      "active (udpBase ?u) = active (udpBase u) - 1" "cfg (udpBase ?u) = cfg (udpBase u)"
      using ts False c by (simp_all add: udp_close_session_def remove_def)
    have lv: "live (udpSessions u ! p)" "\<not> live (t1, s1)" using ts False s1(1) by (simp_all add: live_def)
    have "int (count_where live ((udpSessions u)[p := (t1, s1)])) = int (count_where live (udpSessions u)) - 1"
      using count_where_update [OF assms(2), of live "(t1, s1)"] lv by simp
    moreover have "udp_queue_ok (cfg (udpBase u)) (t1, s1)"
      using assms ts s1 nth_mem [OF assms(2)] by (auto simp: udp_inv_def udp_queue_ok_def)
    moreover have "q < length (udpSessions ?u) \<and> addr (snd (udpSessions ?u ! q)) = a \<and> live (udpSessions ?u ! q)"
      if "byAddr (udpBase ?u) a = Some q" for a q
    proof -
      have q: "byAddr (udpBase u) a = Some q" "a = addr s \<longrightarrow> q \<noteq> p"
        using that u(2) by (simp_all add: remove_entry_lookup)
      then have "q < length (udpSessions u)" "addr (snd (udpSessions u ! q)) = a" "live (udpSessions u ! q)"
        using assms(1) by (auto simp: udp_inv_def)
      moreover have "q \<noteq> p" using q(2) \<open>addr (snd (udpSessions u ! q)) = a\<close> ts by auto
      ultimately show ?thesis using u(1) by simp
    qed
    ultimately show ?thesis
      using assms(1) unfolding udp_inv_def u
      by (auto dest!: set_update_subset_insert [THEN subsetD])
  qed
qed

lemma udp_ctx_ends_inv:
  assumes "udp_inv u" and "\<forall>p \<in> set mine. p < length (udpSessions u)"
  shows "udp_inv (udp_ctx_ends c mine u) \<and> cfg (udpBase (udp_ctx_ends c mine u)) = cfg (udpBase u)
    \<and> length (udpSessions (udp_ctx_ends c mine u)) = length (udpSessions u)"
proof (cases c)
  case (Some e)
  let ?P = "\<lambda>v. udp_inv v \<and> cfg (udpBase v) = cfg (udpBase u)
    \<and> length (udpSessions v) = length (udpSessions u)"
  have "?P (fold (udp_close_session e) mine u)"
    by (rule fold_invariant [where P = ?P and Q = "\<lambda>p. p < length (udpSessions u)"])
      (use assms udp_close_session_inv in auto)
  then show ?thesis using Some by (simp add: udp_ctx_ends_def)
qed (simp add: udp_ctx_ends_def assms)

lemma udp_deliver_grows: "length (udpSessions u) \<le> length (udpSessions (udp_deliver env c a m uid now u))"
  by (auto simp: udp_deliver_def udp_enqueue_def udp_open_def Let_def split: option.splits prod.splits bool.splits)

lemma udp_unblock_inv [simp]: "udp_inv (udp_unblock c u) = udp_inv u"
  by (simp add: udp_inv_def)

lemma udp_read_loop_inv:
  "udp_inv u \<Longrightarrow> \<forall>p \<in> set mine. p < length (udpSessions u) \<Longrightarrow> udp_read_loop mine evs u = (r, u') \<Longrightarrow>
    udp_inv u' \<and> cfg (udpBase u') = cfg (udpBase u)"
proof (induction mine evs u rule: udp_read_loop.induct)
  case (2 mine e c evs u)
  then show ?case
    using udp_ctx_ends_inv [of "udp_unblock c u" mine "cancel Canceled c"] udp_ctx_ends_inv [of u mine "cancel Canceled c"]
    by (auto split: if_splits)
next
  case (3 mine env a payload uid now c evs u)
  let ?buf = "take (udp_buffer (cfg (udpBase u))) payload"
  consider "length ?buf = 0" | "length ?buf \<noteq> 0" "unat (MaxLength (cfg (udpBase u))) < length ?buf"
    | "length ?buf \<noteq> 0" "\<not> unat (MaxLength (cfg (udpBase u))) < length ?buf"
    by blast
  then show ?case
  proof cases
    case 1
    then have "udp_read_loop mine evs u = (r, u')"
      using 3(6) by (simp only: udp_read_loop.simps Let_def if_True refl simp_thms)
    then show ?thesis by (rule 3(1) [OF refl 1 3(4,5)])
  next
    case 2
    let ?u = "u\<lparr>udpBase := log_at Warn ''gophersocks: dropping oversized datagram'' (udpBase u)\<rparr>"
    have "udp_inv ?u" "\<forall>p \<in> set mine. p < length (udpSessions ?u)"
      using 3(4,5) by (simp_all add: udp_inv_def)
    moreover have "udp_read_loop mine evs ?u = (r, u')"
      using 3(6) 2 by (simp only: udp_read_loop.simps Let_def if_True if_False)
    ultimately show ?thesis using 3(2) [OF refl 2] by simp
  next
    case 3
    note case3 = this
    let ?u = "udp_deliver env c a ?buf uid now u"
    let ?mine = "mine @ [length (udpSessions u)..<length (udpSessions ?u)]"
    have d: "udp_inv ?u \<and> cfg (udpBase ?u) = cfg (udpBase u)"
      using case3 by (intro udp_deliver_inv "3.prems"(1)) auto
    have m: "\<forall>p \<in> set ?mine. p < length (udpSessions ?u)"
      using "3.prems"(2) udp_deliver_grows [of u env c a ?buf uid now] by auto
    note e = udp_ctx_ends_inv [OF conjunct1 [OF d] m, of c]
    have "udp_read_loop ?mine evs (udp_ctx_ends c ?mine ?u) = (r, u')"
      using "3.prems"(3) case3 by (simp only: udp_read_loop.simps Let_def if_False)
    then show ?thesis using "3.IH"(3) [OF refl case3 refl refl] d e m by simp
  qed
qed simp

end
