(* ===== verification/UdpProps.thy ===== *)
theory UdpProps
  imports Udp
begin

text \<open>
  The UDP server: datagrams are delivered whole or not at all, sessions stay within the
  limits, silent sessions and only they are reaped, and a session yields and sends its
  messages in order.
\<close>

definition sample_env :: udp_transport where
  "sample_env = \<lparr>peerAddr = [], inQ = [], inCap = 0, doneClosed = False, udpCloseOnce = False,
     arriving = [[3]], preferDone = False, udpWrite = (\<lambda>_ _. None), udpWrites = 0, datagrams = []\<rparr>"

definition sample_udp :: udp_server where
  "sample_udp = \<lparr>udpBase = newServer None (WithMaxLength 4 defaultConfig), udpAddr = '':7'',
     udpConn = Some \<lparr>lnClosed = False, closeErr = None\<rparr>, udpSessions = []\<rparr>"

definition sample_udp2 :: udp_server where
  "sample_udp2 = udp_deliver sample_env None ''10.0.0.1:9'' [1, 2] ''u'' 0 sample_udp"

lemmas sample_udp_defs = sample_udp2_def sample_env_def sample_udp_def newServer_def WithMaxLength_def
  defaultConfig_def

lemma sample_udp_inv: "udp_inv sample_udp"
  by (simp add: udp_inv_def sample_udp_defs)

lemma sample_udp2_inv: "udp_inv sample_udp2"
  unfolding sample_udp2_def
  using udp_deliver_inv [OF sample_udp_inv, of "[1, 2]"] by (simp add: sample_udp_defs)

lemma sample_udp2_sessions:
  "udpSessions sample_udp2 = [(new_udp_transport sample_env ''10.0.0.1:9'' (WithMaxLength 4 defaultConfig)
      \<lparr>inQ := [[1, 2]]\<rparr>, touch 0 (newSession None ''10.0.0.1:9'' (WithMaxLength 4 defaultConfig) True ''u'' 0))]"
  by (simp add: sample_udp_defs udp_deliver_def udp_open_def tryAdmit_eq enter_def add_def udp_enqueue_def
      new_udp_transport_def Let_def)

section \<open>Datagrams\<close>

text \<open>
  C24. What the read loop does with one datagram, while Serve's context lives. An empty one is ignored.
  With MaxLength up to 65507, a longer datagram than MaxLength is dropped, and every other is
  handed over whole. With a larger MaxLength nothing is dropped for its length: up to 65508 bytes
  the payload is handed over whole, and a longer one, which IPv6 can carry, is cut at 65508 bytes.
\<close>

theorem udp_datagram_whole:
  "udp_read_loop mine [Arrives env a payload uid now None] u = (Blocked,
    if payload = [] then u
    else if unat (MaxLength (cfg (udpBase u))) \<le> maxUDPPayload \<and> unat (MaxLength (cfg (udpBase u))) < length payload
    then u\<lparr>udpBase := log_at Warn ''gophersocks: dropping oversized datagram'' (udpBase u)\<rparr>
    else udp_deliver env None a (take (Suc maxUDPPayload) payload) uid now u)
   \<and> (take (Suc maxUDPPayload) payload = payload \<longleftrightarrow> length payload \<le> Suc maxUDPPayload)"
proof (rule conjI)
  let ?max = "unat (MaxLength (cfg (udpBase u)))"
  let ?buf = "take (udp_buffer (cfg (udpBase u))) payload"
  have empty: "length ?buf = 0 \<longleftrightarrow> payload = []" by (cases payload) (simp_all add: udp_buffer_def)
  have over: "?max < length ?buf \<longleftrightarrow> ?max \<le> maxUDPPayload \<and> ?max < length payload"
    by (auto simp: udp_buffer_def)
  have kept: "?buf = take (Suc maxUDPPayload) payload" if "\<not> (?max \<le> maxUDPPayload \<and> ?max < length payload)"
    using that by (cases "?max \<le> maxUDPPayload") (auto simp: udp_buffer_def min_def)
  show "udp_read_loop mine [Arrives env a payload uid now None] u = (Blocked,
      if payload = [] then u
      else if ?max \<le> maxUDPPayload \<and> ?max < length payload
      then u\<lparr>udpBase := log_at Warn ''gophersocks: dropping oversized datagram'' (udpBase u)\<rparr>
      else udp_deliver env None a (take (Suc maxUDPPayload) payload) uid now u)"
    unfolding udp_read_loop.simps Let_def empty over using kept by simp
  show "take (Suc maxUDPPayload) payload = payload \<longleftrightarrow> length payload \<le> Suc maxUDPPayload"
    by (metis length_take min.cobounded2 take_all)
qed

lemma udp_datagram_examples:
  "udp_read_loop [] [Arrives sample_env ''a'' [1, 2, 3, 4, 5] ''u'' 0 None] sample_udp = (Blocked,
     sample_udp\<lparr>udpBase := log_at Warn ''gophersocks: dropping oversized datagram'' (udpBase sample_udp)\<rparr>)"
  "udp_read_loop [] [Arrives sample_env ''a'' [1, 2, 3, 4] ''u'' 0 None] sample_udp = (Blocked,
     udp_deliver sample_env None ''a'' [1, 2, 3, 4] ''u'' 0 sample_udp)"
  using udp_datagram_whole [of "[]" sample_env "''a''" "[1, 2, 3, 4, 5]" "''u''" 0 sample_udp]
    udp_datagram_whole [of "[]" sample_env "''a''" "[1, 2, 3, 4]" "''u''" 0 sample_udp]
  by (simp_all add: maxUDPPayload_def sample_udp_def newServer_def WithMaxLength_def)

text \<open>
  C23. Whatever arrives, a serving UDP server keeps at most MaxConnections open sessions, every
  session's queue within BufferSize, and in the queues only non-empty messages of at most
  MaxLength bytes; the sessions it finds by address are open and have that address.
\<close>

theorem udp_serve_limits:
  assumes "udp_inv u" and "udp_Serve resolve bind evs u = (r, u')"
  shows "int (count_where live (udpSessions u')) \<le> MaxConnections (cfg (udpBase u'))
    \<and> (\<forall>ts \<in> set (udpSessions u'). int (length (inQ (fst ts))) \<le> max (BufferSize (cfg (udpBase u'))) 1
        \<and> (\<forall>m \<in> set (inQ (fst ts)). m \<noteq> [] \<and> length m \<le> unat (MaxLength (cfg (udpBase u')))))
    \<and> (\<forall>a p. GetSession a (udpBase u') = Some p \<longrightarrow> addr (snd (udpSessions u' ! p)) = a
        \<and> live (udpSessions u' ! p))"
proof -
  have listen: "udp_inv u1" if "udp_Listen resolve bind u = (e, u1)" for e u1
    using that assms(1) by (auto simp: udp_Listen_def udp_inv_def split: option.splits sum.splits)
  have ent: "udp_inv (u1\<lparr>udpBase := v\<rparr>)" if "udp_inv u1" "enter (udpBase u1) = (b, v)" for u1 b v
    using that by (auto simp: enter_def udp_inv_def split: if_splits)
  have don: "udp_inv (u2\<lparr>udpBase := wg_Done (udpBase u2)\<rparr>)" if "udp_inv u2" for u2
    using that by (simp add: wg_Done_def udp_inv_def)
  have loop: "udp_inv u2" if "udp_inv v" "udp_read_loop [] es v = (b, u2)" for v es b u2
    using udp_read_loop_inv [of v "[]"] that by simp
  have "udp_inv u'"
    using assms(2) listen ent don loop
    by (auto simp: udp_Serve_def split: prod.splits option.splits bool.splits serve_result.splits) metis+
  then show ?thesis by (auto simp: udp_inv_def udp_queue_ok_def GetSession_def)
qed

theorem udp_serve_limits_witness:
  "\<exists>r u'. udp_Serve (\<lambda>a. Inr a) (\<lambda>_. Inl EOF) [Arrives sample_env ''a'' [1] ''u'' 0 None] sample_udp = (r, u')
    \<and> int (count_where live (udpSessions u')) \<le> MaxConnections (cfg (udpBase u'))"
proof -
  obtain r u' where s: "udp_Serve (\<lambda>a. Inr a) (\<lambda>_. Inl EOF) [Arrives sample_env ''a'' [1] ''u'' 0 None] sample_udp = (r, u')"
    by (metis surj_pair)
  from udp_serve_limits [OF sample_udp_inv s] s show ?thesis by blast
qed

section \<open>Reaping\<close>

lemma reap_one_effect:
  assumes "p < length (udpSessions u)"
  shows "udpSessions (reap_one now p u) = (udpSessions u)[p := (if is_idle now u p
      then closeWith udpTransport (Some DeadlineExceeded) (udpSessions u ! p) else udpSessions u ! p)]"
proof (cases "closeOnce (snd (udpSessions u ! p))")
  case True
  then have "closeWith udpTransport c (udpSessions u ! p) = udpSessions u ! p" for c
    by (cases "udpSessions u ! p") (simp add: closeWith_def)
  then show ?thesis
    using True list_update_id [of "udpSessions u" p]
    by (cases "udpSessions u ! p") (simp add: reap_one_def udp_close_session_def)
next
  case False
  then show ?thesis by (auto simp: reap_one_def udp_close_session_def split: prod.splits)
qed

lemma reap_one_cfg: "cfg (udpBase (reap_one now p u)) = cfg (udpBase u)"
  by (simp add: reap_one_def udp_close_session_def remove_def split: prod.splits)

lemma is_idle_reap:
  assumes "p < length (udpSessions u)"
  shows "is_idle now (reap_one now p u) q = is_idle now u q"
proof -
  have "lastSeen (snd (closeWith udpTransport (Some DeadlineExceeded) ts)) = lastSeen (snd ts)" for ts
    by (simp add: closeWith_def runOnClose_def Let_def split: prod.splits)
  then show ?thesis
    using assms by (cases "q = p") (simp_all add: is_idle_def reap_one_cfg reap_one_effect)
qed

text \<open>
  C35. A tick of the reaper closes, with DeadlineExceeded, exactly the sessions it visits that
  have been silent for longer than ReadTimeout, and touches no other session.
\<close>

theorem reap_exact:
  assumes "\<forall>q \<in> set order. q < length (udpSessions u)" and "p < length (udpSessions u)"
  shows "udpSessions (reapIdle now order u) ! p =
    (if p \<in> set order \<and> ReadTimeout (cfg (udpBase u)) < now - lastSeen (snd (udpSessions u ! p))
     then closeWith udpTransport (Some DeadlineExceeded) (udpSessions u ! p)
     else udpSessions u ! p)"
proof -
  have "udpSessions (reapIdle now order u) ! p =
      (if p \<in> set order \<and> is_idle now u p
       then closeWith udpTransport (Some DeadlineExceeded) (udpSessions u ! p) else udpSessions u ! p)"
    using assms
  proof (induction order arbitrary: u)
    case Nil
    then show ?case by (simp add: reapIdle_def)
  next
    case (Cons q order)
    then have q: "q < length (udpSessions u)" by simp
    have len: "length (udpSessions (reap_one now q u)) = length (udpSessions u)"
      by (simp add: reap_one_effect [OF q])
    have "udpSessions (reapIdle now (q # order) u) ! p = udpSessions (reapIdle now order (reap_one now q u)) ! p"
      by (simp add: reapIdle_def)
    also have "\<dots> = (if p \<in> set order \<and> is_idle now u p
        then closeWith udpTransport (Some DeadlineExceeded) (udpSessions (reap_one now q u) ! p)
        else udpSessions (reap_one now q u) ! p)"
      using Cons.IH [of "reap_one now q u"] Cons.prems len is_idle_reap [OF q] by simp
    also have "\<dots> = (if p \<in> set (q # order) \<and> is_idle now u p
        then closeWith udpTransport (Some DeadlineExceeded) (udpSessions u ! p) else udpSessions u ! p)"
      using q Cons.prems(2) by (cases "q = p") (auto simp: reap_one_effect closeWith_idem)
    finally show ?case .
  qed
  then show ?thesis by (simp add: is_idle_def)
qed

theorem reap_exact_witness:
  "udpSessions (reapIdle 30000000001 [0] sample_udp2) ! 0
    = closeWith udpTransport (Some DeadlineExceeded) (udpSessions sample_udp2 ! 0)"
proof -
  have "ReadTimeout (cfg (udpBase sample_udp2)) = 30000000000"
    using udp_deliver_inv [OF sample_udp_inv, of "[1, 2]"]
    by (simp add: sample_udp_defs Second_def)
  then show ?thesis
    using reap_exact [of "[0]" sample_udp2 0 30000000001] by (simp add: sample_udp2_sessions touch_def)
qed

section \<open>Messages\<close>

text \<open>
  A UDP session yields the datagrams queued for it and those that arrive while it waits,
  one message each and in order, and ends with ErrSessionClosed.
\<close>

theorem udp_yields_datagrams:
  assumes "\<not> doneClosed t" and "\<not> closeOnce s" and "length clocks = Suc (length (inQ t @ arriving t))"
  shows "\<exists>t' s'. Messages udpTransport (map (\<lambda>now. (now, True)) clocks) (t, s)
      = (inQ t @ arriving t, (t', s'), True) \<and> ctx s' = cancel ErrSessionClosed (ctx s)"
proof -
  have "udp_holds (inQ t @ arriving t) t" using assms(1) by (simp add: udp_holds_def)
  from udp_source.Messages_all [OF this assms(3,2)] show ?thesis by (auto simp: readCause_def)
qed

theorem udp_yields_datagrams_witness:
  "\<exists>t' s'. Messages udpTransport (map (\<lambda>now. (now, True)) [5, 6, 7]) (udpSessions sample_udp2 ! 0)
      = ([[1, 2], [3]], (t', s'), True)"
proof -
  obtain t s where ts: "udpSessions sample_udp2 ! 0 = (t, s)" "\<not> doneClosed t" "\<not> closeOnce s"
    "inQ t @ arriving t = [[1, 2], [3]]"
    by (simp add: sample_udp2_sessions new_udp_transport_def sample_env_def touch_def)
  then have "length [5, 6, 7 :: int] = Suc (length (inQ t @ arriving t))" by simp
  from udp_yields_datagrams [OF ts(2,3) this] ts(1,4) show ?thesis by auto
qed

end
