(* ===== verification/ServeAgain.thy ===== *)
theory ServeAgain
  imports TcpProps UdpProps
begin

text \<open>
  A TCP or UDP server after its Serve has returned because the context ended: the listener was closed
  with it and is never bound again, so the server serves no more, although it was not stopped.
\<close>

section \<open>Serve closes the listener when its context ends\<close>

definition ln_shut :: "net_listener option \<Rightarrow> bool" where
  "ln_shut ln \<longleftrightarrow> (\<exists>l. ln = Some l \<and> lnClosed l)"

lemma close_once_shut: "close_once ln = (e, ln') \<Longrightarrow> ln \<noteq> None \<Longrightarrow> ln_shut ln'"
  using close_once_closed [of ln]
  by (auto simp: ln_shut_def close_once_def split: option.splits prod.splits)

lemma tcp_unblock_shut: "tcpLn t \<noteq> None \<Longrightarrow> ln_shut (tcpLn (tcp_unblock (Some c) t))"
  by (auto simp: tcp_unblock_def tcp_closeListener_def dest: close_once_shut split: prod.splits)

lemma udp_unblock_shut: "udpConn u \<noteq> None \<Longrightarrow> ln_shut (udpConn (udp_unblock (Some c) u))"
  by (auto simp: udp_unblock_def udp_closeConn_def dest: close_once_shut split: prod.splits)

lemma tcp_accept_keeps:
  "tcpLn (tcp_accept c conn uid now t) = tcpLn t"
  "stopped (tcpBase (tcp_accept c conn uid now t)) = stopped (tcpBase t)"
  by (auto simp: tcp_accept_def tcp_refuse_def tryAdmit_eq enter_def add_def release_def Let_def split: if_splits)

lemma tcp_loop_ctx_ends:
  assumes "\<forall>ev \<in> set pre. goes_on ev" and "tcpLn t \<noteq> None"
    and "tcp_accept_loop mine (pre @ AcceptFailed e (Some c) # post) t = (r, t')"
  shows "r = ServeReturned None \<and> ln_shut (tcpLn t') \<and> stopped (tcpBase t') = stopped (tcpBase t)"
  using assms
proof (induction pre arbitrary: mine t)
  case Nil
  then show ?case using tcp_unblock_shut [of t c] by auto
next
  case (Cons ev pre)
  show ?case
  proof (cases ev)
    case (Accepted conn uid now c')
    let ?t = "tcp_accept c' conn uid now t"
    let ?mine = "mine @ [length (tcpSessions t)..<length (tcpSessions ?t)]"
    show ?thesis
      using Cons.IH [of "tcp_ctx_ends c' ?mine ?t" ?mine] Cons.prems Accepted by (auto simp: tcp_accept_keeps Let_def)
  next
    case (AcceptFailed e' c')
    then show ?thesis using Cons.IH [of "t\<lparr>tcpSlept := tcpSlept t + acceptRetryDelay\<rparr>"] Cons.prems by simp
  qed
qed

lemma udp_close_session_keeps:
  "udpConn (udp_close_session e p u) = udpConn u"
  "stopped (udpBase (udp_close_session e p u)) = stopped (udpBase u)"
  by (simp_all add: udp_close_session_def remove_def split: prod.split)

lemma udp_ctx_ends_keeps:
  "udpConn (udp_ctx_ends c mine u) = udpConn u"
  "stopped (udpBase (udp_ctx_ends c mine u)) = stopped (udpBase u)"
proof -
  let ?P = "\<lambda>v. udpConn v = udpConn u \<and> stopped (udpBase v) = stopped (udpBase u)"
  have "?P (fold (udp_close_session e) mine u)" for e
    by (rule fold_invariant [where P = ?P and Q = "\<lambda>_. True"]) (auto simp: udp_close_session_keeps)
  then have "?P (udp_ctx_ends c mine u)" by (cases c) (simp_all add: udp_ctx_ends_def)
  then show "udpConn (udp_ctx_ends c mine u) = udpConn u"
    "stopped (udpBase (udp_ctx_ends c mine u)) = stopped (udpBase u)" by simp_all
qed

lemma udp_deliver_keeps:
  "udpConn (udp_deliver env c a m uid now u) = udpConn u"
  "stopped (udpBase (udp_deliver env c a m uid now u)) = stopped (udpBase u)"
  by (auto simp: udp_deliver_def udp_enqueue_def udp_open_def tryAdmit_eq enter_def add_def release_def Let_def
      split: option.splits prod.splits if_splits)

definition arrives :: "udp_event \<Rightarrow> bool" where
  "arrives ev \<longleftrightarrow> (case ev of Arrives env a payload uid now c \<Rightarrow> True | ReadFails e c \<Rightarrow> False)"

lemma udp_loop_ctx_ends:
  "\<forall>ev \<in> set pre. arrives ev \<Longrightarrow> udpConn u \<noteq> None \<Longrightarrow>
    udp_read_loop mine (pre @ ReadFails e (Some c) # post) u = (r, u') \<Longrightarrow>
    r = ServeReturned None \<and> ln_shut (udpConn u') \<and> stopped (udpBase u') = stopped (udpBase u)"
proof (induction pre arbitrary: mine u)
  case Nil
  then show ?case using udp_unblock_shut [of u c] by (auto simp: udp_ctx_ends_keeps)
next
  case (Cons ev pre)
  obtain env a payload uid now c' where ev: "ev = Arrives env a payload uid now c'"
    using Cons.prems(1) by (cases ev) (simp_all add: arrives_def)
  have pre: "\<forall>ev \<in> set pre. arrives ev" using Cons.prems(1) by simp
  obtain mine' v where v: "udp_read_loop mine' (pre @ ReadFails e (Some c) # post) v = (r, u')"
    "udpConn v = udpConn u" "stopped (udpBase v) = stopped (udpBase u)"
    using Cons.prems(3) unfolding ev append_Cons udp_read_loop.simps Let_def
    by (auto simp: udp_deliver_keeps udp_ctx_ends_keeps split: if_splits)
  then show ?case using Cons.IH [OF pre _ v(1)] Cons.prems(2) by simp
qed

section \<open>Serving again\<close>

lemma tcp_Serve_shut:
  assumes "ln_shut (tcpLn t)" and "\<not> stopped (tcpBase t)"
  shows "\<exists>t'. tcp_Serve bind evs t = (ServeReturned None, t') \<and> tcpSessions t' = tcpSessions t"
  using assms
  by (auto simp: tcp_Serve_def tcp_Listen_def ln_shut_def enter_def accepts_on_def already_closed_def wg_Done_def)

lemma udp_Serve_shut:
  assumes "ln_shut (udpConn u)" and "\<not> stopped (udpBase u)"
  shows "\<exists>u'. udp_Serve resolve bind evs u = (ServeReturned None, u') \<and> udpSessions u' = udpSessions u"
  using assms
  by (auto simp: udp_Serve_def udp_Listen_def ln_shut_def enter_def reads_on_def already_closed_def wg_Done_def)

text \<open>
  C22. When the context given to Serve ends, Serve returns nil, and that is the end of the server, though
  nobody called StopListener: its listener is closed and kept, so every later Serve, whatever its
  context and whoever connects, returns nil at once and opens no session. This holds for TCP
  and for UDP.
\<close>

theorem serve_cannot_resume:
  assumes "tcpLn t = Some l" and "\<not> lnClosed l" and "\<not> stopped (tcpBase t)"
    and "\<forall>ev \<in> set pre. goes_on ev"
    and "tcp_Serve bind (pre @ AcceptFailed e (Some c) # post) t = (r, t')"
    and "udpConn u = Some ul" and "\<not> lnClosed ul" and "\<not> stopped (udpBase u)"
    and "\<forall>ev \<in> set upre. arrives ev"
    and "udp_Serve resolve ubind (upre @ ReadFails ue (Some uc) # upost) u = (ur, u')"
  shows "r = ServeReturned None \<and> \<not> stopped (tcpBase t') \<and> ur = ServeReturned None \<and> \<not> stopped (udpBase u')
    \<and> (\<forall>bind' evs'. \<exists>t''. tcp_Serve bind' evs' t' = (ServeReturned None, t'') \<and> tcpSessions t'' = tcpSessions t')
    \<and> (\<forall>resolve' bind' evs'. \<exists>u''. udp_Serve resolve' bind' evs' u' = (ServeReturned None, u'')
          \<and> udpSessions u'' = udpSessions u')"
proof -
  let ?v = "t\<lparr>tcpBase := snd (enter (tcpBase t))\<rparr>" and ?w = "u\<lparr>udpBase := snd (enter (udpBase u))\<rparr>"
  obtain r1 t2 where l1: "tcp_accept_loop [] (pre @ AcceptFailed e (Some c) # post) ?v = (r1, t2)" by (metis surj_pair)
  have e1: "tcpLn ?v \<noteq> None" "\<not> stopped (tcpBase ?v)" using assms(1,3) by (simp_all add: enter_def)
  note end1 = tcp_loop_ctx_ends [OF assms(4) e1(1) l1]
  have t': "r = ServeReturned None" "t' = t2\<lparr>tcpBase := wg_Done (tcpBase t2)\<rparr>"
    using assms(1,2,3,5) l1 end1 by (auto simp: tcp_Serve_def tcp_Listen_def accepts_on_def enter_def)
  then have T: "ln_shut (tcpLn t')" "\<not> stopped (tcpBase t')" using end1 e1(2) by (simp_all add: wg_Done_def)
  obtain r2 u2 where l2: "udp_read_loop [] (upre @ ReadFails ue (Some uc) # upost) ?w = (r2, u2)" by (metis surj_pair)
  have e2: "udpConn ?w \<noteq> None" "\<not> stopped (udpBase ?w)" using assms(6,8) by (simp_all add: enter_def)
  note end2 = udp_loop_ctx_ends [OF assms(9) e2(1) l2]
  have u': "ur = ServeReturned None" "u' = u2\<lparr>udpBase := wg_Done (udpBase u2)\<rparr>"
    using assms(6,7,8,10) l2 end2 by (auto simp: udp_Serve_def udp_Listen_def reads_on_def enter_def)
  then have U: "ln_shut (udpConn u')" "\<not> stopped (udpBase u')" using end2 e2(2) by (simp_all add: wg_Done_def)
  show ?thesis using t'(1) u'(1) T U tcp_Serve_shut udp_Serve_shut by blast
qed

theorem serve_cannot_resume_witness:
  "\<exists>r t'. tcp_Serve (\<lambda>_. Inl EOF) [Accepted sample_conn ''u'' 0 None, AcceptFailed NetErrClosed (Some Canceled)]
      sample_tcp = (r, t')
    \<and> fst (tcp_Serve (\<lambda>_. Inl EOF) [Accepted sample_conn ''v'' 1 None] t') = ServeReturned None"
proof -
  let ?ln = "\<lparr>lnClosed = False, closeErr = None\<rparr>" and ?u = "sample_udp\<lparr>udpConn := Some \<lparr>lnClosed = False, closeErr = None\<rparr>\<rparr>"
  obtain r t' where t: "tcp_Serve (\<lambda>_. Inl EOF) ([Accepted sample_conn ''u'' 0 None] @
      AcceptFailed NetErrClosed (Some Canceled) # []) sample_tcp = (r, t')" by (metis surj_pair)
  obtain ur u' where u: "udp_Serve Inr (\<lambda>_. Inl EOF) ([] @ ReadFails NetErrClosed (Some Canceled) # []) ?u = (ur, u')"
    by (metis surj_pair)
  have s: "tcpLn sample_tcp = Some ?ln" "\<not> stopped (tcpBase sample_tcp)" "\<not> stopped (udpBase ?u)"
    by (simp_all add: sample_tcp_def sample_udp_def newServer_def)
  note again = serve_cannot_resume [OF s(1) _ s(2) _ t _ _ s(3) _ u, of ?ln]
  have "\<exists>t''. tcp_Serve (\<lambda>_. Inl EOF) [Accepted sample_conn ''v'' 1 None] t' = (ServeReturned None, t'')"
    using again by simp blast
  then show ?thesis using t by auto
qed

end
