(* ===== verification/SessionMachine.thy ===== *)
theory SessionMachine
  imports Session
begin

text \<open>
  The goroutines around one session, interleaved: any number of \<^verbatim>\<open>SendToClient\<close> callers, the
  \<^verbatim>\<open>writeLoop\<close>, the \<^verbatim>\<open>pumpData\<close> goroutine with its consumer, callers of \<^verbatim>\<open>closeWith\<close>, and
  the parent context with the \<^verbatim>\<open>context.AfterFunc\<close> that closes the session when it ends.
  \<^verbatim>\<open>closeOnce\<close> is not atomic: its three effects are three steps, and other callers wait.
  The fields from \<open>accepted\<close> on are history the code does not keep.
\<close>

section \<open>States\<close>

datatype close_phase =
    Open | Unregistering err | ClosingTransport err | Cancelling err | Closed err

datatype sender =
    SIdle | SCheckCtx bytes | SReady bytes | SWaiting bytes | SClosing bytes
  | SDone bytes "err option"

datatype writer = WIdle | WFilling "bytes list" | WWriting "bytes list" | WClosing err | WStopped

datatype pump = PNotStarted | PReading | PSending bytes | PClosing err | PEnded

datatype effect = OnClose | TransportClose err | CancelCtx err

record sys =
  sess :: session
  phase :: close_phase
  senders :: "nat \<Rightarrow> sender"
  writer :: writer
  pump :: pump
  dataQ :: "bytes list"
  dataClosed :: bool
  accepted :: "bytes list"
  written :: "bytes list"
  lost :: "bytes list"
  effects :: "effect list"
  received :: "bytes list"
  consumed :: "bytes list"
  dropped :: "bytes list"
  parentEnded :: bool

definition sess_init :: "sys \<Rightarrow> bool" where
  "sess_init s \<longleftrightarrow>
     (\<exists>p a cfg oc uid now. s =
        \<lparr>sess = newSession p a cfg oc uid now, phase = Open, senders = (\<lambda>_. SIdle), writer = WIdle,
         pump = PNotStarted, dataQ = [], dataClosed = False, accepted = [], written = [], lost = [],
         effects = [], received = [], consumed = [], dropped = [], parentEnded = (p \<noteq> None)\<rparr>)"

section \<open>Steps\<close>

definition set_sender :: "nat \<Rightarrow> sender \<Rightarrow> sys \<Rightarrow> sys" where
  "set_sender i p s = s\<lparr>senders := (senders s)(i := p)\<rparr>"

definition enqueue :: "bytes \<Rightarrow> sys \<Rightarrow> sys" where
  "enqueue d s = s\<lparr>sess := (sess s)\<lparr>out := out (sess s) @ [d]\<rparr>, accepted := accepted s @ [d]\<rparr>"

text \<open>Winning the \<^verbatim>\<open>sync.Once\<close>; the other phases are the body's three calls.\<close>

definition begin_close :: "err option \<Rightarrow> sys \<Rightarrow> sys" where
  "begin_close cause s =
     s\<lparr>sess := (sess s)\<lparr>closeOnce := True\<rparr>, phase := Unregistering (close_cause cause)\<rparr>"

definition do_unregister :: "err \<Rightarrow> sys \<Rightarrow> sys" where
  "do_unregister c s = s\<lparr>sess := runOnClose (sess s), phase := ClosingTransport c,
     effects := effects s @ (if hasOnClose (sess s) then [OnClose] else [])\<rparr>"

definition do_transport_close :: "err \<Rightarrow> sys \<Rightarrow> sys" where
  "do_transport_close c s = s\<lparr>phase := Cancelling c, effects := effects s @ [TransportClose c]\<rparr>"

definition do_cancel :: "err \<Rightarrow> sys \<Rightarrow> sys" where
  "do_cancel c s = s\<lparr>sess := (sess s)\<lparr>ctx := cancel c (ctx (sess s))\<rparr>, phase := Closed c,
     effects := effects s @ [CancelCtx c]\<rparr>"

datatype label =
    LCall nat bytes | LCheck nat | LTry nat | LWaitPut nat | LWaitDone nat | LTimeout nat
  | LSlowClose nat | LSlowReturn nat
  | LClose "err option" | LParent err | LAfterFunc | LUnregister | LTransportClose | LCancel
  | LWStop | LWTake | LWFill | LWFilled | LWOk | LWErr err nat | LWClose | LWClosed
  | LData | LRead bytes int | LReadErr err | LPush | LPumpStop | LPumpClose | LPumpClosed | LConsume

inductive sess_step :: "sys \<Rightarrow> label \<Rightarrow> sys \<Rightarrow> bool" where
  \<comment> \<open>\<^verbatim>\<open>SendToClient\<close> and \<^verbatim>\<open>waitToSend\<close>\<close>
  call_large: "senders s i = SIdle \<or> senders s i = SDone d' res \<Longrightarrow> maxLen (sess s) < int (length d) \<Longrightarrow>
    sess_step s (LCall i d) (set_sender i (SDone d (Some too_large_error)) s)"
| call: "senders s i = SIdle \<or> senders s i = SDone d' res \<Longrightarrow> \<not> maxLen (sess s) < int (length d) \<Longrightarrow>
    sess_step s (LCall i d) (set_sender i (SCheckCtx d) s)"
| check_done: "senders s i = SCheckCtx d \<Longrightarrow> ctx (sess s) = Some c \<Longrightarrow>
    sess_step s (LCheck i) (set_sender i (SDone d (Some (closed_error c))) s)"
| check_live: "senders s i = SCheckCtx d \<Longrightarrow> ctx (sess s) = None \<Longrightarrow>
    sess_step s (LCheck i) (set_sender i (SReady d) s)"
| try_put: "senders s i = SReady d \<Longrightarrow> length (out (sess s)) < outCap (sess s) \<Longrightarrow>
    sess_step s (LTry i) (set_sender i (SDone d None) (enqueue d s))"
| try_full: "senders s i = SReady d \<Longrightarrow> \<not> length (out (sess s)) < outCap (sess s) \<Longrightarrow>
    sess_step s (LTry i) (set_sender i (SWaiting d) s)"
| wait_put: "senders s i = SWaiting d \<Longrightarrow> length (out (sess s)) < outCap (sess s) \<Longrightarrow>
    sess_step s (LWaitPut i) (set_sender i (SDone d None) (enqueue d s))"
| wait_done: "senders s i = SWaiting d \<Longrightarrow> ctx (sess s) = Some c \<Longrightarrow>
    sess_step s (LWaitDone i) (set_sender i (SDone d (Some (closed_error c))) s)"
| wait_timeout: "senders s i = SWaiting d \<Longrightarrow> 0 < sendWait (sess s) \<Longrightarrow>
    sess_step s (LTimeout i) (set_sender i (SClosing d) s)"
| slow_close: "senders s i = SClosing d \<Longrightarrow> phase s = Open \<Longrightarrow>
    sess_step s (LSlowClose i) (begin_close (Some ErrSlowConsumer) s)"
| slow_return: "senders s i = SClosing d \<Longrightarrow> phase s = Closed c \<Longrightarrow>
    sess_step s (LSlowReturn i) (set_sender i (SDone d (Some ErrSlowConsumer)) s)"
  \<comment> \<open>\<^verbatim>\<open>closeWith\<close> and the contexts\<close>
| close_call: "phase s = Open \<Longrightarrow> sess_step s (LClose cause) (begin_close cause s)"
| unregister: "phase s = Unregistering c \<Longrightarrow> sess_step s LUnregister (do_unregister c s)"
| transport_close: "phase s = ClosingTransport c \<Longrightarrow>
    sess_step s LTransportClose (do_transport_close c s)"
| cancel_ctx: "phase s = Cancelling c \<Longrightarrow> sess_step s LCancel (do_cancel c s)"
| parent: "ctx (sess s) = None \<Longrightarrow>
    sess_step s (LParent c) (s\<lparr>sess := (sess s)\<lparr>ctx := Some c\<rparr>, parentEnded := True\<rparr>)"
| after_func: "ctx (sess s) = Some c \<Longrightarrow> phase s = Open \<Longrightarrow>
    sess_step s LAfterFunc (begin_close (Some c) s)"
  \<comment> \<open>\<^verbatim>\<open>writeLoop\<close> and \<^verbatim>\<open>fillBatch\<close>\<close>
| w_stop: "writer s = WIdle \<Longrightarrow> ctx (sess s) = Some c \<Longrightarrow>
    sess_step s LWStop (s\<lparr>writer := WStopped\<rparr>)"
| w_take: "writer s = WIdle \<Longrightarrow> out (sess s) = m # q \<Longrightarrow>
    sess_step s LWTake (s\<lparr>writer := WFilling [m], sess := (sess s)\<lparr>out := q\<rparr>\<rparr>)"
| w_fill: "writer s = WFilling b \<Longrightarrow> length b < maxBatch \<Longrightarrow> out (sess s) = m # q \<Longrightarrow>
    sess_step s LWFill (s\<lparr>writer := WFilling (b @ [m]), sess := (sess s)\<lparr>out := q\<rparr>\<rparr>)"
| w_filled: "writer s = WFilling b \<Longrightarrow> \<not> length b < maxBatch \<or> out (sess s) = [] \<Longrightarrow>
    sess_step s LWFilled (s\<lparr>writer := WWriting b\<rparr>)"
| w_ok: "writer s = WWriting b \<Longrightarrow>
    sess_step s LWOk (s\<lparr>writer := WIdle, written := written s @ b\<rparr>)"
| w_err: "writer s = WWriting b \<Longrightarrow>
    sess_step s (LWErr e k)
      (s\<lparr>writer := WClosing e, written := written s @ take k b, lost := drop k b\<rparr>)"
| w_close: "writer s = WClosing e \<Longrightarrow> phase s = Open \<Longrightarrow>
    sess_step s LWClose (begin_close (Some e) s)"
| w_closed: "writer s = WClosing e \<Longrightarrow> phase s = Closed c \<Longrightarrow>
    sess_step s LWClosed (s\<lparr>writer := WStopped\<rparr>)"
  \<comment> \<open>\<^verbatim>\<open>Data\<close>, \<^verbatim>\<open>pumpData\<close> and the consumer of the channel\<close>
| data_call: "pump s = PNotStarted \<Longrightarrow>
    sess_step s LData (s\<lparr>pump := PReading, sess := (sess s)\<lparr>dataOnce := True\<rparr>\<rparr>)"
| p_read: "pump s = PReading \<Longrightarrow>
    sess_step s (LRead m now)
      (s\<lparr>pump := PSending m, sess := touch now (sess s), received := received s @ [m]\<rparr>)"
| p_read_err: "pump s = PReading \<Longrightarrow>
    sess_step s (LReadErr e) (s\<lparr>pump := PClosing (readCause e)\<rparr>)"
| p_push: "pump s = PSending m \<Longrightarrow> int (length (dataQ s)) < bufSize (sess s) \<Longrightarrow>
    sess_step s LPush (s\<lparr>pump := PReading, dataQ := dataQ s @ [m]\<rparr>)"
| p_stop: "pump s = PSending m \<Longrightarrow> ctx (sess s) = Some c \<Longrightarrow>
    sess_step s LPumpStop (s\<lparr>pump := PEnded, dataClosed := True, dropped := [m]\<rparr>)"
| p_close: "pump s = PClosing e \<Longrightarrow> phase s = Open \<Longrightarrow>
    sess_step s LPumpClose (begin_close (Some e) s)"
| p_closed: "pump s = PClosing e \<Longrightarrow> phase s = Closed c \<Longrightarrow>
    sess_step s LPumpClosed (s\<lparr>pump := PEnded, dataClosed := True\<rparr>)"
| consume: "dataQ s = m # q \<Longrightarrow>
    sess_step s LConsume (s\<lparr>dataQ := q, consumed := consumed s @ [m]\<rparr>)"

lemmas sys_ops [step_ops] = set_sender_def enqueue_def begin_close_def do_unregister_def
  do_transport_close_def do_cancel_def runOnClose_def touch_def

inductive_cases wait_doneE: "sess_step s (LWaitDone i) t"
inductive_cases pushE: "sess_step s LPush t"
inductive_simps close_call_simps: "sess_step s (LClose cause) t"

section \<open>The invariant\<close>

fun in_flight :: "writer \<Rightarrow> bytes list" where
  "in_flight (WFilling b) = b"
| "in_flight (WWriting b) = b"
| "in_flight _ = []"

fun pending :: "pump \<Rightarrow> bytes list" where
  "pending (PSending m) = [m]"
| "pending _ = []"

fun sender_data :: "sender \<Rightarrow> bytes option" where
  "sender_data (SCheckCtx d) = Some d"
| "sender_data (SReady d) = Some d"
| "sender_data (SWaiting d) = Some d"
| "sender_data (SClosing d) = Some d"
| "sender_data _ = None"

fun expected_effects :: "bool \<Rightarrow> close_phase \<Rightarrow> effect list" where
  "expected_effects h Open = []"
| "expected_effects h (Unregistering c) = []"
| "expected_effects h (ClosingTransport c) = (if h then [OnClose] else [])"
| "expected_effects h (Cancelling c) = (if h then [OnClose] else []) @ [TransportClose c]"
| "expected_effects h (Closed c) = (if h then [OnClose] else []) @ [TransportClose c, CancelCtx c]"

fun unregistered :: "close_phase \<Rightarrow> bool" where
  "unregistered Open = False"
| "unregistered (Unregistering c) = False"
| "unregistered _ = True"

fun closed_with :: "close_phase \<Rightarrow> err option" where
  "closed_with (Closed c) = Some c"
| "closed_with _ = None"

text \<open>Four groups: the send path, the close path, the context, the receive path.\<close>

definition queue_inv :: "sys \<Rightarrow> bool" where
  "queue_inv s \<longleftrightarrow>
     length (out (sess s)) \<le> outCap (sess s)
   \<and> accepted s = written s @ lost s @ in_flight (writer s) @ out (sess s)
   \<and> (lost s \<noteq> [] \<longrightarrow> writer s = WStopped \<or> (\<exists>e. writer s = WClosing e))
   \<and> length (in_flight (writer s)) \<le> maxBatch
   \<and> (\<forall>b. writer s = WFilling b \<or> writer s = WWriting b \<longrightarrow> b \<noteq> [])"

definition sender_inv :: "sys \<Rightarrow> bool" where
  "sender_inv s \<longleftrightarrow>
     (\<forall>m \<in> set (accepted s). int (length m) \<le> maxLen (sess s))
   \<and> (\<forall>i d. sender_data (senders s i) = Some d \<longrightarrow> int (length d) \<le> maxLen (sess s))
   \<and> (\<forall>i d. senders s i = SDone d None \<longrightarrow> d \<in> set (accepted s))"

definition close_inv :: "sys \<Rightarrow> bool" where
  "close_inv s \<longleftrightarrow>
     effects s = expected_effects (hasOnClose (sess s)) (phase s)
   \<and> (closeOnce (sess s) \<longleftrightarrow> phase s \<noteq> Open)
   \<and> onCloseCalls (sess s) = (if hasOnClose (sess s) \<and> unregistered (phase s) then 1 else 0)"

definition ctx_inv :: "sys \<Rightarrow> bool" where
  "ctx_inv s \<longleftrightarrow>
     (\<not> parentEnded s \<longrightarrow> ctx (sess s) = closed_with (phase s))
   \<and> (parentEnded s \<longrightarrow> ctx (sess s) \<noteq> None)
   \<and> (writer s = WStopped \<longrightarrow> ctx (sess s) \<noteq> None)"

definition recv_inv :: "sys \<Rightarrow> bool" where
  "recv_inv s \<longleftrightarrow>
     received s = consumed s @ dataQ s @ pending (pump s) @ dropped s
   \<and> int (length (dataQ s)) \<le> bufSize (sess s)
   \<and> (dataClosed s \<longleftrightarrow> pump s = PEnded)
   \<and> (dropped s \<noteq> [] \<longrightarrow> pump s = PEnded \<and> ctx (sess s) \<noteq> None)
   \<and> length (dropped s) \<le> 1
   \<and> (dataOnce (sess s) \<longleftrightarrow> pump s \<noteq> PNotStarted)"

definition sess_inv :: "sys \<Rightarrow> bool" where
  "sess_inv s \<longleftrightarrow> queue_inv s \<and> sender_inv s \<and> close_inv s \<and> ctx_inv s \<and> recv_inv s"

lemma sess_inv_init: "sess_init s \<Longrightarrow> sess_inv s"
  by (auto simp: sess_inv_def sess_init_def queue_inv_def sender_inv_def close_inv_def ctx_inv_def
      recv_inv_def)

lemma maxBatch_pos [simp]: "Suc 0 \<le> maxBatch"
  by (simp add: maxBatch_def)

lemma queue_inv_step: "sess_step s l t \<Longrightarrow> queue_inv s \<Longrightarrow> queue_inv t"
  by (induction rule: sess_step.induct) (auto simp: queue_inv_def step_ops)

lemma sender_inv_frame [simp]:
  "sender_inv (s\<lparr>phase := a\<rparr>) = sender_inv s" "sender_inv (s\<lparr>writer := b\<rparr>) = sender_inv s"
  "sender_inv (s\<lparr>pump := c\<rparr>) = sender_inv s" "sender_inv (s\<lparr>dataQ := q\<rparr>) = sender_inv s"
  "sender_inv (s\<lparr>dataClosed := d\<rparr>) = sender_inv s" "sender_inv (s\<lparr>written := q\<rparr>) = sender_inv s"
  "sender_inv (s\<lparr>lost := q\<rparr>) = sender_inv s" "sender_inv (s\<lparr>effects := e\<rparr>) = sender_inv s"
  "sender_inv (s\<lparr>received := q\<rparr>) = sender_inv s" "sender_inv (s\<lparr>consumed := q\<rparr>) = sender_inv s"
  "sender_inv (s\<lparr>dropped := q\<rparr>) = sender_inv s" "sender_inv (s\<lparr>parentEnded := d\<rparr>) = sender_inv s"
  "maxLen x = maxLen (sess s) \<Longrightarrow> sender_inv (s\<lparr>sess := x\<rparr>) = sender_inv s"
  by (simp_all add: sender_inv_def)

lemma sender_inv_set:
  "sender_inv s \<Longrightarrow> (\<And>d. sender_data p = Some d \<Longrightarrow> int (length d) \<le> maxLen (sess s)) \<Longrightarrow>
    (\<And>d. p = SDone d None \<Longrightarrow> d \<in> set (accepted s)) \<Longrightarrow> sender_inv (set_sender i p s)"
  by (auto simp: sender_inv_def set_sender_def)

lemma sender_inv_enqueue:
  "sender_inv s \<Longrightarrow> int (length d) \<le> maxLen (sess s) \<Longrightarrow> sender_inv (enqueue d s)"
  by (auto simp: sender_inv_def enqueue_def)

lemma sender_inv_data:
  "senders s i = SCheckCtx d \<Longrightarrow> sender_inv s \<Longrightarrow> int (length d) \<le> maxLen (sess s)"
  "senders s i = SReady d \<Longrightarrow> sender_inv s \<Longrightarrow> int (length d) \<le> maxLen (sess s)"
  "senders s i = SWaiting d \<Longrightarrow> sender_inv s \<Longrightarrow> int (length d) \<le> maxLen (sess s)"
  by (auto simp: sender_inv_def) (metis sender_data.simps)+

lemma enqueue_fields [simp]:
  "maxLen (sess (enqueue d s)) = maxLen (sess s)" "d \<in> set (accepted (enqueue d s))"
  by (simp_all add: enqueue_def)

lemma sender_inv_step: "sess_step s l t \<Longrightarrow> sender_inv s \<Longrightarrow> sender_inv t"
proof (induction rule: sess_step.induct)
  case (try_put s i d)
  then show ?case by (auto intro!: sender_inv_set sender_inv_enqueue dest: sender_inv_data)
next
  case (wait_put s i d)
  then show ?case by (auto intro!: sender_inv_set sender_inv_enqueue dest: sender_inv_data)
qed (auto simp: begin_close_def do_unregister_def do_transport_close_def do_cancel_def runOnClose_def
    touch_def not_less intro!: sender_inv_set dest: sender_inv_data)

lemma close_inv_step: "sess_step s l t \<Longrightarrow> close_inv s \<Longrightarrow> close_inv t"
  by (induction rule: sess_step.induct) (auto simp: close_inv_def step_ops)

lemma ctx_inv_step: "sess_step s l t \<Longrightarrow> ctx_inv s \<Longrightarrow> ctx_inv t"
  by (induction rule: sess_step.induct)
    (auto simp: ctx_inv_def step_ops cancel_def split: option.splits)

lemma recv_inv_step: "sess_step s l t \<Longrightarrow> recv_inv s \<Longrightarrow> recv_inv t"
  by (induction rule: sess_step.induct) (auto simp: recv_inv_def step_ops)

lemma sess_inv_step: "sess_inv s \<Longrightarrow> sess_step s l t \<Longrightarrow> sess_inv t"
  unfolding sess_inv_def
  using queue_inv_step sender_inv_step close_inv_step ctx_inv_step recv_inv_step by blast

interpretation sess_safety: safety_invariant sess_init sess_step sess_inv
  by unfold_locales (auto intro: sess_inv_init sess_inv_step)

text \<open>The queue's capacity, fixed by \<^verbatim>\<open>newSession\<close>, is never zero.\<close>

lemma outCap_step: "sess_step s l t \<Longrightarrow> outCap (sess t) = outCap (sess s)"
  by (induction rule: sess_step.induct) (auto simp: step_ops)

interpretation sess_cap: safety_invariant sess_init sess_step "\<lambda>s. 0 < outCap (sess s)"
  by unfold_locales (auto simp: sess_init_def outCap_step)

abbreviation sess_reachable :: "sys \<Rightarrow> bool" where
  "sess_reachable \<equiv> reachable sess_init sess_step"

end
