(* ===== verification/SessionProps.thy ===== *)
theory SessionProps
  imports SessionMachine
begin

text \<open>
  What the session machine guarantees in every reachable state, however its goroutines
  interleave: the send queue, the close sequence, the close cause, progress of a blocked
  sender, the data channel; and that the machine's small steps implement the sequential
  operations of \<open>Session\<close>.
\<close>

section \<open>Concrete runs\<close>

text \<open>
  A session with a send queue of one message: sender 0 fills it, sender 1 waits; then the
  parent context ends, or sender 1 times out and the session is closed, or the writer
  sends the batch, or the pump reads a message.
\<close>

definition sample0 :: sys where
  "sample0 =
     \<lparr>sess = newSession None ''10.0.0.1:5'' (WithSendQueueSize 1 defaultConfig) True ''u1'' 0,
      phase = Open, senders = (\<lambda>_. SIdle), writer = WIdle, pump = PNotStarted, dataQ = [],
      dataClosed = False, accepted = [], written = [], lost = [], effects = [], received = [],
      consumed = [], dropped = [], parentEnded = False\<rparr>"

definition sample_put :: sys where
  "sample_put = set_sender 0 (SDone [7] None) (enqueue [7]
     (set_sender 0 (SReady [7]) (set_sender 0 (SCheckCtx [7]) sample0)))"

definition sample_wait :: sys where
  "sample_wait = set_sender 1 (SWaiting [8])
     (set_sender 1 (SReady [8]) (set_sender 1 (SCheckCtx [8]) sample_put))"

definition sample_parent :: sys where
  "sample_parent = sample_wait\<lparr>sess := (sess sample_wait)\<lparr>ctx := Some ErrServerStopped\<rparr>,
     parentEnded := True\<rparr>"

definition sample_closed :: sys where
  "sample_closed = do_cancel ErrSlowConsumer (do_transport_close ErrSlowConsumer
     (do_unregister ErrSlowConsumer (begin_close (Some ErrSlowConsumer)
       (set_sender 1 (SClosing [8]) sample_wait))))"

definition sample_pump :: sys where
  "sample_pump =
     (let s1 = sample0\<lparr>pump := PReading, sess := (sess sample0)\<lparr>dataOnce := True\<rparr>\<rparr>
      in s1\<lparr>pump := PSending [9], sess := touch 5 (sess s1), received := received s1 @ [[9]]\<rparr>)"

lemmas sample_defs = sample_pump_def sample_closed_def sample_parent_def sample_wait_def
  sample_put_def sample0_def sys_ops close_cause_def newSession_def WithSendQueueSize_def
  defaultConfig_def defaultMaxLength_def Second_def DefaultDelimiter_def

lemma sample0_reachable: "sess_reachable sample0"
proof (rule reach_init)
  show "sess_init sample0"
    unfolding sess_init_def sample0_def by (intro exI conjI) (auto intro: refl)
qed

lemma sample_put_reachable: "sess_reachable sample_put"
proof -
  let ?s1 = "set_sender 0 (SCheckCtx [7]) sample0" and ?s2 = "set_sender 0 (SReady [7]) (set_sender 0 (SCheckCtx [7]) sample0)"
  have "sess_step sample0 (LCall 0 [7]) ?s1" by (rule call) (simp_all add: sample_defs)
  with sample0_reachable have r1: "sess_reachable ?s1" by (rule reach_step)
  have "sess_step ?s1 (LCheck 0) ?s2" by (rule check_live) (simp_all add: sample_defs)
  with r1 have r2: "sess_reachable ?s2" by (rule reach_step)
  have "sess_step ?s2 (LTry 0) sample_put"
    unfolding sample_put_def by (rule try_put) (simp_all add: sample_defs)
  with r2 show ?thesis by (rule reach_step)
qed

lemma sample_wait_reachable: "sess_reachable sample_wait"
proof -
  let ?s1 = "set_sender 1 (SCheckCtx [8]) sample_put" and ?s2 = "set_sender 1 (SReady [8]) (set_sender 1 (SCheckCtx [8]) sample_put)"
  have "sess_step sample_put (LCall 1 [8]) ?s1" by (rule call) (simp_all add: sample_defs)
  with sample_put_reachable have r1: "sess_reachable ?s1" by (rule reach_step)
  have "sess_step ?s1 (LCheck 1) ?s2" by (rule check_live) (simp_all add: sample_defs)
  with r1 have r2: "sess_reachable ?s2" by (rule reach_step)
  have "sess_step ?s2 (LTry 1) sample_wait"
    unfolding sample_wait_def by (rule try_full) (simp_all add: sample_defs)
  with r2 show ?thesis by (rule reach_step)
qed

lemma sample_parent_reachable: "sess_reachable sample_parent"
proof -
  have "sess_step sample_wait (LParent ErrServerStopped) sample_parent"
    unfolding sample_parent_def by (rule parent) (simp add: sample_defs)
  with sample_wait_reachable show ?thesis by (rule reach_step)
qed

lemma sample_closed_reachable: "sess_reachable sample_closed"
proof -
  let ?s1 = "set_sender 1 (SClosing [8]) sample_wait"
  let ?s2 = "begin_close (Some ErrSlowConsumer) (set_sender 1 (SClosing [8]) sample_wait)"
  have "sess_step sample_wait (LTimeout 1) ?s1" by (rule wait_timeout) (simp_all add: sample_defs)
  with sample_wait_reachable have r1: "sess_reachable ?s1" by (rule reach_step)
  have "sess_step ?s1 (LSlowClose 1) ?s2" by (rule slow_close) (simp_all add: sample_defs)
  with r1 have r2: "sess_reachable ?s2" by (rule reach_step)
  have "sess_step ?s2 LUnregister (do_unregister ErrSlowConsumer ?s2)"
    by (rule unregister) (simp add: sample_defs)
  with r2 have r3: "sess_reachable (do_unregister ErrSlowConsumer ?s2)" by (rule reach_step)
  have "sess_step (do_unregister ErrSlowConsumer ?s2) LTransportClose
      (do_transport_close ErrSlowConsumer (do_unregister ErrSlowConsumer ?s2))"
    by (rule transport_close) (simp add: sample_defs)
  with r3 have r4: "sess_reachable (do_transport_close ErrSlowConsumer (do_unregister ErrSlowConsumer ?s2))"
    by (rule reach_step)
  have "sess_step (do_transport_close ErrSlowConsumer (do_unregister ErrSlowConsumer ?s2)) LCancel sample_closed"
    unfolding sample_closed_def by (rule cancel_ctx) (simp add: sample_defs)
  with r4 show ?thesis by (rule reach_step)
qed

lemma sample_pump_reachable: "sess_reachable sample_pump"
proof -
  let ?s1 = "sample0\<lparr>pump := PReading, sess := (sess sample0)\<lparr>dataOnce := True\<rparr>\<rparr>"
  have "sess_step sample0 LData ?s1" by (rule data_call) (simp add: sample_defs)
  with sample0_reachable have r1: "sess_reachable ?s1" by (rule reach_step)
  have "sess_step ?s1 (LRead [9] 5) sample_pump"
    unfolding sample_pump_def Let_def by (rule p_read) simp
  with r1 show ?thesis by (rule reach_step)
qed

section \<open>The send path\<close>

text \<open>
  C3. Messages leave a session in the order in which SendToClient accepted them, none lost
  and none duplicated: what was accepted is what the transport wrote, then (only after a
  failed write, when the writer is ending) the rest of the failed batch, then the batch in
  the writer's hands, then the queue. The queue stays within its capacity and a batch
  within 128 messages.
\<close>

theorem send_queue_fifo:
  assumes "sess_reachable s"
  shows "accepted s = written s @ lost s @ in_flight (writer s) @ out (sess s)
    \<and> length (out (sess s)) \<le> outCap (sess s) \<and> length (in_flight (writer s)) \<le> 128
    \<and> (lost s \<noteq> [] \<longrightarrow> writer s = WStopped \<or> (\<exists>e. writer s = WClosing e))"
  using sess_safety.inv_reachable [OF assms]
  by (simp add: sess_inv_def queue_inv_def maxBatch_def)

theorem send_queue_fifo_witness:
  "sess_reachable sample_wait \<and> accepted sample_wait = [[7]]
    \<and> accepted sample_wait = written sample_wait @ lost sample_wait @ in_flight (writer sample_wait)
        @ out (sess sample_wait)"
proof -
  have "accepted sample_wait = [[7]]" by (simp add: sample_defs)
  then show ?thesis using sample_wait_reachable send_queue_fifo [OF sample_wait_reachable] by blast
qed

text \<open>
  When SendToClient returns nil its message has entered the queue, and no message
  longer than MaxLength ever does.
\<close>

theorem send_nil_means_queued:
  assumes "sess_reachable s"
  shows "(senders s i = SDone d None \<longrightarrow> d \<in> set (accepted s))
    \<and> (\<forall>m \<in> set (accepted s). int (length m) \<le> maxLen (sess s))"
  using sess_safety.inv_reachable [OF assms] by (simp add: sess_inv_def sender_inv_def)

theorem send_nil_means_queued_witness:
  "senders sample_wait 0 = SDone [7] None \<and> [7] \<in> set (accepted sample_wait)"
proof -
  have "senders sample_wait 0 = SDone [7] None" by (simp add: sample_defs)
  then show ?thesis using send_nil_means_queued [OF sample_wait_reachable, of 0 "[7]"] by blast
qed

section \<open>The close path\<close>

text \<open>
  C7. However many goroutines close a session, the owner's callback, the transport's close
  and the cancellation run at most once each, in that order, with one cause.
\<close>

theorem close_effects_once_in_order:
  assumes "sess_reachable s"
  shows "effects s = expected_effects (hasOnClose (sess s)) (phase s)
    \<and> onCloseCalls (sess s) \<le> 1 \<and> (closeOnce (sess s) \<longleftrightarrow> phase s \<noteq> Open)"
  using sess_safety.inv_reachable [OF assms] by (simp add: sess_inv_def close_inv_def)

theorem close_effects_once_in_order_witness:
  "sess_reachable sample_closed \<and> phase sample_closed = Closed ErrSlowConsumer
    \<and> effects sample_closed = [OnClose, TransportClose ErrSlowConsumer, CancelCtx ErrSlowConsumer]"
proof -
  have "phase sample_closed = Closed ErrSlowConsumer" "hasOnClose (sess sample_closed)"
    by (simp_all add: sample_defs)
  then show ?thesis
    using sample_closed_reachable close_effects_once_in_order [OF sample_closed_reachable] by simp
qed

text \<open>
  C17. Unless the parent context ended first, a goroutine woken by the session's Context
  finds the session unregistered and its transport closed, with the recorded cause.
\<close>

theorem done_implies_closed:
  assumes "sess_reachable s" and "\<not> parentEnded s" and "ctx (sess s) = Some c"
  shows "phase s = Closed c
    \<and> effects s = (if hasOnClose (sess s) then [OnClose] else []) @ [TransportClose c, CancelCtx c]"
proof -
  have inv: "close_inv s" "ctx_inv s"
    using sess_safety.inv_reachable [OF assms(1)] by (simp_all add: sess_inv_def)
  then have "closed_with (phase s) = Some c" using assms(2,3) by (simp add: ctx_inv_def)
  then have "phase s = Closed c" by (cases "phase s") auto
  then show ?thesis using inv(1) by (simp add: close_inv_def)
qed

theorem done_implies_closed_witness:
  "phase sample_closed = Closed ErrSlowConsumer \<and> ctx (sess sample_closed) = Some ErrSlowConsumer"
proof -
  have "ctx (sess sample_closed) = Some ErrSlowConsumer" "\<not> parentEnded sample_closed"
    by (simp_all add: sample_defs cancel_def)
  then show ?thesis using done_implies_closed [OF sample_closed_reachable] by blast
qed

text \<open>
  The proviso of the previous property is needed: when the parent context ends
  (StopListener, or the end of Serve's context) the session's context is done before the
  session is unregistered or its transport closed.
\<close>

theorem parent_end_precedes_close:
  "\<exists>s. sess_reachable s \<and> ctx (sess s) = Some ErrServerStopped \<and> phase s = Open \<and> effects s = []"
proof (intro exI conjI)
  show "sess_reachable sample_parent" by (rule sample_parent_reachable)
qed (simp_all add: sample_defs)

text \<open>
  The cause of a session's end never changes once it is set.
\<close>

theorem cause_is_stable:
  assumes "sess_step s l t" and "ctx (sess s) = Some c"
  shows "ctx (sess t) = Some c"
  using assms by (induction rule: sess_step.induct) (auto simp: sys_ops cancel_def)

theorem cause_is_stable_witness:
  "ctx (sess (begin_close (Some ErrServerStopped) sample_parent)) = Some ErrServerStopped"
proof -
  have c: "ctx (sess sample_parent) = Some ErrServerStopped" and p: "phase sample_parent = Open"
    by (simp_all add: sample_defs)
  show ?thesis by (rule cause_is_stable [OF after_func [OF c p] c])
qed

section \<open>Progress\<close>

definition own_labels :: "nat \<Rightarrow> label set" where
  "own_labels i = {LCheck i, LTry i, LWaitPut i, LWaitDone i, LSlowClose i, LSlowReturn i,
     LUnregister, LTransportClose, LCancel, LWTake, LWFill, LWFilled, LWOk, LWClose, LWClosed}"

lemma closing_progress:
  assumes "phase s \<noteq> Open" and "\<forall>c. phase s \<noteq> Closed c"
  shows "\<exists>l \<in> {LUnregister, LTransportClose, LCancel}. \<exists>t. sess_step s l t"
  using assms by (cases "phase s") (auto intro: unregister transport_close cancel_ctx)

lemma writer_progress:
  assumes "out (sess s) \<noteq> []" and "ctx_inv s" and "ctx (sess s) = None"
  shows "\<exists>l \<in> {LUnregister, LTransportClose, LCancel, LWTake, LWFill, LWFilled, LWOk, LWClose, LWClosed}.
    \<exists>t. sess_step s l t"
proof (cases "writer s")
  case WIdle
  then show ?thesis using assms(1) by (cases "out (sess s)") (auto intro: w_take)
next
  case (WFilling b)
  then show ?thesis
    using assms(1) by (cases "out (sess s)"; cases "length b < maxBatch") (auto intro: w_fill w_filled)
next
  case (WWriting b)
  then show ?thesis by (auto intro: w_ok)
next
  case (WClosing e)
  show ?thesis
  proof (cases "phase s = Open \<or> (\<exists>c. phase s = Closed c)")
    case True
    then show ?thesis using WClosing by (auto intro: w_close w_closed)
  next
    case False
    then show ?thesis using closing_progress [of s] by blast
  qed
next
  case WStopped
  then show ?thesis using assms by (simp add: ctx_inv_def)
qed

text \<open>
  C13. A call of SendToClient is never stuck: in every reachable state with a call in
  progress, that call, the writer (once its transport call returns) or the closing of the
  session can take a step, also when the queue is full, WriteTimeout is 0, or the session
  has been closed.
\<close>

theorem send_never_stuck:
  assumes "sess_reachable s" and "sender_data (senders s i) = Some d"
  shows "\<exists>l \<in> own_labels i. \<exists>t. sess_step s l t"
proof (cases "senders s i")
  case (SCheckCtx d)
  then show ?thesis
    by (cases "ctx (sess s)") (auto simp: own_labels_def intro: check_done check_live)
next
  case (SReady d)
  then show ?thesis
    by (cases "length (out (sess s)) < outCap (sess s)") (auto simp: own_labels_def intro: try_put try_full)
next
  case (SWaiting d)
  have inv: "ctx_inv s" "queue_inv s"
    using sess_safety.inv_reachable [OF assms(1)] by (simp_all add: sess_inv_def)
  consider (room) "length (out (sess s)) < outCap (sess s)" | (ended) "ctx (sess s) \<noteq> None"
    | (full) "out (sess s) \<noteq> []" "ctx (sess s) = None" | (zero) "out (sess s) = []" "outCap (sess s) = 0"
    by (cases "out (sess s)"; cases "ctx (sess s)") auto
  then show ?thesis
  proof cases
    case room
    then show ?thesis using SWaiting by (auto simp: own_labels_def intro: wait_put)
  next
    case ended
    then show ?thesis using SWaiting by (auto simp: own_labels_def intro: wait_done)
  next
    case full
    then show ?thesis
      using writer_progress [OF full(1) inv(1) full(2)] unfolding own_labels_def by blast
  next
    case zero
    then show ?thesis using sess_cap.inv_reachable [OF assms(1)] by simp
  qed
next
  case (SClosing d)
  then show ?thesis
    using closing_progress [of s] by (cases "phase s") (auto simp: own_labels_def intro: slow_close slow_return)
qed (use assms in auto)

theorem send_never_stuck_witness:
  "\<exists>l \<in> own_labels 1. \<exists>t. sess_step sample_wait l t"
  by (rule send_never_stuck [OF sample_wait_reachable, of 1 "[8]"]) (simp add: sample_defs)

section \<open>The receive path\<close>

text \<open>
  C18. Data delivers the messages read from the transport in order and without loss, except
  for at most one, the newest, which the pump holds when the session ends; what the channel
  buffers at that moment stays readable, within BufferSize, and nothing is sent on the channel
  once it is closed.
\<close>

theorem data_in_order:
  assumes "sess_reachable s"
  shows "received s = consumed s @ dataQ s @ pending (pump s) @ dropped s
    \<and> length (dropped s) \<le> 1 \<and> (dropped s \<noteq> [] \<longrightarrow> ctx (sess s) \<noteq> None)
    \<and> int (length (dataQ s)) \<le> bufSize (sess s)
    \<and> (\<forall>t. sess_step s LPush t \<longrightarrow> \<not> dataClosed s \<and> \<not> dataClosed t)"
proof -
  have inv: "recv_inv s" using sess_safety.inv_reachable [OF assms] by (simp add: sess_inv_def)
  then show ?thesis by (auto simp: recv_inv_def elim!: pushE)
qed

theorem data_in_order_witness:
  "received sample_pump = [[9]] \<and> received sample_pump = consumed sample_pump @ dataQ sample_pump
    @ pending (pump sample_pump) @ dropped sample_pump"
proof -
  have "received sample_pump = [[9]]" by (simp add: sample_defs Let_def)
  then show ?thesis using data_in_order [OF sample_pump_reachable] by blast
qed

section \<open>The steps implement the sequential operations\<close>

text \<open>
  The four steps of a close, run without interruption, are possible from every state in
  which the session is open, and do to it what closeWith does: one atomic call.
\<close>

theorem close_steps_refine_closeWith:
  assumes "sess_reachable s" and "phase s = Open"
  shows "\<exists>s1 s2 s3 s4. sess_step s (LClose cause) s1 \<and> sess_step s1 LUnregister s2
    \<and> sess_step s2 LTransportClose s3 \<and> sess_step s3 LCancel s4
    \<and> phase s4 = Closed (close_cause cause) \<and> sess s4 = snd (closeWith tr cause (t, sess s))"
proof -
  let ?c = "close_cause cause"
  let ?s1 = "begin_close cause s"
  let ?s2 = "do_unregister ?c ?s1"
  let ?s3 = "do_transport_close ?c ?s2"
  have once: "\<not> closeOnce (sess s)"
    using sess_safety.inv_reachable [OF assms(1)] assms(2) by (simp add: sess_inv_def close_inv_def)
  have "sess_step s (LClose cause) ?s1" by (rule close_call) (rule assms(2))
  moreover have "sess_step ?s1 LUnregister ?s2" by (rule unregister) (simp add: begin_close_def)
  moreover have "sess_step ?s2 LTransportClose ?s3" by (rule transport_close) (simp add: do_unregister_def)
  moreover have "sess_step ?s3 LCancel (do_cancel ?c ?s3)" by (rule cancel_ctx) (simp add: do_transport_close_def)
  moreover have "phase (do_cancel ?c ?s3) = Closed ?c" by (simp add: do_cancel_def)
  moreover have "sess (do_cancel ?c ?s3) = snd (closeWith tr cause (t, sess s))"
    using once by (auto simp: closeWith_def sys_ops Let_def)
  ultimately show ?thesis by blast
qed

theorem close_steps_refine_closeWith_witness:
  "\<exists>s1 s2 s3 s4. sess_step sample_wait (LClose None) s1 \<and> sess_step s1 LUnregister s2
    \<and> sess_step s2 LTransportClose s3 \<and> sess_step s3 LCancel s4
    \<and> phase s4 = Closed (close_cause None)
    \<and> sess s4 = snd (closeWith \<lparr>readMessage = \<lambda>u. (Inl EOF, u), writeMessages = \<lambda>ms u. (None, u),
        closeTransport = \<lambda>e u. u + (1 :: nat)\<rparr> None (0, sess sample_wait))"
  by (rule close_steps_refine_closeWith [OF sample_wait_reachable]) (simp add: sample_defs)

end
