(* ===== verification/EchoMachine.thy ===== *)
theory EchoMachine
  imports SessionProps
begin

text \<open>
  The session handler of the example servers beside the goroutines of its session: it ranges over
  \<^verbatim>\<open>Data\<close> and sends back each message, while the pump reads ahead, the writer writes, and the session
  may be closed at any moment. No message is lost, doubled or reordered on the way round.
\<close>

section \<open>The handler as a process\<close>

datatype echo_phase = ERange | EGot bytes | ESending bytes | EFailed | ELeft

datatype echo_label = Other label | HTake | HSend | HEchoed | HFailed | HEnd

text \<open>The handler is the consumer of \<^verbatim>\<open>Data\<close> and the only caller of \<^verbatim>\<open>SendToClient\<close>.\<close>

fun by_handler :: "label \<Rightarrow> bool" where
  "by_handler LConsume = True"
| "by_handler (LCall i d) = True"
| "by_handler _ = False"

inductive echo_step :: "sys \<times> echo_phase \<Rightarrow> echo_label \<Rightarrow> sys \<times> echo_phase \<Rightarrow> bool" where
  other: "sess_step s l t \<Longrightarrow> \<not> by_handler l \<Longrightarrow> echo_step (s, h) (Other l) (t, h)"
| take_data: "sess_step s LConsume t \<Longrightarrow> dataQ s = m # q \<Longrightarrow> echo_step (s, ERange) HTake (t, EGot m)"
| send_data: "sess_step s (LCall 0 m) t \<Longrightarrow> echo_step (s, EGot m) HSend (t, ESending m)"
| echoed: "senders s 0 = SDone m None \<Longrightarrow> echo_step (s, ESending m) HEchoed (s, ERange)"
| failed: "senders s 0 = SDone m (Some e) \<Longrightarrow> echo_step (s, ESending m) HFailed (s, EFailed)"
| range_ended: "dataClosed s \<Longrightarrow> dataQ s = [] \<Longrightarrow> echo_step (s, ERange) HEnd (s, ELeft)"

definition echo_init :: "sys \<times> echo_phase \<Rightarrow> bool" where
  "echo_init c \<longleftrightarrow> sess_init (fst c) \<and> snd c = ERange"

abbreviation echo_reachable :: "sys \<times> echo_phase \<Rightarrow> bool" where
  "echo_reachable \<equiv> reachable echo_init echo_step"

inductive_cases consumeE: "sess_step s LConsume t"
inductive_cases callE: "sess_step s (LCall i d) t"

section \<open>What the handler holds\<close>

definition sent_last :: "sender \<Rightarrow> bool" where
  "sent_last p \<longleftrightarrow> p = SIdle \<or> (\<exists>d. p = SDone d None)"

definition sending :: "bytes \<Rightarrow> sender \<Rightarrow> bool" where
  "sending m p \<longleftrightarrow> sender_data p = Some m \<or> (\<exists>e. p = SDone m (Some e))"

text \<open>What the other goroutines do to the handler's call, and leave alone.\<close>

definition call_goes_on :: "sys \<Rightarrow> sys \<Rightarrow> bool" where
  "call_goes_on s t \<longleftrightarrow> consumed t = consumed s \<and>
     (senders t 0 = senders s 0 \<and> accepted t = accepted s
      \<or> (\<exists>m. sender_data (senders s 0) = Some m \<and>
           (sending m (senders t 0) \<and> accepted t = accepted s
            \<or> senders t 0 = SDone m None \<and> accepted t = accepted s @ [m])))"

lemma others_step:
  assumes "sess_step s l t" and "\<not> by_handler l" and "\<forall>i. i \<noteq> 0 \<longrightarrow> senders s i = SIdle"
  shows "call_goes_on s t \<and> (\<forall>i. i \<noteq> 0 \<longrightarrow> senders t i = SIdle)"
  using assms
proof (induction rule: sess_step.induct)
  case (check_done s i d c)
  then show ?case by (cases "i = 0") (auto simp: call_goes_on_def set_sender_def sending_def)
next
  case (check_live s i d)
  then show ?case by (cases "i = 0") (auto simp: call_goes_on_def set_sender_def sending_def)
next
  case (try_put s i d)
  then show ?case by (cases "i = 0") (auto simp: call_goes_on_def set_sender_def sending_def enqueue_def)
next
  case (try_full s i d)
  then show ?case by (cases "i = 0") (auto simp: call_goes_on_def set_sender_def sending_def)
next
  case (wait_put s i d)
  then show ?case by (cases "i = 0") (auto simp: call_goes_on_def set_sender_def sending_def enqueue_def)
next
  case (wait_done s i d c)
  then show ?case by (cases "i = 0") (auto simp: call_goes_on_def set_sender_def sending_def)
next
  case (wait_timeout s i d)
  then show ?case by (cases "i = 0") (auto simp: call_goes_on_def set_sender_def sending_def)
next
  case (slow_return s i d c)
  then show ?case by (cases "i = 0") (auto simp: call_goes_on_def set_sender_def sending_def)
qed (auto simp: call_goes_on_def begin_close_def do_unregister_def do_transport_close_def do_cancel_def)

text \<open>The messages taken but not yet queued: at most the one in the handler's hands.\<close>

fun handler_inv :: "sys \<times> echo_phase \<Rightarrow> bool" where
  "handler_inv (s, h) \<longleftrightarrow> (\<forall>i. i \<noteq> 0 \<longrightarrow> senders s i = SIdle) \<and>
     (case h of
        ERange \<Rightarrow> consumed s = accepted s \<and> sent_last (senders s 0)
      | EGot m \<Rightarrow> consumed s = accepted s @ [m] \<and> sent_last (senders s 0)
      | ESending m \<Rightarrow> senders s 0 = SDone m None \<and> consumed s = accepted s
          \<or> sending m (senders s 0) \<and> consumed s = accepted s @ [m]
      | EFailed \<Rightarrow> \<exists>m e. senders s 0 = SDone m (Some e) \<and> consumed s = accepted s @ [m]
      | ELeft \<Rightarrow> consumed s = accepted s \<and> sent_last (senders s 0))"

lemma quiet_sender: "call_goes_on s t \<Longrightarrow> sender_data (senders s 0) = None \<Longrightarrow>
    consumed t = consumed s \<and> senders t 0 = senders s 0 \<and> accepted t = accepted s"
  by (auto simp: call_goes_on_def)

lemma sent_last_quiet: "sent_last p \<Longrightarrow> sender_data p = None"
  by (auto simp: sent_last_def)

lemma handler_inv_other:
  assumes "handler_inv (s, h)" and "sess_step s l t" and "\<not> by_handler l"
  shows "handler_inv (t, h)"
proof -
  have o: "call_goes_on s t" "\<forall>i. i \<noteq> 0 \<longrightarrow> senders t i = SIdle"
    using others_step [OF assms(2,3)] assms(1) by simp_all
  show ?thesis
  proof (cases h)
    case (ESending m)
    then show ?thesis using assms(1) o by (auto simp: call_goes_on_def sending_def)
  qed (use assms(1) o quiet_sender [OF o(1)] sent_last_quiet in auto)
qed

lemma handler_inv_step:
  assumes "handler_inv c" and "echo_step c l c'"
  shows "handler_inv c'"
  using assms(2,1)
proof (induction rule: echo_step.induct)
  case (other s l t h)
  then show ?case using handler_inv_other by blast
next
  case (take_data s t m q)
  then show ?case by (auto elim!: consumeE)
next
  case (send_data s m t)
  then show ?case by (auto simp: set_sender_def sending_def elim!: callE)
qed (auto simp: sending_def sent_last_def)

interpretation echo_safety: safety_invariant echo_init echo_step handler_inv
proof
  show "handler_inv c" if "echo_init c" for c
    using that by (cases c) (auto simp: echo_init_def sess_init_def sent_last_def)
qed (rule handler_inv_step)

lemma echo_session: "echo_reachable c \<Longrightarrow> sess_reachable (fst c)"
proof (induction rule: reachable.induct)
  case (reach_init c)
  then show ?case by (auto simp: echo_init_def intro: reachable.reach_init)
next
  case (reach_step c l c')
  from reach_step(2,3) show ?case
    by (cases rule: echo_step.cases) (auto intro: reachable.reach_step)
qed

section \<open>Nothing is lost on the way round\<close>

text \<open>
  C9. At every moment, whatever the interleaving of handler, pump, writer, closers and contexts,
  what has been received is, in order, what was written back, what a failed write lost, what the
  writer and the queue hold, at most one message in the handler's hands, and what it has not
  taken yet. So on a live session that has come to rest all that was received has been written.
\<close>

theorem echo_conserves:
  assumes "echo_reachable (s, h)"
  shows "(\<exists>held. length held \<le> 1
      \<and> (held \<noteq> [] \<longrightarrow> (\<exists>m. h = EGot m \<or> h = ESending m) \<or> h = EFailed)
      \<and> received s = written s @ lost s @ in_flight (writer s) @ out (sess s) @ held
          @ dataQ s @ pending (pump s) @ dropped s)
    \<and> (h = ERange \<and> ctx (sess s) = None \<and> dataQ s = [] \<and> pump s = PReading \<and> writer s = WIdle
        \<and> out (sess s) = [] \<longrightarrow> written s = received s)"
proof -
  have inv: "queue_inv s" "recv_inv s"
    using sess_safety.inv_reachable [OF echo_session [OF assms]] by (simp_all add: sess_inv_def)
  obtain held where held: "consumed s = accepted s @ held" "length held \<le> 1"
    "held \<noteq> [] \<longrightarrow> (\<exists>m. h = EGot m \<or> h = ESending m) \<or> h = EFailed"
    using echo_safety.inv_reachable [OF assms] by (cases h) auto
  then have way: "received s = written s @ lost s @ in_flight (writer s) @ out (sess s) @ held
      @ dataQ s @ pending (pump s) @ dropped s"
    using inv by (simp add: queue_inv_def recv_inv_def)
  have "written s = received s"
    if "h = ERange" "ctx (sess s) = None" "dataQ s = []" "pump s = PReading" "writer s = WIdle" "out (sess s) = []"
    using way that inv held(3) by (auto simp: queue_inv_def recv_inv_def)
  then show ?thesis using way held(2,3) by (intro conjI exI [of _ held] impI) simp_all
qed

theorem echo_conserves_witness:
  "echo_reachable (sample_pump, ERange) \<and> (\<exists>held. received sample_pump = written sample_pump @ lost sample_pump
      @ in_flight (writer sample_pump) @ out (sess sample_pump) @ held @ dataQ sample_pump
      @ pending (pump sample_pump) @ dropped sample_pump)"
proof -
  let ?s1 = "sample0\<lparr>pump := PReading, sess := (sess sample0)\<lparr>dataOnce := True\<rparr>\<rparr>"
  have "echo_init (sample0, ERange)"
    unfolding echo_init_def sess_init_def sample0_def fst_conv snd_conv by (intro exI conjI) (auto intro: refl)
  then have "echo_reachable (sample0, ERange)" by (rule reach_init)
  moreover have "echo_step (sample0, ERange) (Other LData) (?s1, ERange)"
    by (intro other data_call) (simp_all add: sample_defs)
  ultimately have "echo_reachable (?s1, ERange)" by (rule reach_step)
  moreover have "echo_step (?s1, ERange) (Other (LRead [9] 5)) (sample_pump, ERange)"
    unfolding sample_pump_def Let_def by (intro other p_read) simp_all
  ultimately have "echo_reachable (sample_pump, ERange)" by (rule reach_step)
  then show ?thesis using echo_conserves by blast
qed

end
