(* ===== verification/Client.thy ===== *)
theory Client
  imports Net
begin

text \<open>
  The clients: \<^verbatim>\<open>client/options.go\<close>, \<^verbatim>\<open>clientopts.go\<close>, \<^verbatim>\<open>client/quic.go\<close>, \<^verbatim>\<open>client/udp.go\<close> and the
  constructors of \<^verbatim>\<open>client.go\<close>. Dialling is an argument: it gives a connection, with the
  protocol it negotiated and the stream it can open, or an error.
\<close>

section \<open>Configuration\<close>

record client_quic_config =
  cqInsecureSkipVerify :: bool
  cqNextProtos :: "string list"
  cqMinVersion :: "16 word"
  cqCodecs :: "(string \<rightharpoonup> codec) option"

datatype client_protocol_config = ClientQUICConfig client_quic_config | ClientOtherConfig

record client_config =
  clDelimiter :: bytes
  clReadTimeout :: int
  clWriteTimeout :: int
  clBufferSize :: int
  clMaxLength :: int
  clProtocolConfig :: client_protocol_config

type_synonym client_option = "client_config \<Rightarrow> client_config"

definition defaultClientQUIC :: client_quic_config where
  "defaultClientQUIC = \<lparr>cqInsecureSkipVerify = True, cqNextProtos = [DefaultALPN],
     cqMinVersion = 0x0304, cqCodecs = None\<rparr>"

definition DefaultConfig :: client_config where
  "DefaultConfig = \<lparr>clDelimiter = DefaultDelimiter, clReadTimeout = Second * 30,
     clWriteTimeout = Second * 30, clBufferSize = 64 * 1024, clMaxLength = 1024 * 1024,
     clProtocolConfig = ClientQUICConfig defaultClientQUIC\<rparr>"

definition WithDelimiter :: "bytes \<Rightarrow> client_option" where
  "WithDelimiter d c = c\<lparr>clDelimiter := d\<rparr>"

definition WithClientTimeouts :: "int \<Rightarrow> int \<Rightarrow> client_option" where
  "WithClientTimeouts r w c = c\<lparr>clReadTimeout := r, clWriteTimeout := w\<rparr>"

definition WithClientBufferSize :: "int \<Rightarrow> client_option" where
  "WithClientBufferSize n c = c\<lparr>clBufferSize := n\<rparr>"

definition WithClientMaxLength :: "int \<Rightarrow> client_option" where
  "WithClientMaxLength n c = c\<lparr>clMaxLength := n\<rparr>"

definition WithQUICInsecureSkipVerify :: "bool \<Rightarrow> client_option" where
  "WithQUICInsecureSkipVerify skip c = (case clProtocolConfig c of
      ClientQUICConfig q \<Rightarrow> c\<lparr>clProtocolConfig := ClientQUICConfig (q\<lparr>cqInsecureSkipVerify := skip\<rparr>)\<rparr>
    | ClientOtherConfig \<Rightarrow> c)"

definition WithQUICNextProtos :: "string list \<Rightarrow> client_option" where
  "WithQUICNextProtos protos c = (case clProtocolConfig c of
      ClientQUICConfig q \<Rightarrow> c\<lparr>clProtocolConfig := ClientQUICConfig (q\<lparr>cqNextProtos := protos\<rparr>)\<rparr>
    | ClientOtherConfig \<Rightarrow> c)"

definition WithQUICMinVersion :: "16 word \<Rightarrow> client_option" where
  "WithQUICMinVersion v c = (case clProtocolConfig c of
      ClientQUICConfig q \<Rightarrow> c\<lparr>clProtocolConfig := ClientQUICConfig (q\<lparr>cqMinVersion := v\<rparr>)\<rparr>
    | ClientOtherConfig \<Rightarrow> c)"

definition WithClientQUICCodec :: "string \<Rightarrow> codec \<Rightarrow> client_option" where
  "WithClientQUICCodec alpn cd c = (case clProtocolConfig c of
      ClientOtherConfig \<Rightarrow> c
    | ClientQUICConfig q \<Rightarrow>
        c\<lparr>clProtocolConfig := ClientQUICConfig
            (q\<lparr>cqCodecs := store_codec (cqCodecs q) alpn cd,
               cqNextProtos := prefer_alpn alpn (cqNextProtos q)\<rparr>)\<rparr>)"

fun apply_client_options :: "client_option list \<Rightarrow> client_config \<Rightarrow> client_config" where
  "apply_client_options [] c = c"
| "apply_client_options (opt # opts) c = apply_client_options opts (opt c)"

definition NewClientConfig :: "client_option list \<Rightarrow> client_config" where
  "NewClientConfig opts = apply_client_options opts DefaultConfig"

definition address_required :: err where
  "address_required = OpError ''address is required'' False"

section \<open>The QUIC client\<close>

record client_conn =
  ccProtocol :: string
  ccStream :: "err + net_conn"
  ccStreamClose :: "err option"
  ccLocal :: string
  ccRemote :: string

text \<open>
  \<open>qcStream\<close> and \<open>qcConn\<close> are \<open>None\<close> before Connect, and then \<open>qcCodec\<close> and \<open>qcReader\<close>, which
  are nil in the code, are not used. The last group records effects: the bytes
  the stream took, the number of writes, the reasons given to \<^verbatim>\<open>CloseWithError\<close>.
\<close>

record quic_client =
  qcAddr :: string
  qcConfig :: client_config
  qcConn :: "client_conn option"
  qcStream :: "net_conn option"
  qcCodec :: codec
  qcReader :: reader
  qcWire :: bytes
  qcWrites :: nat
  qcCloses :: "string list"

definition NewQUICClient :: "string \<Rightarrow> client_config option \<Rightarrow> err + quic_client" where
  "NewQUICClient a config =
     (if a = [] then Inl address_required
      else Inr \<lparr>qcAddr = a, qcConfig = (case config of None \<Rightarrow> DefaultConfig | Some c \<Rightarrow> c),
        qcConn = None, qcStream = None, qcCodec = Legacy, qcReader = newReader [] FaultEOF,
        qcWire = [], qcWrites = 0, qcCloses = []\<rparr>)"

definition quicConfig :: "quic_client \<Rightarrow> client_quic_config" where
  "quicConfig c = (case clProtocolConfig (qcConfig c) of
     ClientQUICConfig q \<Rightarrow> q | ClientOtherConfig \<Rightarrow> defaultClientQUIC)"

definition no_client_codec :: "string \<Rightarrow> err" where
  "no_client_codec alpn = OpError (''gophersocks client: no codec for ALPN '' @
     [char_of (34 :: nat)] @ alpn @ [char_of (34 :: nat)]) False"

definition codecFor :: "quic_client \<Rightarrow> string \<Rightarrow> err + codec" where
  "codecFor c alpn =
     (case (case cqCodecs (quicConfig c) of None \<Rightarrow> None | Some cs \<Rightarrow> cs alpn) of
        Some cd \<Rightarrow> Inr cd
      | None \<Rightarrow>
          if alpn = DefaultALPN \<or> alpn = [] then NewLegacy (clDelimiter (qcConfig c))
          else Inl (no_client_codec alpn))"

definition client_tls :: "client_quic_config \<Rightarrow> tls_config" where
  "client_tls q = \<lparr>Certificates = [], NextProtos = cqNextProtos q, MinVersion = cqMinVersion q,
     InsecureSkipVerify = cqInsecureSkipVerify q\<rparr>"

definition quic_Connect ::
    "(string \<Rightarrow> tls_config \<Rightarrow> err + client_conn) \<Rightarrow> quic_client \<Rightarrow> err option \<times> quic_client" where
  "quic_Connect dial c =
     (case dial (qcAddr c) (client_tls (quicConfig c)) of
        Inl e \<Rightarrow> (Some (Wrap ''failed to dial QUIC: '' e []), c)
      | Inr conn \<Rightarrow>
     (case codecFor c (ccProtocol conn) of
        Inl e \<Rightarrow> (Some e, c\<lparr>qcCloses := qcCloses c @ [''unsupported protocol'']\<rparr>)
      | Inr cd \<Rightarrow>
     (case ccStream conn of
        Inl e \<Rightarrow> (Some (Wrap ''failed to open QUIC stream: '' e []),
          c\<lparr>qcCloses := qcCloses c @ [''no stream'']\<rparr>)
      | Inr strm \<Rightarrow> (None, c\<lparr>qcConn := Some conn, qcStream := Some strm, qcCodec := cd,
          qcReader := new_reader_size (nat (max (clBufferSize (qcConfig c)) 4096))
            (incoming strm) (incomingEnd strm)\<rparr>))))"

definition quic_Send :: "bytes \<Rightarrow> quic_client \<Rightarrow> err option \<times> quic_client" where
  "quic_Send data c =
     (case qcStream c of
        None \<Rightarrow> (Some ErrNotConnected, c)
      | Some strm \<Rightarrow>
          (case Append (qcCodec c) [] data of
             (frame, Some e) \<Rightarrow> (Some e, c)
           | (frame, None) \<Rightarrow>
               (case connWrite strm (qcWrites c) frame of
                  (n, e) \<Rightarrow>
                    (map_option (\<lambda>x. Wrap ''failed to write to QUIC stream: '' x []) e,
                     c\<lparr>qcWire := qcWire c @ take n frame, qcWrites := Suc (qcWrites c)\<rparr>))))"

definition quic_Receive :: "quic_client \<Rightarrow> (err + bytes) \<times> quic_client" where
  "quic_Receive c =
     (case qcStream c of
        None \<Rightarrow> (Inl ErrNotConnected, c)
      | Some strm \<Rightarrow>
          (case Read (qcCodec c) (clMaxLength (qcConfig c)) (qcReader c) of
             (x, r) \<Rightarrow> (x, c\<lparr>qcReader := r\<rparr>)))"

definition NegotiatedProtocol :: "quic_client \<Rightarrow> string" where
  "NegotiatedProtocol c = (case qcConn c of None \<Rightarrow> [] | Some conn \<Rightarrow> ccProtocol conn)"

definition quic_Close :: "quic_client \<Rightarrow> err option \<times> quic_client" where
  "quic_Close c =
     (let e = (case (qcStream c, qcConn c) of (Some strm, Some conn) \<Rightarrow> ccStreamClose conn | _ \<Rightarrow> None);
          c' = (case qcConn c of None \<Rightarrow> c
            | Some conn \<Rightarrow> c\<lparr>qcCloses := qcCloses c @ [''client closed connection'']\<rparr>)
      in (map_option (\<lambda>x. Wrap ''failed to close QUIC stream: '' x []) e, c'))"

definition quic_LocalAddr :: "quic_client \<Rightarrow> string option" where
  "quic_LocalAddr c = map_option ccLocal (qcConn c)"

definition quic_RemoteAddr :: "quic_client \<Rightarrow> string option" where
  "quic_RemoteAddr c = map_option ccRemote (qcConn c)"

section \<open>The UDP client\<close>

text \<open>\<open>udpInbox\<close>: what the next reads find, a datagram or an error.\<close>

record udp_sock =
  udpInbox :: "(err + bytes) list"
  udpOutbox :: "bytes list"
  sockWrite :: "bytes \<Rightarrow> err option"
  sockClosed :: bool
  sockClose :: "err option"
  sockLocal :: string
  sockRemote :: string

record udp_client =
  ucAddr :: string
  ucConfig :: client_config
  ucConn :: "udp_sock option"

definition NewUDPClient :: "string \<Rightarrow> client_config \<Rightarrow> err + udp_client" where
  "NewUDPClient a config =
     (if a = [] then Inl address_required else Inr \<lparr>ucAddr = a, ucConfig = config, ucConn = None\<rparr>)"

definition udp_Connect ::
    "(string \<Rightarrow> err + string) \<Rightarrow> (string \<Rightarrow> err + udp_sock) \<Rightarrow> udp_client \<Rightarrow> err option \<times> udp_client" where
  "udp_Connect resolve dial c =
     (case resolve (ucAddr c) of
        Inl e \<Rightarrow> (Some (Wrap ''failed to resolve UDP address: '' e []), c)
      | Inr a \<Rightarrow> (case dial a of
          Inl e \<Rightarrow> (Some (Wrap ''failed to dial UDP: '' e []), c)
        | Inr k \<Rightarrow> (None, c\<lparr>ucConn := Some k\<rparr>)))"

definition udp_not_connected :: err where
  "udp_not_connected = OpError ''not connected'' False"

text \<open>Every operation of a socket that is closed fails.\<close>

definition sock_closed :: "string \<Rightarrow> err" where
  "sock_closed op = Wrap (op @ '': '') NetErrClosed []"

definition udp_open_sock :: "udp_client \<Rightarrow> bool" where
  "udp_open_sock c \<longleftrightarrow> (case ucConn c of None \<Rightarrow> False | Some k \<Rightarrow> \<not> sockClosed k)"

definition udp_Send :: "bytes \<Rightarrow> udp_client \<Rightarrow> err option \<times> udp_client" where
  "udp_Send data c =
     (case ucConn c of
        None \<Rightarrow> (Some udp_not_connected, c)
      | Some k \<Rightarrow> (case (if sockClosed k then Some (sock_closed ''write'') else sockWrite k data) of
          Some e \<Rightarrow> (Some (Wrap ''failed to write to UDP connection: '' e []), c)
        | None \<Rightarrow> (None, c\<lparr>ucConn := Some (k\<lparr>udpOutbox := udpOutbox k @ [data]\<rparr>)\<rparr>)))"

text \<open>A read with nothing to come does not return; its result is then \<open>None\<close>.\<close>

definition udp_Receive :: "udp_client \<Rightarrow> (err + bytes) option \<times> udp_client" where
  "udp_Receive c =
     (case ucConn c of
        None \<Rightarrow> (Some (Inl udp_not_connected), c)
      | Some k \<Rightarrow>
          if sockClosed k
          then (Some (Inl (Wrap ''failed to read from UDP connection: '' (sock_closed ''read'') [])), c)
          else (case udpInbox k of
          [] \<Rightarrow> (None, c)
        | Inl e # ds \<Rightarrow> (Some (Inl (Wrap ''failed to read from UDP connection: '' e [])),
            c\<lparr>ucConn := Some (k\<lparr>udpInbox := ds\<rparr>)\<rparr>)
        | Inr d # ds \<Rightarrow> (Some (Inr (take 65536 d)), c\<lparr>ucConn := Some (k\<lparr>udpInbox := ds\<rparr>)\<rparr>)))"

definition udp_Close :: "udp_client \<Rightarrow> err option \<times> udp_client" where
  "udp_Close c = (case ucConn c of
     None \<Rightarrow> (None, c)
   | Some k \<Rightarrow>
       (map_option (\<lambda>x. Wrap ''failed to close UDP connection: '' x [])
          (if sockClosed k then Some (sock_closed ''close'') else sockClose k),
        c\<lparr>ucConn := Some (k\<lparr>sockClosed := True\<rparr>)\<rparr>))"

definition udp_LocalAddr :: "udp_client \<Rightarrow> string option" where
  "udp_LocalAddr c = map_option sockLocal (ucConn c)"

definition udp_RemoteAddr :: "udp_client \<Rightarrow> string option" where
  "udp_RemoteAddr c = map_option sockRemote (ucConn c)"

section \<open>The constructors of the top-level package\<close>

definition gs_NewQUICClient :: "string \<Rightarrow> client_option list \<Rightarrow> err + quic_client" where
  "gs_NewQUICClient a opts =
     (if a = [] then Inl address_required else NewQUICClient a (Some (NewClientConfig opts)))"

definition gs_NewUDPClient :: "string \<Rightarrow> client_option list \<Rightarrow> err + udp_client" where
  "gs_NewUDPClient a opts =
     (if a = [] then Inl address_required else NewUDPClient a (NewClientConfig opts))"

section \<open>Sequences of messages\<close>

fun send_all :: "bytes list \<Rightarrow> quic_client \<Rightarrow> err option \<times> quic_client" where
  "send_all [] c = (None, c)"
| "send_all (m # ms) c = (case quic_Send m c of
     (Some e, c') \<Rightarrow> (Some e, c') | (None, c') \<Rightarrow> send_all ms c')"

fun receive_many :: "nat \<Rightarrow> quic_client \<Rightarrow> bytes list \<times> err option \<times> quic_client" where
  "receive_many 0 c = ([], None, c)"
| "receive_many (Suc n) c = (case quic_Receive c of
     (Inl e, c') \<Rightarrow> ([], Some e, c')
   | (Inr m, c') \<Rightarrow> (case receive_many n c' of (ms, e, c'') \<Rightarrow> (m # ms, e, c'')))"

lemma receive_many_eq:
  "qcStream c = Some strm \<Longrightarrow>
    receive_many n c = (case read_many (qcCodec c) (clMaxLength (qcConfig c)) n (qcReader c) of
      (ms, e, r) \<Rightarrow> (ms, e, c\<lparr>qcReader := r\<rparr>))"
proof (induction n arbitrary: c)
  case (Suc n)
  obtain x r where r: "Read (qcCodec c) (clMaxLength (qcConfig c)) (qcReader c) = (x, r)"
    by (metis surj_pair)
  show ?case
  proof (cases x)
    case (Inl e)
    then show ?thesis using Suc.prems r by (simp add: quic_Receive_def)
  next
    case (Inr m)
    then show ?thesis
      using Suc.IH [of "c\<lparr>qcReader := r\<rparr>"] Suc.prems r
      by (simp add: quic_Receive_def split: prod.splits)
  qed
qed simp

context framing_codec
begin

lemma client_sends_frames:
  "qcStream cl = Some strm \<Longrightarrow> qcCodec cl = c \<Longrightarrow> io_writer (connWrite strm) \<Longrightarrow>
    send_all ms cl = (None, cl') \<Longrightarrow> qcWire cl' = qcWire cl @ concat (map frame ms)"
proof (induction ms arbitrary: cl)
  case (Cons m ms)
  obtain fr x where ap: "Append c [] m = (fr, x)" by (metis surj_pair)
  have x: "x = None" using Cons.prems ap by (cases x) (auto simp: quic_Send_def)
  then have fr: "fr = frame m" using append_ok ap by fastforce
  obtain n e where w: "connWrite strm (qcWrites cl) fr = (n, e)" by (metis surj_pair)
  have e: "e = None" using Cons.prems ap x w by (cases e) (auto simp: quic_Send_def)
  then have n: "n = length fr" using Cons.prems(3) w by (auto simp: io_writer_def)
  let ?cl = "cl\<lparr>qcWire := qcWire cl @ frame m, qcWrites := Suc (qcWrites cl)\<rparr>"
  have "send_all ms ?cl = (None, cl')"
    using Cons.prems ap x w e n fr by (simp add: quic_Send_def)
  then show ?case using Cons.IH [of ?cl] Cons.prems by simp
qed simp

lemma client_receives_frames:
  assumes "qcStream cl = Some strm" and "qcCodec cl = c" and "reader_ok (qcReader cl)"
    and "stream (qcReader cl) = concat (map frame ms) @ t"
    and "\<forall>m \<in> set ms. fits (clMaxLength (qcConfig cl)) m"
  shows "\<exists>cl'. receive_many (length ms) cl = (ms, None, cl') \<and> stream (qcReader cl') = t"
  using read_many_frames [OF assms(5,3,4)] assms(1,2) by (auto simp: receive_many_eq)

end

end
