(* ===== verification/ClientInterface.thy ===== *)
theory ClientInterface
  imports Client
begin

text \<open>
  \<^verbatim>\<open>client.go\<close>: the \<^verbatim>\<open>Client\<close> interface, its methods dispatched to the client an interface value holds,
  and what a client does before Connect, after it and after Close. \<open>None\<close> is the panic of a call on
  a nil interface.
\<close>

datatype client_iface = NilClient | QUICClient quic_client | UDPClient udp_client

text \<open>What the clients ask of the network.\<close>

record dial_env =
  dialQUIC :: "string \<Rightarrow> tls_config \<Rightarrow> err + client_conn"
  dialResolve :: "string \<Rightarrow> err + string"
  dialUDP :: "string \<Rightarrow> err + udp_sock"

fun client_Connect :: "dial_env \<Rightarrow> client_iface \<Rightarrow> (err option \<times> client_iface) option" where
  "client_Connect env (QUICClient q) =
     Some (case quic_Connect (dialQUIC env) q of (e, q') \<Rightarrow> (e, QUICClient q'))"
| "client_Connect env (UDPClient u) =
     Some (case udp_Connect (dialResolve env) (dialUDP env) u of (e, u') \<Rightarrow> (e, UDPClient u'))"
| "client_Connect env NilClient = None"

fun client_Send :: "bytes \<Rightarrow> client_iface \<Rightarrow> (err option \<times> client_iface) option" where
  "client_Send d (QUICClient q) = Some (case quic_Send d q of (e, q') \<Rightarrow> (e, QUICClient q'))"
| "client_Send d (UDPClient u) = Some (case udp_Send d u of (e, u') \<Rightarrow> (e, UDPClient u'))"
| "client_Send d NilClient = None"

text \<open>The result is \<open>None\<close> when Receive waits for ever.\<close>

fun client_Receive :: "client_iface \<Rightarrow> ((err + bytes) option \<times> client_iface) option" where
  "client_Receive (QUICClient q) = Some (case quic_Receive q of (x, q') \<Rightarrow> (Some x, QUICClient q'))"
| "client_Receive (UDPClient u) = Some (case udp_Receive u of (x, u') \<Rightarrow> (x, UDPClient u'))"
| "client_Receive NilClient = None"

fun client_Close :: "client_iface \<Rightarrow> (err option \<times> client_iface) option" where
  "client_Close (QUICClient q) = Some (case quic_Close q of (e, q') \<Rightarrow> (e, QUICClient q'))"
| "client_Close (UDPClient u) = Some (case udp_Close u of (e, u') \<Rightarrow> (e, UDPClient u'))"
| "client_Close NilClient = None"

fun client_LocalAddr :: "client_iface \<Rightarrow> string option option" where
  "client_LocalAddr (QUICClient q) = Some (quic_LocalAddr q)"
| "client_LocalAddr (UDPClient u) = Some (udp_LocalAddr u)"
| "client_LocalAddr NilClient = None"

fun client_RemoteAddr :: "client_iface \<Rightarrow> string option option" where
  "client_RemoteAddr (QUICClient q) = Some (quic_RemoteAddr q)"
| "client_RemoteAddr (UDPClient u) = Some (udp_RemoteAddr u)"
| "client_RemoteAddr NilClient = None"

section \<open>The life of a client\<close>

definition unconnected :: "client_iface \<Rightarrow> bool" where
  "unconnected c \<longleftrightarrow> (case c of
     NilClient \<Rightarrow> False
   | QUICClient q \<Rightarrow> qcStream q = None \<and> qcConn q = None
   | UDPClient u \<Rightarrow> ucConn u = None)"

definition closed_udp :: "client_iface \<Rightarrow> bool" where
  "closed_udp c \<longleftrightarrow> (\<exists>u k. c = UDPClient u \<and> ucConn u = Some k \<and> sockClosed k)"

text \<open>What a failed Connect may leave: the client as it was, or a QUIC connection dialled and closed.\<close>

definition after_failure :: "dial_env \<Rightarrow> client_iface \<Rightarrow> client_iface \<Rightarrow> bool" where
  "after_failure env c c' \<longleftrightarrow> (case c of
     QUICClient q \<Rightarrow> (case dialQUIC env (qcAddr q) (client_tls (quicConfig q)) of
         Inl e \<Rightarrow> c' = c
       | Inr conn \<Rightarrow> \<exists>reason. c' = QUICClient (q\<lparr>qcCloses := qcCloses q @ [reason]\<rparr>))
   | _ \<Rightarrow> c' = c)"

lemma new_clients_unconnected:
  "gs_NewQUICClient a opts = Inr q \<Longrightarrow> unconnected (QUICClient q)"
  "gs_NewUDPClient a opts = Inr u \<Longrightarrow> unconnected (UDPClient u)"
  by (auto simp: gs_NewQUICClient_def NewQUICClient_def gs_NewUDPClient_def NewUDPClient_def
      unconnected_def split: if_splits)

lemma unconnected_cases:
  assumes "unconnected c"
  obtains (quic) q where "c = QUICClient q" "qcStream q = None" "qcConn q = None"
    | (udp) u where "c = UDPClient u" "ucConn u = None"
  using assms by (cases c) (auto simp: unconnected_def)

text \<open>
  C33. Before Connect succeeds a client refuses every Send and Receive, a QUIC client with
  ErrNotConnected, a UDP client with an error that is not ErrNotConnected; it has no addresses;
  Close does nothing and reports no error. A Connect that fails leaves it unconnected and
  unchanged, except that the connection a QUIC client has already dialled is closed, once. A
  Connect that succeeds gives it addresses. After the Close of a connected UDP client Send,
  Receive and another Close fail with net.ErrClosed and change nothing.
\<close>

theorem client_lifecycle:
  assumes "unconnected c"
  shows "(\<exists>x. client_Send d c = Some (Some x, c) \<and> (errors_is x ErrNotConnected \<longleftrightarrow> (\<exists>q. c = QUICClient q)))
    \<and> (\<exists>x. client_Receive c = Some (Some (Inl x), c) \<and> (errors_is x ErrNotConnected \<longleftrightarrow> (\<exists>q. c = QUICClient q)))
    \<and> client_Close c = Some (None, c) \<and> client_LocalAddr c = Some None \<and> client_RemoteAddr c = Some None
    \<and> (client_Connect env c = Some (e, c') \<longrightarrow>
        (if e = None then client_LocalAddr c' \<notin> {None, Some None} \<and> client_RemoteAddr c' \<notin> {None, Some None}
         else unconnected c' \<and> after_failure env c c'))
    \<and> (\<forall>u. udp_open_sock u \<longrightarrow> (\<exists>r u1. client_Close (UDPClient u) = Some (r, u1) \<and> closed_udp u1
        \<and> (\<exists>x. client_Send d u1 = Some (Some x, u1) \<and> errors_is x NetErrClosed)
        \<and> (\<exists>x. client_Receive u1 = Some (Some (Inl x), u1) \<and> errors_is x NetErrClosed)
        \<and> (\<exists>x. client_Close u1 = Some (Some x, u1) \<and> errors_is x NetErrClosed)))"
proof -
  have after: "\<exists>r u1. client_Close (UDPClient u) = Some (r, u1) \<and> closed_udp u1
      \<and> (\<exists>x. client_Send d u1 = Some (Some x, u1) \<and> errors_is x NetErrClosed)
      \<and> (\<exists>x. client_Receive u1 = Some (Some (Inl x), u1) \<and> errors_is x NetErrClosed)
      \<and> (\<exists>x. client_Close u1 = Some (Some x, u1) \<and> errors_is x NetErrClosed)"
    if "udp_open_sock u" for u
    using that by (auto simp: udp_open_sock_def udp_Close_def udp_Send_def udp_Receive_def closed_udp_def
        sock_closed_def split: option.splits)
  from assms have "(\<exists>x. client_Send d c = Some (Some x, c) \<and> (errors_is x ErrNotConnected \<longleftrightarrow> (\<exists>q. c = QUICClient q)))
    \<and> (\<exists>x. client_Receive c = Some (Some (Inl x), c) \<and> (errors_is x ErrNotConnected \<longleftrightarrow> (\<exists>q. c = QUICClient q)))
    \<and> client_Close c = Some (None, c) \<and> client_LocalAddr c = Some None \<and> client_RemoteAddr c = Some None
    \<and> (client_Connect env c = Some (e, c') \<longrightarrow>
        (if e = None then client_LocalAddr c' \<notin> {None, Some None} \<and> client_RemoteAddr c' \<notin> {None, Some None}
         else unconnected c' \<and> after_failure env c c'))"
  proof (cases rule: unconnected_cases)
    case (quic q)
    then show ?thesis
      by (auto simp: quic_Send_def quic_Receive_def quic_Close_def quic_LocalAddr_def quic_RemoteAddr_def
          quic_Connect_def unconnected_def after_failure_def split: sum.splits)
  next
    case (udp u)
    then show ?thesis
      by (auto simp: udp_Send_def udp_Receive_def udp_Close_def udp_LocalAddr_def udp_RemoteAddr_def
          udp_Connect_def unconnected_def udp_not_connected_def after_failure_def split: sum.splits)
  qed
  then show ?thesis using after by blast
qed

theorem client_lifecycle_witness:
  "\<exists>u e. gs_NewUDPClient ''h:1'' [] = Inr u \<and> client_Send [1] (UDPClient u) = Some (Some e, UDPClient u)"
proof -
  obtain u where u: "gs_NewUDPClient ''h:1'' [] = Inr u" by (simp add: gs_NewUDPClient_def NewUDPClient_def)
  show ?thesis using client_lifecycle [OF new_clients_unconnected(2) [OF u]] u by blast
qed

end
