(* ===== verification/SessionRefinement.thy ===== *)
theory SessionRefinement
  imports SessionProps
begin

text \<open>
  The operations of \<open>Session\<close> run without interruption; each is a run of \<open>SessionMachine\<close>, the
  goroutines interleaved: \<^verbatim>\<open>closeWith\<close>, \<^verbatim>\<open>SendToClient\<close>, a round of the writer, the writer until
  the queue is empty, and \<^verbatim>\<open>Messages\<close> as \<^verbatim>\<open>pumpData\<close> uses it.
\<close>

definition sess_moves :: "sys \<Rightarrow> sys \<Rightarrow> bool" where
  "sess_moves s t \<longleftrightarrow> (\<exists>l. sess_step s l t)"

lemma move: "sess_step s l t \<Longrightarrow> sess_moves\<^sup>*\<^sup>* s t"
  by (auto simp: sess_moves_def intro!: r_into_rtranclp)

lemma moves_reach: "sess_moves\<^sup>*\<^sup>* s t \<Longrightarrow> sess_reachable s \<Longrightarrow> sess_reachable t"
  by (induction rule: rtranclp.induct) (auto simp: sess_moves_def intro: reach_step)

section \<open>Closing\<close>

definition closed_by :: "err option \<Rightarrow> sys \<Rightarrow> sys" where
  "closed_by cause s = (let c = close_cause cause in
     do_cancel c (do_transport_close c (do_unregister c (begin_close cause s))))"

lemma close_run: "sess_moves\<^sup>*\<^sup>* (begin_close cause s) (closed_by cause s)"
proof -
  let ?c = "close_cause cause" let ?s1 = "begin_close cause s"
  let ?s2 = "do_unregister ?c ?s1" let ?s3 = "do_transport_close ?c ?s2"
  have "sess_moves\<^sup>*\<^sup>* ?s1 ?s2" by (rule move, rule unregister) (simp add: begin_close_def)
  also have "sess_moves\<^sup>*\<^sup>* ?s2 ?s3" by (rule move, rule transport_close) (simp add: do_unregister_def)
  also have "sess_moves\<^sup>*\<^sup>* ?s3 (do_cancel ?c ?s3)"
    by (rule move, rule cancel_ctx) (simp add: do_transport_close_def)
  finally show ?thesis by (simp add: closed_by_def Let_def)
qed

lemma closed_by_sess:
  "\<not> closeOnce (sess s) \<Longrightarrow> sess (closed_by cause s) = snd (closeWith tr cause (t, sess s))"
  by (auto simp: closed_by_def closeWith_def sys_ops Let_def)

lemma closed_by_fields [simp]:
  "phase (closed_by cause s) = Closed (close_cause cause)"
  "writer (closed_by cause s) = writer s" "written (closed_by cause s) = written s"
  "senders (closed_by cause s) = senders s" "pump (closed_by cause s) = pump s"
  "received (closed_by cause s) = received s" "consumed (closed_by cause s) = consumed s"
  "dataQ (closed_by cause s) = dataQ s" "accepted (closed_by cause s) = accepted s"
  by (simp_all add: closed_by_def sys_ops Let_def)

text \<open>The writer after a failed write, and the pump after a failed read.\<close>

lemma writer_close_run:
  assumes "writer s = WClosing c" and "phase s = Open"
  shows "sess_moves\<^sup>*\<^sup>* s (closed_by (Some c) s\<lparr>writer := WStopped\<rparr>)"
proof -
  have "sess_moves\<^sup>*\<^sup>* s (begin_close (Some c) s)" using w_close [OF assms] by (rule move)
  also note close_run
  also have "sess_moves\<^sup>*\<^sup>* (closed_by (Some c) s) (closed_by (Some c) s\<lparr>writer := WStopped\<rparr>)"
    using w_closed [of "closed_by (Some c) s" c] assms(1) by (intro move) simp
  finally show ?thesis .
qed

lemma pump_close_run:
  assumes "pump s = PClosing c" and "phase s = Open"
  shows "sess_moves\<^sup>*\<^sup>* s (closed_by (Some c) s\<lparr>pump := PEnded, dataClosed := True\<rparr>)"
proof -
  have "sess_moves\<^sup>*\<^sup>* s (begin_close (Some c) s)" using p_close [OF assms] by (rule move)
  also note close_run
  also have "sess_moves\<^sup>*\<^sup>* (closed_by (Some c) s) (closed_by (Some c) s\<lparr>pump := PEnded, dataClosed := True\<rparr>)"
    using p_closed [of "closed_by (Some c) s" c] assms(1) by (intro move) simp
  finally show ?thesis .
qed

section \<open>Sending\<close>

text \<open>A free sender's call, up to the point where \<^verbatim>\<open>SendToClient\<close> returns or starts to wait.\<close>

fun sender_after :: "bytes \<Rightarrow> send_check \<Rightarrow> sender" where
  "sender_after d (Refuse e) = SDone d (Some e)"
| "sender_after d Sent = SDone d None"
| "sender_after d MustWait = SWaiting d"

lemma send_run:
  assumes "SendToClient d (sess s) = (res, x)" and "senders s i = SIdle \<or> senders s i = SDone d' old"
  shows "\<exists>t. sess_moves\<^sup>*\<^sup>* s t \<and> sess t = x \<and> senders t = (senders s)(i := sender_after d res)
    \<and> accepted t = accepted s @ (if res = Sent then [d] else []) \<and> writer t = writer s
    \<and> phase t = phase s \<and> written t = written s \<and> consumed t = consumed s"
proof (cases "maxLen (sess s) < int (length d)")
  case True
  then have r: "res = Refuse too_large_error" "x = sess s" using assms(1) by (simp_all add: SendToClient_def)
  let ?t = "set_sender i (SDone d (Some too_large_error)) s"
  have "sess_moves\<^sup>*\<^sup>* s ?t" using call_large [OF assms(2) True] by (rule move)
  then show ?thesis using r by (intro exI [of _ ?t]) (simp add: set_sender_def)
next
  case False
  let ?s1 = "set_sender i (SCheckCtx d) s"
  have s1: "sess_moves\<^sup>*\<^sup>* s ?s1" "senders ?s1 i = SCheckCtx d" "sess ?s1 = sess s"
    using call [OF assms(2) False] by (auto simp: set_sender_def intro: move)
  show ?thesis
  proof (cases "ctx (sess s)")
    case (Some c)
    then have r: "res = Refuse (closed_error c)" "x = sess s"
      using assms(1) False by (simp_all add: SendToClient_def)
    let ?t = "set_sender i (SDone d (Some (closed_error c))) ?s1"
    have "sess_moves\<^sup>*\<^sup>* ?s1 ?t" using check_done [OF s1(2)] Some s1(3) by (auto intro: move)
    then show ?thesis using r s1(1) by (intro exI [of _ ?t]) (auto simp: set_sender_def)
  next
    case None
    let ?s2 = "set_sender i (SReady d) ?s1"
    have s2: "sess_moves\<^sup>*\<^sup>* ?s1 ?s2" "senders ?s2 i = SReady d" "sess ?s2 = sess s"
      using check_live [OF s1(2)] None s1(3) by (auto simp: set_sender_def intro: move)
    show ?thesis
    proof (cases "length (out (sess s)) < outCap (sess s)")
      case True
      then have r: "res = Sent" "x = (sess s)\<lparr>out := out (sess s) @ [d]\<rparr>"
        using assms(1) False None by (simp_all add: SendToClient_def)
      let ?t = "set_sender i (SDone d None) (enqueue d ?s2)"
      have "sess_moves\<^sup>*\<^sup>* ?s2 ?t" using try_put [OF s2(2)] True s2(3) by (auto intro: move)
      then show ?thesis using r s1(1) s2(1)
        by (intro exI [of _ ?t]) (auto simp: set_sender_def enqueue_def)
    next
      case full: False
      then have r: "res = MustWait" "x = sess s"
        using assms(1) False None by (simp_all add: SendToClient_def)
      let ?t = "set_sender i (SWaiting d) ?s2"
      have "sess_moves\<^sup>*\<^sup>* ?s2 ?t" using try_full [OF s2(2)] full s2(3) by (auto intro: move)
      then show ?thesis using r s1(1) s2(1) by (intro exI [of _ ?t]) (auto simp: set_sender_def)
    qed
  qed
qed

section \<open>Writing\<close>

lemma sess_before_writer: "s\<lparr>writer := w, sess := x\<rparr> = s\<lparr>sess := x, writer := w\<rparr>"
  by simp

lemma fill_run:
  "fillBatch b q = (b', q') \<Longrightarrow>
    sess_moves\<^sup>*\<^sup>* (s\<lparr>sess := x\<lparr>out := q\<rparr>, writer := WFilling b\<rparr>) (s\<lparr>sess := x\<lparr>out := q'\<rparr>, writer := WWriting b'\<rparr>)"
proof (induction b q rule: fillBatch.induct)
  case (1 b)
  then show ?case
    using w_filled [of "s\<lparr>sess := x\<lparr>out := []\<rparr>, writer := WFilling b\<rparr>" b] by (auto intro: move)
next
  case (2 b m ms)
  let ?s = "s\<lparr>sess := x\<lparr>out := m # ms\<rparr>, writer := WFilling b\<rparr>"
  show ?case
  proof (cases "length b < maxBatch")
    case True
    have "sess_moves\<^sup>*\<^sup>* ?s (s\<lparr>sess := x\<lparr>out := ms\<rparr>, writer := WFilling (b @ [m])\<rparr>)"
      using w_fill [of ?s b m ms] True by (auto simp: sess_before_writer intro: move)
    then show ?thesis using 2 True by auto
  next
    case False
    then show ?thesis using w_filled [of ?s b] 2(2) by (auto intro: move)
  qed
qed

text \<open>One round: after an error of the transport any number of the batch's messages may be out.\<close>

lemma round_run:
  assumes "writeRound tr (t, sess s) = (r, t', x)" and "out (sess s) \<noteq> []"
    and "writer s = WIdle" and "phase s = Open" and "\<not> closeOnce (sess s)"
  shows "\<exists>u b. sess_moves\<^sup>*\<^sup>* s u \<and> sess u = x \<and> out (sess s) = b @ out x
    \<and> (if r then writer u = WIdle \<and> phase u = Open \<and> \<not> closeOnce x \<and> written u = written s @ b
       else writer u = WStopped \<and> (\<exists>c. phase u = Closed c) \<and> written u = written s @ take k b)"
proof -
  obtain m q where o: "out (sess s) = m # q" using assms(2) by (cases "out (sess s)") auto
  obtain b q' where fb: "fillBatch [m] q = (b, q')" by (cases "fillBatch [m] q") auto
  then have b: "m # q = b @ q'" by (auto simp: fillBatch_eq maxBatch_def)
  let ?w = "s\<lparr>sess := (sess s)\<lparr>out := q'\<rparr>, writer := WWriting b\<rparr>"
  have "sess_moves\<^sup>*\<^sup>* s (s\<lparr>sess := (sess s)\<lparr>out := q\<rparr>, writer := WFilling [m]\<rparr>)"
    using w_take [OF assms(3) o] unfolding sess_before_writer by (rule move)
  then have run: "sess_moves\<^sup>*\<^sup>* s ?w" using fill_run [OF fb, of "sess s" s] by (rule rtranclp_trans)
  obtain e t1 where e: "writeMessages tr b t = (e, t1)" by (metis surj_pair)
  show ?thesis
  proof (cases e)
    case None
    then have r: r "x = (sess s)\<lparr>out := q'\<rparr>" using assms(1) o fb e by (auto simp: writeRound_def)
    let ?u = "?w\<lparr>writer := WIdle, written := written s @ b\<rparr>"
    have "sess_moves\<^sup>*\<^sup>* ?w ?u" using w_ok [of ?w b] by (auto intro: move)
    then show ?thesis using run r b o assms(4,5) by (intro exI [of _ ?u] exI [of _ b]) auto
  next
    case (Some c)
    then have "\<not> r" and cl: "closeWith tr (Some c) (t1, (sess s)\<lparr>out := q'\<rparr>) = (t', x)"
      using assms(1) o fb e by (simp_all add: writeRound_def)
    then have r: "\<not> r" "x = snd (closeWith tr (Some c) (t1, (sess s)\<lparr>out := q'\<rparr>))" by simp_all
    let ?v = "?w\<lparr>writer := WClosing c, written := written s @ take k b, lost := drop k b\<rparr>"
    have "sess_moves\<^sup>*\<^sup>* ?w ?v" using w_err [of ?w b c k] by (auto intro: move)
    moreover have "sess_moves\<^sup>*\<^sup>* ?v (closed_by (Some c) ?v\<lparr>writer := WStopped\<rparr>)"
      using assms(4) by (intro writer_close_run) simp_all
    ultimately have "sess_moves\<^sup>*\<^sup>* ?w (closed_by (Some c) ?v\<lparr>writer := WStopped\<rparr>)"
      by (rule rtranclp_trans)
    moreover have "sess (closed_by (Some c) ?v) = x"
      using closed_by_sess [of ?v "Some c" tr t1] assms(5) r(2) by simp
    moreover have "out x = q'" using r(2) assms(5) by (simp add: closeWith_def runOnClose_def Let_def)
    ultimately show ?thesis using run r(1) b o
      by (intro exI [of _ "closed_by (Some c) ?v\<lparr>writer := WStopped\<rparr>"] exI [of _ b])
        (auto intro: rtranclp_trans)
  qed
qed

lemma drain_run:
  "drain tr (t, sess s) = (r, t', x) \<Longrightarrow> writer s = WIdle \<Longrightarrow> phase s = Open \<Longrightarrow>
    \<not> closeOnce (sess s) \<Longrightarrow>
    \<exists>u. sess_moves\<^sup>*\<^sup>* s u \<and> sess u = x \<and>
      (if r then writer u = WIdle \<and> phase u = Open \<and> written u = written s @ out (sess s)
       else writer u = WStopped \<and> (\<exists>c. phase u = Closed c)
         \<and> (\<exists>b q. written u = written s @ b \<and> out (sess s) = b @ q))"
proof (induction "length (out (sess s))" arbitrary: s t rule: less_induct)
  case less
  show ?case
  proof (cases "out (sess s) = []")
    case True
    then have "r" "x = sess s" using less.prems(1) by (simp_all add: drain.simps)
    then show ?thesis using True less.prems(2,3) by (intro exI [of _ s]) simp
  next
    case False
    obtain r1 t1 x1 where w: "writeRound tr (t, sess s) = (r1, t1, x1)" by (metis surj_pair)
    obtain u b where u: "sess_moves\<^sup>*\<^sup>* s u" "sess u = x1" "out (sess s) = b @ out x1"
      "if r1 then writer u = WIdle \<and> phase u = Open \<and> \<not> closeOnce x1 \<and> written u = written s @ b
       else writer u = WStopped \<and> (\<exists>c. phase u = Closed c) \<and> written u = written s @ take 0 b"
      using round_run [OF w False less.prems(2-4), of 0] by blast
    show ?thesis
    proof (cases r1)
      case True
      then have d: "drain tr (t1, sess u) = (r, t', x)"
        using less.prems(1) False w u(2) by (simp add: drain.simps [of tr t])
      have lt: "length (out (sess u)) < length (out (sess s))"
        using writeRound_shrinks [of tr t "sess s" t1 x1] w True False u(2) by simp
      obtain v where "sess_moves\<^sup>*\<^sup>* u v" "sess v = x"
        "if r then writer v = WIdle \<and> phase v = Open \<and> written v = written u @ out (sess u)
         else writer v = WStopped \<and> (\<exists>c. phase v = Closed c)
           \<and> (\<exists>b q. written v = written u @ b \<and> out (sess u) = b @ q)"
        using less.hyps [OF lt d] u(2,4) True by auto
      then show ?thesis using u True by (intro exI [of _ v]) (auto split: if_splits)
    next
      case False
      then have "\<not> r" "x = x1" using less.prems(1) \<open>out (sess s) \<noteq> []\<close> w
        by (simp_all add: drain.simps [of tr t])
      then show ?thesis using u False by (intro exI [of _ u]) auto
    qed
  qed
qed

section \<open>Receiving\<close>

lemma read_run:
  assumes "pump s = PReading" and "dataQ s = []" and "0 < bufSize (sess s)"
  shows "sess_moves\<^sup>*\<^sup>* s (s\<lparr>sess := touch now (sess s), received := received s @ [m],
    consumed := consumed s @ [m]\<rparr>)"
proof -
  let ?a = "s\<lparr>pump := PSending m, sess := touch now (sess s), received := received s @ [m]\<rparr>"
  let ?b = "?a\<lparr>pump := PReading, dataQ := [m]\<rparr>"
  have a: "sess_moves\<^sup>*\<^sup>* s ?a" using p_read [OF assms(1)] by (rule move)
  have b: "sess_moves\<^sup>*\<^sup>* ?a ?b" using p_push [of ?a m] assms(2,3) by (auto simp: touch_def intro: move)
  have "sess_moves\<^sup>*\<^sup>* ?b (?b\<lparr>dataQ := [], consumed := consumed s @ [m]\<rparr>)"
    using consume [of ?b m "[]"] by (auto intro: move)
  moreover have "?b\<lparr>dataQ := [], consumed := consumed s @ [m]\<rparr> = s\<lparr>sess := touch now (sess s),
      received := received s @ [m], consumed := consumed s @ [m]\<rparr>"
    using assms(1,2) by simp
  ultimately show ?thesis using rtranclp_trans [OF a b] by (simp add: rtranclp_trans)
qed

text \<open>A consumer of \<^verbatim>\<open>Data\<close> that keeps up with the reader.\<close>

lemma Messages_run:
  "Messages tr (map (\<lambda>now. (now, True)) clocks) (t, sess s) = (ms, (t', x), fin) \<Longrightarrow>
    pump s = PReading \<Longrightarrow> dataQ s = [] \<Longrightarrow> 0 < bufSize (sess s) \<Longrightarrow> phase s = Open \<Longrightarrow>
    \<not> closeOnce (sess s) \<Longrightarrow>
    \<exists>u. sess_moves\<^sup>*\<^sup>* s u \<and> sess u = x \<and> received u = received s @ ms \<and> consumed u = consumed s @ ms
      \<and> dataQ u = [] \<and> pump u = (if fin then PEnded else PReading)"
proof (induction clocks arbitrary: s t ms)
  case Nil
  then show ?case by (intro exI [of _ s]) simp
next
  case (Cons now clocks)
  obtain res t1 where rd: "readMessage tr t = (res, t1)" by (metis surj_pair)
  show ?case
  proof (cases res)
    case (Inl e)
    let ?c = "Some (readCause e)"
    have r: "ms = []" "fin" "x = snd (closeWith tr ?c (t1, sess s))"
      using Cons.prems(1) rd Inl
      by (auto simp: closeWith_def Let_def split: if_splits)
    let ?a = "s\<lparr>pump := PClosing (readCause e)\<rparr>"
    have "sess_moves\<^sup>*\<^sup>* s ?a" using p_read_err [OF Cons.prems(2)] by (rule move)
    moreover have "sess_moves\<^sup>*\<^sup>* ?a (closed_by ?c ?a\<lparr>pump := PEnded, dataClosed := True\<rparr>)"
      using Cons.prems(5) by (intro pump_close_run) simp_all
    ultimately have "sess_moves\<^sup>*\<^sup>* s (closed_by ?c ?a\<lparr>pump := PEnded, dataClosed := True\<rparr>)"
      by (rule rtranclp_trans)
    moreover have "sess (closed_by ?c ?a) = x"
      using closed_by_sess [of ?a ?c tr t1] Cons.prems(6) r(3) by simp
    ultimately show ?thesis using r(1,2) Cons.prems(3)
      by (intro exI [of _ "closed_by ?c ?a\<lparr>pump := PEnded, dataClosed := True\<rparr>"]) simp
  next
    case (Inr m)
    let ?s = "s\<lparr>sess := touch now (sess s), received := received s @ [m], consumed := consumed s @ [m]\<rparr>"
    obtain ns where ns: "ms = m # ns"
      "Messages tr (map (\<lambda>now. (now, True)) clocks) (t1, sess ?s) = (ns, (t', x), fin)"
      using Cons.prems(1) rd Inr by (auto split: prod.splits)
    obtain u where "sess_moves\<^sup>*\<^sup>* ?s u" "sess u = x" "received u = received ?s @ ns"
      "consumed u = consumed ?s @ ns" "dataQ u = []" "pump u = (if fin then PEnded else PReading)"
      using Cons.IH [OF ns(2)] Cons.prems(2-6) by (auto simp: touch_def)
    then show ?thesis
      using read_run [OF Cons.prems(2-4), of m now] ns(1) by (intro exI [of _ u]) auto
  qed
qed

section \<open>The operations are runs of the machine\<close>

lemma bufSize_step: "sess_step s l t \<Longrightarrow> bufSize (sess t) = bufSize (sess s)"
  by (induction rule: sess_step.induct) (auto simp: step_ops)

interpretation sess_buf: safety_invariant sess_init sess_step "\<lambda>s. 0 < bufSize (sess s)"
  by unfold_locales (auto simp: sess_init_def bufSize_step)

text \<open>
  C10. In every reachable state in which the session is open, the sequential operations are runs of
  the goroutines: the writer emptying the queue, which puts the queued messages out in order
  and stops with the session closed if the transport fails; a SendToClient call up to its
  result or its wait; and Messages read by Data's pump for a consumer that keeps up.
\<close>

theorem session_operations_are_runs:
  assumes "sess_reachable s" and "phase s = Open"
  shows "(writer s = WIdle \<longrightarrow> drain tr (t, sess s) = (r, t', x) \<longrightarrow>
      (\<exists>u. sess_moves\<^sup>*\<^sup>* s u \<and> sess u = x \<and>
        (if r then writer u = WIdle \<and> phase u = Open \<and> written u = written s @ out (sess s)
         else writer u = WStopped \<and> (\<exists>c. phase u = Closed c)
           \<and> (\<exists>b q. written u = written s @ b \<and> out (sess s) = b @ q))))
    \<and> (senders s i = SIdle \<longrightarrow> SendToClient d (sess s) = (res, y) \<longrightarrow>
      (\<exists>u. sess_moves\<^sup>*\<^sup>* s u \<and> sess u = y \<and> senders u = (senders s)(i := sender_after d res)
        \<and> accepted u = accepted s @ (if res = Sent then [d] else [])))
    \<and> (pump s = PReading \<longrightarrow> dataQ s = [] \<longrightarrow>
      Messages tr (map (\<lambda>now. (now, True)) clocks) (t, sess s) = (ms, (t'', z), fin) \<longrightarrow>
      (\<exists>u. sess_moves\<^sup>*\<^sup>* s u \<and> sess u = z \<and> received u = received s @ ms
        \<and> consumed u = consumed s @ ms \<and> dataQ u = [] \<and> pump u = (if fin then PEnded else PReading)))"
proof -
  have o: "\<not> closeOnce (sess s)"
    using sess_safety.inv_reachable [OF assms(1)] assms(2) by (simp add: sess_inv_def close_inv_def)
  have b: "0 < bufSize (sess s)" using sess_buf.inv_reachable [OF assms(1)] .
  show ?thesis
    using drain_run [of tr t s r t' x] send_run [of d s res y i] Messages_run [of tr clocks t s ms t'' z fin]
      o b assms(2) by blast
qed

theorem session_operations_are_runs_witness:
  "\<exists>u. sess_moves\<^sup>*\<^sup>* sample0 u \<and> senders u 0 = SDone [65] None \<and> accepted u = [[65]]"
proof -
  let ?x = "(sess sample0)\<lparr>out := [[65]]\<rparr>"
  have sent: "SendToClient [65] (sess sample0) = (Sent, ?x)"
    by (simp add: SendToClient_def sample_defs)
  have idle: "phase sample0 = Open" "senders sample0 0 = SIdle" "accepted sample0 = []"
    by (simp_all add: sample0_def)
  note run = conjunct1 [OF conjunct2 [OF session_operations_are_runs [OF sample0_reachable idle(1)]]]
  from mp [OF mp [OF run idle(2)] sent] obtain u where "sess_moves\<^sup>*\<^sup>* sample0 u"
    "senders u = (senders sample0)(0 := sender_after [65] Sent)" "accepted u = accepted sample0 @ [[65]]"
    by auto
  then show ?thesis using idle(3) by auto
qed

end
