(* ===== verification/ServerMachine.thy ===== *)
theory ServerMachine
  imports Server
begin

text \<open>
  The goroutines of one server, interleaved: the accept loops, the goroutine of every
  connection from its admission to the return of its handler, the closing of every session
  by whoever closes it first, and \<^verbatim>\<open>StopListener\<close>. TCP, WebSocket, QUIC and UDP all take a
  connection (for UDP a new client address) through the same steps; between \<^verbatim>\<open>enter\<close> and
  \<^verbatim>\<open>newSession\<close> the WebSocket upgrade or the wait for a QUIC stream may fail. A session's
  close is here its effect on the server, \<^verbatim>\<open>remove\<close>, in two steps; \<open>SessionMachine\<close> shows that
  it runs once.
\<close>

section \<open>States\<close>

text \<open>
  \<open>Counted n\<close>: the addition of \<^verbatim>\<open>tryAdmit\<close> returned \<open>n\<close>. \<open>Releasing\<close>: refused by \<^verbatim>\<open>enter\<close>.
  \<open>Failed\<close>: a failed handshake after its release. \<open>Created\<close>: between \<^verbatim>\<open>newSession\<close> and \<^verbatim>\<open>add\<close>.
  \<open>Finished\<close>: the goroutine has left the wait group.
\<close>

datatype conn_phase =
    Incoming | Counted int | Admitted | Releasing | Rejected | Entered | Failed
  | Created | Serving | HandlerDone | Finished

datatype sess_phase = NoSession | SessOpen | SessRemoved | SessReleased

record conn =
  peer :: string
  cphase :: conn_phase
  csess :: sess_phase

datatype stop_phase =
    Running | Cancelling | ClosingListener "session_ptr set" | ClosingSessions "session_ptr set"
  | Waiting | Returned

record srv_sys =
  srv :: server
  conns :: "conn list"
  loops :: nat
  stopAt :: stop_phase
  snapshot :: "session_ptr set"
  raced :: "session_ptr set"

definition srv_init :: "srv_sys \<Rightarrow> bool" where
  "srv_init s \<longleftrightarrow> (\<exists>p c. 1 \<le> MaxConnections c \<and> s = \<lparr>srv = newServer p c, conns = [], loops = 0,
     stopAt = Running, snapshot = {}, raced = {}\<rparr>)"

section \<open>Steps\<close>

definition set_conn :: "nat \<Rightarrow> (conn \<Rightarrow> conn) \<Rightarrow> srv_sys \<Rightarrow> srv_sys" where
  "set_conn i f s = s\<lparr>conns := (conns s)[i := f (conns s ! i)]\<rparr>"

definition to_phase :: "nat \<Rightarrow> conn_phase \<Rightarrow> srv_sys \<Rightarrow> srv_sys" where
  "to_phase i p = set_conn i (\<lambda>c. c\<lparr>cphase := p\<rparr>)"

definition at :: "srv_sys \<Rightarrow> nat \<Rightarrow> conn_phase \<Rightarrow> bool" where
  "at s i p \<longleftrightarrow> i < length (conns s) \<and> cphase (conns s ! i) = p"

definition with_srv :: "(server \<Rightarrow> server) \<Rightarrow> srv_sys \<Rightarrow> srv_sys" where
  "with_srv f s = s\<lparr>srv := f (srv s)\<rparr>"

text \<open>History: the sessions that were already closed when \<^verbatim>\<open>add\<close> registered them.\<close>

definition note_race :: "nat \<Rightarrow> srv_sys \<Rightarrow> srv_sys" where
  "note_race i s = (if csess (conns s ! i) = SessOpen then s else s\<lparr>raced := insert i (raced s)\<rparr>)"

datatype srv_label =
    KServe | KServeRefused | KServeExit | KAccept string | KCount nat | KAdmit nat | KReject nat
  | KEnter nat | KRefuse nat | KRelease nat | KFail nat | KFailDone nat | KCreate nat | KAdd nat
  | KRemove nat | KFree nat | KHandlerReturns nat | KDone nat
  | KParentEnds err | KStop | KStopCancel | KStopListener | KStopSession nat | KStopClosed | KStopReturn

inductive srv_step :: "srv_sys \<Rightarrow> srv_label \<Rightarrow> srv_sys \<Rightarrow> bool" where
  \<comment> \<open>\<^verbatim>\<open>Serve\<close>\<close>
  serve: "enter (srv s) = (True, v) \<Longrightarrow>
    srv_step s KServe (s\<lparr>srv := v, loops := Suc (loops s)\<rparr>)"
| serve_refused: "enter (srv s) = (False, v) \<Longrightarrow> srv_step s KServeRefused (s\<lparr>srv := v\<rparr>)"
| serve_exit: "loops s = Suc n \<Longrightarrow>
    srv_step s KServeExit (with_srv wg_Done (s\<lparr>loops := n\<rparr>))"
  \<comment> \<open>one connection\<close>
| accept: "srv_step s (KAccept a)
    (s\<lparr>conns := conns s @ [\<lparr>peer = a, cphase = Incoming, csess = NoSession\<rparr>]\<rparr>)"
| count: "at s i Incoming \<Longrightarrow> admit_add (srv s) = (n, v) \<Longrightarrow>
    srv_step s (KCount i) (to_phase i (Counted n) (s\<lparr>srv := v\<rparr>))"
| admit: "at s i (Counted n) \<Longrightarrow> admit_check n (srv s) = (True, v) \<Longrightarrow>
    srv_step s (KAdmit i) (to_phase i Admitted (s\<lparr>srv := v\<rparr>))"
| reject: "at s i (Counted n) \<Longrightarrow> admit_check n (srv s) = (False, v) \<Longrightarrow>
    srv_step s (KReject i) (to_phase i Rejected (s\<lparr>srv := v\<rparr>))"
| enter_ok: "at s i Admitted \<Longrightarrow> enter (srv s) = (True, v) \<Longrightarrow>
    srv_step s (KEnter i) (to_phase i Entered (s\<lparr>srv := v\<rparr>))"
| enter_refused: "at s i Admitted \<Longrightarrow> enter (srv s) = (False, v) \<Longrightarrow>
    srv_step s (KRefuse i) (to_phase i Releasing (s\<lparr>srv := v\<rparr>))"
| release: "at s i Releasing \<Longrightarrow> srv_step s (KRelease i) (to_phase i Rejected (with_srv release s))"
| fail: "at s i Entered \<Longrightarrow> srv_step s (KFail i) (to_phase i Failed (with_srv release s))"
| fail_done: "at s i Failed \<Longrightarrow> srv_step s (KFailDone i) (to_phase i Finished (with_srv wg_Done s))"
| create: "at s i Entered \<Longrightarrow>
    srv_step s (KCreate i) (set_conn i (\<lambda>c. c\<lparr>cphase := Created, csess := SessOpen\<rparr>) s)"
| add: "at s i Created \<Longrightarrow>
    srv_step s (KAdd i) (note_race i (to_phase i Serving (with_srv (add (peer (conns s ! i)) i) s)))"
| handler_returns: "at s i Serving \<Longrightarrow> srv_step s (KHandlerReturns i) (to_phase i HandlerDone s)"
| serve_done: "at s i HandlerDone \<Longrightarrow> csess (conns s ! i) = SessReleased \<Longrightarrow>
    srv_step s (KDone i) (to_phase i Finished (with_srv wg_Done s))"
  \<comment> \<open>\<^verbatim>\<open>onClose\<close>, run by the first caller of \<^verbatim>\<open>closeWith\<close>\<close>
| sess_remove: "i < length (conns s) \<Longrightarrow> csess (conns s ! i) = SessOpen \<Longrightarrow>
    srv_step s (KRemove i) (set_conn i (\<lambda>c. c\<lparr>csess := SessRemoved\<rparr>)
      (with_srv (remove_entry (peer (conns s ! i)) i) s))"
| sess_free: "i < length (conns s) \<Longrightarrow> csess (conns s ! i) = SessRemoved \<Longrightarrow>
    srv_step s (KFree i) (set_conn i (\<lambda>c. c\<lparr>csess := SessReleased\<rparr>) (with_srv release s))"
  \<comment> \<open>\<^verbatim>\<open>stop\<close>, and the end of the context given to the constructor\<close>
| parent_ends: "serverCtx (srv s) = None \<Longrightarrow>
    srv_step s (KParentEnds e) (with_srv (\<lambda>v. v\<lparr>serverCtx := Some e\<rparr>) s)"
| stop: "stopAt s = Running \<Longrightarrow> stop_begin (srv s) = (m, v) \<Longrightarrow>
    srv_step s KStop (s\<lparr>srv := v, stopAt := Cancelling, snapshot := ran m\<rparr>)"
| stop_ctx: "stopAt s = Cancelling \<Longrightarrow>
    srv_step s KStopCancel (with_srv stop_cancel (s\<lparr>stopAt := ClosingListener (snapshot s)\<rparr>))"
| stop_listener: "stopAt s = ClosingListener ps \<Longrightarrow>
    srv_step s KStopListener (s\<lparr>stopAt := ClosingSessions ps\<rparr>)"
| stop_session: "stopAt s = ClosingSessions ps \<Longrightarrow> i \<in> ps \<Longrightarrow> i < length (conns s) \<Longrightarrow>
    csess (conns s ! i) = SessReleased \<Longrightarrow>
    srv_step s (KStopSession i) (s\<lparr>stopAt := ClosingSessions (ps - {i})\<rparr>)"
| stop_closed: "stopAt s = ClosingSessions {} \<Longrightarrow> srv_step s KStopClosed (s\<lparr>stopAt := Waiting\<rparr>)"
| stop_return: "stopAt s = Waiting \<Longrightarrow> wg (srv s) = 0 \<Longrightarrow>
    srv_step s KStopReturn (s\<lparr>stopAt := Returned\<rparr>)"

inductive_cases admitE: "srv_step s (KAdmit i) t"
inductive_cases enterE: "srv_step s (KEnter i) t"
inductive_cases serveE: "srv_step s KServe t"

section \<open>Who holds what\<close>

fun slot_phase :: "conn_phase \<Rightarrow> bool" where
  "slot_phase (Counted n) = True"
| "slot_phase Admitted = True"
| "slot_phase Releasing = True"
| "slot_phase Entered = True"
| "slot_phase _ = False"

definition holds_slot :: "conn \<Rightarrow> bool" where
  "holds_slot c \<longleftrightarrow> slot_phase (cphase c) \<or> csess c = SessOpen \<or> csess c = SessRemoved"

text \<open>Admitted, or certain to be.\<close>

fun won_phase :: "int \<Rightarrow> conn_phase \<Rightarrow> bool" where
  "won_phase m (Counted n) = (n \<le> m)"
| "won_phase m p = slot_phase p"

definition has_won :: "int \<Rightarrow> conn \<Rightarrow> bool" where
  "has_won m c \<longleftrightarrow> won_phase m (cphase c) \<or> csess c = SessOpen \<or> csess c = SessRemoved"

fun in_group :: "conn_phase \<Rightarrow> bool" where
  "in_group Entered = True"
| "in_group Failed = True"
| "in_group Created = True"
| "in_group Serving = True"
| "in_group HandlerDone = True"
| "in_group _ = False"

definition has_session :: "conn_phase \<Rightarrow> bool" where
  "has_session p \<longleftrightarrow> p = Created \<or> p = Serving \<or> p = HandlerDone"

fun registered_phase :: "conn_phase \<Rightarrow> bool" where
  "registered_phase Serving = True"
| "registered_phase HandlerDone = True"
| "registered_phase Finished = True"
| "registered_phase _ = False"

text \<open>What a connection's phase says about its session.\<close>

definition conn_ok :: "conn \<Rightarrow> bool" where
  "conn_ok c \<longleftrightarrow> (csess c \<noteq> NoSession \<longrightarrow> has_session (cphase c) \<or> cphase c = Finished)
     \<and> (has_session (cphase c) \<longrightarrow> csess c \<noteq> NoSession)
     \<and> (cphase c = Finished \<longrightarrow> csess c = NoSession \<or> csess c = SessReleased)"

definition conns_ok :: "srv_sys \<Rightarrow> bool" where
  "conns_ok s \<longleftrightarrow> (\<forall>i < length (conns s). conn_ok (conns s ! i))"

definition slot_inv :: "srv_sys \<Rightarrow> bool" where
  "slot_inv s \<longleftrightarrow> active (srv s) = int (count_where holds_slot (conns s))"

definition won_inv :: "srv_sys \<Rightarrow> bool" where
  "won_inv s \<longleftrightarrow>
     int (count_where (has_won (MaxConnections (cfg (srv s)))) (conns s)) \<le> MaxConnections (cfg (srv s))"

definition group_inv :: "srv_sys \<Rightarrow> bool" where
  "group_inv s \<longleftrightarrow>
     wg (srv s) = int (loops s) + int (count_where (\<lambda>c. in_group (cphase c)) (conns s))"

definition registry_inv :: "srv_sys \<Rightarrow> bool" where
  "registry_inv s \<longleftrightarrow> (\<forall>a p. byAddr (srv s) a = Some p \<longrightarrow>
     p < length (conns s) \<and> peer (conns s ! p) = a \<and> registered_phase (cphase (conns s ! p))
     \<and> csess (conns s ! p) \<noteq> NoSession)"

text \<open>
  An entry is an open session, or one that lost the race; an open session with an address of
  its own has an entry.
\<close>

definition entry_inv :: "srv_sys \<Rightarrow> bool" where
  "entry_inv s \<longleftrightarrow>
     (\<forall>a p. byAddr (srv s) a = Some p \<longrightarrow> csess (conns s ! p) = SessOpen \<or> p \<in> raced s)"

definition shared :: "string list \<Rightarrow> nat \<Rightarrow> bool" where
  "shared ps i \<longleftrightarrow> (\<exists>j < length ps. j \<noteq> i \<and> ps ! j = ps ! i)"

definition found_inv :: "srv_sys \<Rightarrow> bool" where
  "found_inv s \<longleftrightarrow> (\<forall>i < length (conns s).
     registered_phase (cphase (conns s ! i)) \<and> csess (conns s ! i) = SessOpen \<longrightarrow>
     byAddr (srv s) (peer (conns s ! i)) = Some i \<or> shared (map peer (conns s)) i)"

definition stop_inv :: "srv_sys \<Rightarrow> bool" where
  "stop_inv s \<longleftrightarrow>
     (stopped (srv s) \<longleftrightarrow> stopAt s \<noteq> Running)
   \<and> (stopAt s \<notin> {Running, Cancelling} \<longrightarrow> serverCtx (srv s) \<noteq> None)
   \<and> (stopAt s = Returned \<longrightarrow>
        loops s = 0 \<and> (\<forall>i < length (conns s). \<not> in_group (cphase (conns s ! i))))
   \<and> (\<forall>ps. stopAt s = ClosingListener ps \<or> stopAt s = ClosingSessions ps \<longrightarrow> ps \<subseteq> snapshot s)
   \<and> (\<forall>p \<in> snapshot s. p < length (conns s) \<and> csess (conns s ! p) \<noteq> NoSession)"

section \<open>Frames of the steps\<close>

lemma machine_fields [simp]:
  "srv (set_conn i f s) = srv s" "loops (set_conn i f s) = loops s" "stopAt (set_conn i f s) = stopAt s"
  "snapshot (set_conn i f s) = snapshot s" "length (conns (set_conn i f s)) = length (conns s)"
  "srv (to_phase i p s) = srv s" "loops (to_phase i p s) = loops s" "stopAt (to_phase i p s) = stopAt s"
  "snapshot (to_phase i p s) = snapshot s" "length (conns (to_phase i p s)) = length (conns s)"
  "srv (with_srv g s) = g (srv s)" "loops (with_srv g s) = loops s" "stopAt (with_srv g s) = stopAt s"
  "snapshot (with_srv g s) = snapshot s" "conns (with_srv g s) = conns s"
  by (simp_all add: set_conn_def to_phase_def with_srv_def)

lemma machine_race [simp]:
  "raced (set_conn i f s) = raced s" "raced (to_phase i p s) = raced s" "raced (with_srv g s) = raced s"
  "srv (note_race i s) = srv s" "loops (note_race i s) = loops s" "stopAt (note_race i s) = stopAt s"
  "snapshot (note_race i s) = snapshot s" "conns (note_race i s) = conns s"
  "q \<in> raced (note_race i s) \<longleftrightarrow> q \<in> raced s \<or> q = i \<and> csess (conns s ! i) \<noteq> SessOpen"
  by (auto simp: set_conn_def to_phase_def with_srv_def note_race_def)

lemma set_conn_nth [simp]:
  "i < length (conns s) \<Longrightarrow>
    conns (set_conn i f s) ! j = (if j = i then f (conns s ! i) else conns s ! j)"
  by (simp add: set_conn_def)

lemma to_phase_nth [simp]:
  "i < length (conns s) \<Longrightarrow>
    conns (to_phase i p s) ! j = (if j = i then (conns s ! i)\<lparr>cphase := p\<rparr> else conns s ! j)"
  by (simp add: to_phase_def)

lemma set_conn_count [simp]:
  assumes "i < length (conns s)"
  shows "int (count_where P (conns (set_conn i f s))) =
    int (count_where P (conns s)) - of_bool (P (conns s ! i)) + of_bool (P (f (conns s ! i)))"
proof -
  have "int (count_where P ((conns s)[i := f (conns s ! i)])) + of_bool (P (conns s ! i)) =
      int (count_where P (conns s)) + of_bool (P (f (conns s ! i)))"
    using count_where_update [OF assms, of P "f (conns s ! i)"] by (metis of_nat_add of_nat_of_bool)
  then show ?thesis
    unfolding set_conn_def by (cases "P (conns s ! i)"; cases "P (f (conns s ! i))") simp_all
qed

lemma to_phase_count [simp]:
  "i < length (conns s) \<Longrightarrow> int (count_where P (conns (to_phase i p s))) =
    int (count_where P (conns s)) - of_bool (P (conns s ! i)) + of_bool (P ((conns s ! i)\<lparr>cphase := p\<rparr>))"
  by (simp add: to_phase_def)

lemmas srv_ops [step_ops] = enter_def wg_Done_def admit_add_def admit_check_def release_def add_def
  stop_begin_def stop_cancel_def

section \<open>The invariants hold\<close>

lemma conns_ok_step: "srv_step s l t \<Longrightarrow> conns_ok s \<Longrightarrow> conns_ok t"
  by (induction rule: srv_step.induct)
    (auto simp: conns_ok_def at_def conn_ok_def has_session_def nth_append)

lemma slot_inv_step: "srv_step s l t \<Longrightarrow> conns_ok s \<Longrightarrow> slot_inv s \<Longrightarrow> slot_inv t"
  by (induction rule: srv_step.induct)
    (auto simp: slot_inv_def conns_ok_def conn_ok_def at_def holds_slot_def has_session_def step_ops
      split: if_splits)

lemma group_inv_step: "srv_step s l t \<Longrightarrow> group_inv s \<Longrightarrow> group_inv t"
  by (induction rule: srv_step.induct)
    (auto simp: group_inv_def at_def step_ops split: if_splits)

lemma slot_of_won: "has_won m c \<Longrightarrow> holds_slot c"
  by (cases "cphase c") (auto simp: has_won_def holds_slot_def)

lemma won_le_slots: "count_where (has_won m) cs \<le> count_where holds_slot cs"
  by (rule count_where_mono) (rule slot_of_won)

lemma won_inv_step: "srv_step s l t \<Longrightarrow> conns_ok s \<Longrightarrow> slot_inv s \<Longrightarrow> won_inv s \<Longrightarrow> won_inv t"
proof (induction rule: srv_step.induct)
  case (count s i n v)
  let ?m = "MaxConnections (cfg (srv s))"
  have "int (count_where (has_won ?m) (conns s)) \<le> active (srv s)"
    using won_le_slots [of ?m "conns s"] count.prems(2) by (simp add: slot_inv_def)
  moreover have "csess (conns s ! i) = NoSession"
    using count by (auto simp: conns_ok_def conn_ok_def at_def has_session_def)
  ultimately show ?case using count by (auto simp: won_inv_def at_def has_won_def admit_add_def)
qed (auto simp: won_inv_def conns_ok_def conn_ok_def at_def has_won_def has_session_def step_ops
      split: if_splits)

lemma registry_inv_step: "srv_step s l t \<Longrightarrow> conns_ok s \<Longrightarrow> registry_inv s \<Longrightarrow> registry_inv t"
  by (induction rule: srv_step.induct)
    (auto simp: registry_inv_def conns_ok_def conn_ok_def at_def has_session_def step_ops nth_append
      remove_entry_lookup less_SucI split: if_splits)

lemma entry_inv_step:
  "srv_step s l t \<Longrightarrow> conns_ok s \<Longrightarrow> registry_inv s \<Longrightarrow> entry_inv s \<Longrightarrow> entry_inv t"
  by (induction rule: srv_step.induct;
      auto simp: entry_inv_def registry_inv_def conns_ok_def conn_ok_def at_def has_session_def step_ops
        nth_append remove_entry_lookup split: if_splits;
      metis sess_phase.distinct)

lemma peers_set_conn [simp]:
  "(\<And>c. peer (f c) = peer c) \<Longrightarrow> map peer (conns (set_conn i f s)) = map peer (conns s)"
  by (cases "i < length (conns s)")
    (simp_all add: set_conn_def map_update list_update_same_conv list_update_beyond)

lemma peers_to_phase [simp]: "map peer (conns (to_phase i p s)) = map peer (conns s)"
  by (simp add: to_phase_def)

lemma shared_append: "i < length ps \<Longrightarrow> shared ps i \<Longrightarrow> shared (ps @ qs) i"
  by (auto simp: shared_def nth_append intro: less_SucI trans_less_add1)

lemma sharedI: "i < length (conns s) \<Longrightarrow> j < length (conns s) \<Longrightarrow> i \<noteq> j \<Longrightarrow>
    peer (conns s ! j) = peer (conns s ! i) \<Longrightarrow> shared (map peer (conns s)) i"
  by (auto simp: shared_def)

lemma found_inv_step: "srv_step s l t \<Longrightarrow> conns_ok s \<Longrightarrow> found_inv s \<Longrightarrow> found_inv t"
proof (induction rule: srv_step.induct)
  case (add s i)
  then show ?case by (auto simp: found_inv_def at_def add_def intro: sharedI)
next
  case (sess_remove s i)
  then show ?case by (auto simp: found_inv_def remove_entry_def intro: sharedI)
next
  case (accept s a)
  then show ?case by (auto simp: found_inv_def nth_append shared_append)
qed (auto simp: found_inv_def conns_ok_def conn_ok_def at_def has_session_def step_ops split: if_splits)

lemma group_empty:
  assumes "group_inv s" and "wg (srv s) = 0"
  shows "loops s = 0 \<and> (\<forall>i < length (conns s). \<not> in_group (cphase (conns s ! i)))"
proof -
  have "loops s = 0" and "count_where (\<lambda>c. in_group (cphase c)) (conns s) = 0"
    using assms by (simp_all add: group_inv_def)
  then show ?thesis by (simp add: count_where_zero)
qed

lemma stop_inv_step:
  "srv_step s l t \<Longrightarrow> registry_inv s \<Longrightarrow> group_inv s \<Longrightarrow> stop_inv s \<Longrightarrow> stop_inv t"
proof (induction rule: srv_step.induct)
  case (stop_return s)
  then show ?case using group_empty [of s] by (simp add: stop_inv_def)
qed (auto simp: stop_inv_def registry_inv_def at_def step_ops nth_append less_SucI ran_def split: if_splits)

definition srv_inv :: "srv_sys \<Rightarrow> bool" where
  "srv_inv s \<longleftrightarrow> conns_ok s \<and> slot_inv s \<and> won_inv s \<and> group_inv s \<and> registry_inv s
     \<and> entry_inv s \<and> found_inv s \<and> stop_inv s"

lemma srv_inv_init: "srv_init s \<Longrightarrow> srv_inv s"
  by (auto simp: srv_init_def srv_inv_def newServer_def conns_ok_def slot_inv_def won_inv_def
      group_inv_def registry_inv_def entry_inv_def found_inv_def stop_inv_def)

lemma srv_inv_step: "srv_inv s \<Longrightarrow> srv_step s l t \<Longrightarrow> srv_inv t"
  unfolding srv_inv_def using conns_ok_step slot_inv_step won_inv_step group_inv_step registry_inv_step entry_inv_step found_inv_step
    stop_inv_step by simp

interpretation srv_safety: safety_invariant srv_init srv_step srv_inv
  by unfold_locales (auto intro: srv_inv_init srv_inv_step)

abbreviation srv_reachable :: "srv_sys \<Rightarrow> bool" where
  "srv_reachable \<equiv> reachable srv_init srv_step"

end
