(* ===== verification/ServerProps.thy ===== *)
theory ServerProps
  imports ServerMachine
begin

text \<open>
  What the server machine guarantees in every reachable state, for any number of connections
  and any interleaving: the connection limit, the registry, the stop sequence and its
  progress; with concrete runs, among them the one that leaves a closed session registered.
\<close>

section \<open>Concrete runs\<close>

fun srv_exec :: "srv_label \<Rightarrow> srv_sys \<Rightarrow> srv_sys option" where
  "srv_exec (KAccept a) s =
     Some (s\<lparr>conns := conns s @ [\<lparr>peer = a, cphase = Incoming, csess = NoSession\<rparr>]\<rparr>)"
| "srv_exec (KCount i) s =
     (if at s i Incoming then case admit_add (srv s) of (n, v) \<Rightarrow>
        Some (to_phase i (Counted n) (s\<lparr>srv := v\<rparr>)) else None)"
| "srv_exec (KAdmit i) s =
     (if i < length (conns s) then case cphase (conns s ! i) of
        Counted n \<Rightarrow> (case admit_check n (srv s) of (b, v) \<Rightarrow>
          if b then Some (to_phase i Admitted (s\<lparr>srv := v\<rparr>)) else None)
      | _ \<Rightarrow> None else None)"
| "srv_exec (KEnter i) s =
     (if at s i Admitted then case enter (srv s) of (b, v) \<Rightarrow>
        if b then Some (to_phase i Entered (s\<lparr>srv := v\<rparr>)) else None else None)"
| "srv_exec (KCreate i) s =
     (if at s i Entered then Some (set_conn i (\<lambda>c. c\<lparr>cphase := Created, csess := SessOpen\<rparr>) s) else None)"
| "srv_exec (KAdd i) s =
     (if at s i Created
      then Some (note_race i (to_phase i Serving (with_srv (add (peer (conns s ! i)) i) s))) else None)"
| "srv_exec (KHandlerReturns i) s = (if at s i Serving then Some (to_phase i HandlerDone s) else None)"
| "srv_exec (KDone i) s =
     (if at s i HandlerDone \<and> csess (conns s ! i) = SessReleased
      then Some (to_phase i Finished (with_srv wg_Done s)) else None)"
| "srv_exec (KRemove i) s =
     (if i < length (conns s) \<and> csess (conns s ! i) = SessOpen
      then Some (set_conn i (\<lambda>c. c\<lparr>csess := SessRemoved\<rparr>)
        (with_srv (remove_entry (peer (conns s ! i)) i) s)) else None)"
| "srv_exec (KFree i) s =
     (if i < length (conns s) \<and> csess (conns s ! i) = SessRemoved
      then Some (set_conn i (\<lambda>c. c\<lparr>csess := SessReleased\<rparr>) (with_srv release s)) else None)"
| "srv_exec KStop s =
     (if stopAt s = Running then case stop_begin (srv s) of (m, v) \<Rightarrow>
        Some (s\<lparr>srv := v, stopAt := Cancelling, snapshot := ran m\<rparr>) else None)"
| "srv_exec KStopCancel s =
     (if stopAt s = Cancelling
      then Some (with_srv stop_cancel (s\<lparr>stopAt := ClosingListener (snapshot s)\<rparr>)) else None)"
| "srv_exec KStopListener s =
     (case stopAt s of ClosingListener ps \<Rightarrow> Some (s\<lparr>stopAt := ClosingSessions ps\<rparr>) | _ \<Rightarrow> None)"
| "srv_exec KStopClosed s =
     (case stopAt s of ClosingSessions ps \<Rightarrow> if ps = {} then Some (s\<lparr>stopAt := Waiting\<rparr>) else None
      | _ \<Rightarrow> None)"
| "srv_exec KStopReturn s =
     (if stopAt s = Waiting \<and> wg (srv s) = 0 then Some (s\<lparr>stopAt := Returned\<rparr>) else None)"
| "srv_exec _ s = None"

lemma srv_exec_sound: "srv_exec l s = Some t \<Longrightarrow> srv_step s l t"
  by (cases l)
    (auto simp: at_def intro: srv_step.intros split: if_splits prod.splits conn_phase.splits stop_phase.splits)

fun srv_run :: "srv_label list \<Rightarrow> srv_sys \<Rightarrow> srv_sys option" where
  "srv_run [] s = Some s"
| "srv_run (l # ls) s = (case srv_exec l s of None \<Rightarrow> None | Some t \<Rightarrow> srv_run ls t)"

lemma srv_run_reachable: "srv_reachable s \<Longrightarrow> srv_run ls s = Some t \<Longrightarrow> srv_reachable t"
  by (induction ls arbitrary: s) (auto split: option.splits dest: srv_exec_sound intro: reach_step)

definition idle_server :: srv_sys where
  "idle_server = \<lparr>srv = newServer None (WithMaxConnections 1 defaultConfig), conns = [], loops = 0,
     stopAt = Running, snapshot = {}, raced = {}\<rparr>"

lemma idle_reachable: "srv_reachable idle_server"
proof (rule reach_init)
  show "srv_init idle_server"
    unfolding srv_init_def idle_server_def
    by (intro exI [of _ None] exI [of _ "WithMaxConnections 1 defaultConfig"])
      (simp add: WithMaxConnections_def)
qed

definition serving_run :: "srv_label list" where
  "serving_run = [KAccept ''c'', KCount 0, KAdmit 0, KEnter 0, KCreate 0, KAdd 0]"

definition race_run :: "srv_label list" where
  "race_run = [KAccept ''c'', KCount 0, KAdmit 0, KEnter 0, KCreate 0, KStop, KStopCancel, KRemove 0,
     KFree 0, KAdd 0, KHandlerReturns 0, KDone 0, KStopListener, KStopClosed, KStopReturn]"

lemmas run_defs = serving_run_def race_run_def idle_server_def newServer_def WithMaxConnections_def
  defaultConfig_def to_phase_def set_conn_def with_srv_def at_def note_race_def srv_ops
  remove_entry_def release_def cancel_def

definition serving_state :: srv_sys where
  "serving_state = the (srv_run serving_run idle_server)"

definition race_state :: srv_sys where
  "race_state = the (srv_run race_run idle_server)"

lemma serving_state_run: "srv_run serving_run idle_server = Some serving_state"
  by (simp add: serving_state_def run_defs)

lemma race_state_run: "srv_run race_run idle_server = Some race_state"
  by (simp add: race_state_def run_defs)

lemma serving_reachable: "srv_reachable serving_state"
  by (rule srv_run_reachable [OF idle_reachable serving_state_run])

lemma race_reachable: "srv_reachable race_state"
  by (rule srv_run_reachable [OF idle_reachable race_state_run])

lemma serving_fields [simp]:
  "conns serving_state = [\<lparr>peer = ''c'', cphase = Serving, csess = SessOpen\<rparr>]"
  "stopAt serving_state = Running" "active (srv serving_state) = 1"
  "byAddr (srv serving_state) = [''c'' \<mapsto> 0]" "raced serving_state = {}"
  "MaxConnections (cfg (srv serving_state)) = 1" "wg (srv serving_state) = 1" "loops serving_state = 0"
  by (simp_all add: serving_state_def run_defs)

lemma race_fields [simp]:
  "conns race_state = [\<lparr>peer = ''c'', cphase = Finished, csess = SessReleased\<rparr>]"
  "stopAt race_state = Returned" "byAddr (srv race_state) = [''c'' \<mapsto> 0]"
  "active (srv race_state) = 0" "wg (srv race_state) = 0"
  by (simp_all add: race_state_def run_defs)

section \<open>The connection limit\<close>

lemma reach_inv: "srv_reachable s \<Longrightarrow> srv_inv s"
  by (rule srv_safety.inv_reachable)

definition is_admitted :: "conn \<Rightarrow> bool" where
  "is_admitted c \<longleftrightarrow> cphase c \<in> {Admitted, Releasing, Entered} \<or> csess c = SessOpen \<or> csess c = SessRemoved"

lemma admitted_won: "is_admitted c \<Longrightarrow> has_won m c"
  by (auto simp: is_admitted_def has_won_def)

text \<open>
  C6. Never more than MaxConnections connections are admitted at once, handshakes included,
  however many goroutines race through tryAdmit; the counter of the server is exactly the
  number of connections that hold a slot, so no slot is leaked or released twice.
\<close>

theorem admission_limit:
  assumes "srv_reachable s"
  shows "int (count_where is_admitted (conns s)) \<le> MaxConnections (cfg (srv s))
    \<and> active (srv s) = int (count_where holds_slot (conns s)) \<and> 0 \<le> active (srv s)"
proof -
  let ?m = "MaxConnections (cfg (srv s))"
  have inv: "won_inv s" "slot_inv s" using reach_inv [OF assms] by (simp_all add: srv_inv_def)
  have "count_where is_admitted (conns s) \<le> count_where (has_won ?m) (conns s)"
    by (rule count_where_mono) (rule admitted_won)
  then show ?thesis using inv by (simp add: won_inv_def slot_inv_def)
qed

theorem admission_limit_witness:
  "srv_reachable serving_state \<and> count_where is_admitted (conns serving_state) = 1
    \<and> int (count_where is_admitted (conns serving_state)) \<le> MaxConnections (cfg (srv serving_state))"
proof -
  have "count_where is_admitted (conns serving_state) = 1" by (simp add: is_admitted_def)
  then show ?thesis using serving_reachable admission_limit [OF serving_reachable] by blast
qed

text \<open>
  tryAdmit, run without interruption, admits exactly when fewer than MaxConnections slots
  are taken, takes one then, and leaves the counter as it was when it refuses.
\<close>

theorem tryAdmit_exact:
  "fst (tryAdmit s) = (active s < MaxConnections (cfg s))
    \<and> active (snd (tryAdmit s)) = active s + (if active s < MaxConnections (cfg s) then 1 else 0)"
  by (simp add: tryAdmit_eq)

section \<open>The registry\<close>

text \<open>
  C16. What GetSession returns for an address is a session with that address whose handler was
  started, and it is still open unless it was closed before add had registered it; an open
  session that has been registered is found unless another connection has used its address.
\<close>

theorem registry_lookup:
  assumes "srv_reachable s"
  shows "(GetSession a (srv s) = Some p \<longrightarrow> p < length (conns s) \<and> peer (conns s ! p) = a
      \<and> registered_phase (cphase (conns s ! p)) \<and> (csess (conns s ! p) = SessOpen \<or> p \<in> raced s))
    \<and> (i < length (conns s) \<and> registered_phase (cphase (conns s ! i)) \<and> csess (conns s ! i) = SessOpen
      \<and> \<not> shared (map peer (conns s)) i \<longrightarrow> GetSession (peer (conns s ! i)) (srv s) = Some i)"
proof -
  have "registry_inv s" "entry_inv s" "found_inv s"
    using reach_inv [OF assms] by (simp_all add: srv_inv_def)
  then show ?thesis by (auto simp: registry_inv_def entry_inv_def found_inv_def GetSession_def)
qed

theorem registry_lookup_witness:
  "GetSession ''c'' (srv serving_state) = Some 0 \<and> csess (conns serving_state ! 0) = SessOpen"
  using registry_lookup [OF serving_reachable, of "''c''" 0 0] by (simp add: shared_def)

section \<open>Stopping\<close>

text \<open>
  Once StopListener has set its flag no Serve loop and no connection enters the wait group.
\<close>

theorem nothing_enters_after_stop:
  assumes "srv_reachable s" and "l = KServe \<or> l = KEnter i" and "srv_step s l t"
  shows "stopAt s = Running \<and> wg (srv t) = wg (srv s) + 1"
proof -
  have "stop_inv s" using reach_inv [OF assms(1)] by (simp add: srv_inv_def)
  then show ?thesis
    using assms(2,3) by (auto elim!: enterE serveE simp: stop_inv_def enter_def split: if_splits)
qed

theorem nothing_enters_after_stop_witness:
  "stopAt idle_server = Running \<and> wg (srv (idle_server\<lparr>srv := (srv idle_server)\<lparr>wg := 1\<rparr>, loops := 1\<rparr>)) = 1"
proof -
  have e: "enter (srv idle_server) = (True, (srv idle_server)\<lparr>wg := 1\<rparr>)"
    by (simp add: run_defs)
  have "srv_step idle_server KServe
      (idle_server\<lparr>srv := (srv idle_server)\<lparr>wg := 1\<rparr>, loops := Suc (loops idle_server)\<rparr>)"
    by (rule serve) (rule e)
  from nothing_enters_after_stop [OF idle_reachable _ this] show ?thesis by (simp add: run_defs)
qed

text \<open>
  C14. When StopListener returns, no Serve loop is running, no handler is running and every
  session is closed and has released its slot.
\<close>

theorem stop_closes_everything:
  assumes "srv_reachable s" and "stopAt s = Returned" and "i < length (conns s)"
  shows "loops s = 0 \<and> \<not> in_group (cphase (conns s ! i))
    \<and> csess (conns s ! i) \<in> {NoSession, SessReleased}"
proof -
  have inv: "stop_inv s" "conns_ok s" using reach_inv [OF assms(1)] by (simp_all add: srv_inv_def)
  then have "loops s = 0" and g: "\<not> in_group (cphase (conns s ! i))"
    using assms(2,3) by (simp_all add: stop_inv_def)
  moreover have "conn_ok (conns s ! i)" using inv(2) assms(3) by (simp add: conns_ok_def)
  ultimately show ?thesis by (auto simp: conn_ok_def has_session_def)
qed

theorem stop_closes_everything_witness:
  "stopAt race_state = Returned \<and> csess (conns race_state ! 0) \<in> {NoSession, SessReleased}"
  using stop_closes_everything [OF race_reachable, of 0] by simp

text \<open>
  C39. A session that is closed between newSession and add (by the end of its context, or for
  QUIC of its connection) stays registered: there is a run in which StopListener has returned,
  the session is closed, and GetActiveSessions still lists it.
\<close>

theorem closed_session_left_registered:
  "\<exists>s. srv_reachable s \<and> stopAt s = Returned \<and> csess (conns s ! 0) = SessReleased
    \<and> GetActiveSessions (srv s) ''c'' = Some 0"
proof (intro exI conjI)
  show "srv_reachable race_state" by (rule race_reachable)
qed (simp_all add: GetActiveSessions_def)

section \<open>Progress of the stop sequence\<close>

text \<open>The steps left to a connection, and to the stop sequence.\<close>

fun phase_work :: "conn_phase \<Rightarrow> nat" where
  "phase_work Incoming = 9"
| "phase_work (Counted n) = 8"
| "phase_work Admitted = 7"
| "phase_work Releasing = 1"
| "phase_work Rejected = 0"
| "phase_work Entered = 6"
| "phase_work Failed = 1"
| "phase_work Created = 3"
| "phase_work Serving = 2"
| "phase_work HandlerDone = 1"
| "phase_work Finished = 0"

fun sess_work :: "sess_phase \<Rightarrow> nat" where
  "sess_work NoSession = 0"
| "sess_work SessOpen = 2"
| "sess_work SessRemoved = 1"
| "sess_work SessReleased = 0"

definition conn_work :: "conn \<Rightarrow> nat" where
  "conn_work c = phase_work (cphase c) + sess_work (csess c)"

fun stop_work :: "session_ptr set \<Rightarrow> stop_phase \<Rightarrow> nat" where
  "stop_work ps Running = 5 + card ps"
| "stop_work ps Cancelling = 4 + card ps"
| "stop_work ps (ClosingListener qs) = 3 + card qs"
| "stop_work ps (ClosingSessions qs) = 2 + card qs"
| "stop_work ps Waiting = 1"
| "stop_work ps Returned = 0"

definition work :: "srv_sys \<Rightarrow> nat" where
  "work s = sum_list (map conn_work (conns s)) + loops s + stop_work (snapshot s) (stopAt s)"

text \<open>New connections, new calls of Serve, and the end of the parent context come from outside.\<close>

fun from_outside :: "srv_label \<Rightarrow> bool" where
  "from_outside (KAccept a) = True"
| "from_outside KServe = True"
| "from_outside KServeRefused = True"
| "from_outside (KParentEnds e) = True"
| "from_outside _ = False"

lemma work_set_conn [simp]:
  assumes "i < length (conns s)"
  shows "int (sum_list (map conn_work (conns (set_conn i f s)))) =
    int (sum_list (map conn_work (conns s))) - int (conn_work (conns s ! i)) + int (conn_work (f (conns s ! i)))"
  using sum_list_update_nat [OF assms, of conn_work "f (conns s ! i)"] by (simp add: set_conn_def)

lemma work_to_phase [simp]:
  "i < length (conns s) \<Longrightarrow> int (sum_list (map conn_work (conns (to_phase i p s)))) =
    int (sum_list (map conn_work (conns s))) - int (conn_work (conns s ! i))
      + int (conn_work ((conns s ! i)\<lparr>cphase := p\<rparr>))"
  by (simp add: to_phase_def)

lemma snapshot_finite: "stop_inv s \<Longrightarrow> ps \<subseteq> snapshot s \<Longrightarrow> finite ps"
  by (rule finite_subset [of _ "{..<length (conns s)}"]) (auto simp: stop_inv_def)

lemma work_decreases:
  "srv_step s l t \<Longrightarrow> conns_ok s \<Longrightarrow> stop_inv s \<Longrightarrow> stopAt s \<noteq> Running \<Longrightarrow> \<not> from_outside l \<Longrightarrow>
    int (work t) < int (work s)"
proof (induction rule: srv_step.induct)
  case (stop_session s ps i)
  then have "finite ps" using snapshot_finite [of s ps] by (simp add: stop_inv_def)
  then have "card (ps - {i}) < card ps" using stop_session.hyps(2) by (rule card_Diff1_less)
  then show ?case using stop_session.hyps(1) by (simp add: work_def)
qed (auto simp: work_def conn_work_def conns_ok_def conn_ok_def at_def has_session_def srv_ops
    split: if_splits)

lemma internalI: "srv_step s l t \<Longrightarrow> \<not> from_outside l \<Longrightarrow> \<exists>l t. \<not> from_outside l \<and> srv_step s l t"
  by blast

lemma group_member_step:
  assumes "in_group (cphase (conns s ! i))" and "i < length (conns s)" and "conns_ok s"
  shows "\<exists>l t. \<not> from_outside l \<and> srv_step s l t"
proof -
  have at: "at s i (cphase (conns s ! i))" and ok: "conn_ok (conns s ! i)"
    using assms by (simp_all add: at_def conns_ok_def)
  show ?thesis
  proof (cases "cphase (conns s ! i)")
    case HandlerDone
    show ?thesis
    proof (cases "csess (conns s ! i)")
      case SessOpen
      show ?thesis by (rule internalI [OF sess_remove [OF assms(2) SessOpen]]) simp
    next
      case SessRemoved
      show ?thesis by (rule internalI [OF sess_free [OF assms(2) SessRemoved]]) simp
    next
      case SessReleased
      have "at s i HandlerDone" using at HandlerDone by simp
      from internalI [OF serve_done [OF this SessReleased]] show ?thesis by simp
    qed (use ok HandlerDone in \<open>simp add: conn_ok_def has_session_def\<close>)
  next
    case Entered
    with at have "at s i Entered" by simp
    from internalI [OF fail [OF this]] show ?thesis by simp
  next
    case Failed
    with at have "at s i Failed" by simp
    from internalI [OF fail_done [OF this]] show ?thesis by simp
  next
    case Created
    with at have "at s i Created" by simp
    from internalI [OF add [OF this]] show ?thesis by simp
  next
    case Serving
    with at have "at s i Serving" by simp
    from internalI [OF handler_returns [OF this]] show ?thesis by simp
  qed (use assms(1) in auto)
qed

lemma stop_progress:
  assumes "srv_inv s" and "stopAt s \<noteq> Running" and "stopAt s \<noteq> Returned"
  shows "\<exists>l t. \<not> from_outside l \<and> srv_step s l t"
proof (cases "stopAt s")
  case Cancelling
  show ?thesis by (rule internalI [OF stop_ctx [OF Cancelling]]) simp
next
  case (ClosingListener ps)
  show ?thesis by (rule internalI [OF stop_listener [OF ClosingListener]]) simp
next
  case (ClosingSessions ps)
  show ?thesis
  proof (cases "ps = {}")
    case True
    then have "stopAt s = ClosingSessions {}" using ClosingSessions by simp
    from internalI [OF stop_closed [OF this]] show ?thesis by simp
  next
    case False
    then obtain i where i: "i \<in> ps" by blast
    have "i \<in> snapshot s" using assms(1) i ClosingSessions by (auto simp: srv_inv_def stop_inv_def)
    then have len: "i < length (conns s)" and sess: "csess (conns s ! i) \<noteq> NoSession"
      using assms(1) by (auto simp: srv_inv_def stop_inv_def)
    show ?thesis
    proof (cases "csess (conns s ! i)")
      case SessOpen
      show ?thesis by (rule internalI [OF sess_remove [OF len SessOpen]]) simp
    next
      case SessRemoved
      show ?thesis by (rule internalI [OF sess_free [OF len SessRemoved]]) simp
    next
      case SessReleased
      show ?thesis by (rule internalI [OF stop_session [OF ClosingSessions i len SessReleased]]) simp
    qed (use sess in simp)
  qed
next
  case Waiting
  have inv: "group_inv s" "conns_ok s" using assms(1) by (simp_all add: srv_inv_def)
  show ?thesis
  proof (cases "wg (srv s) = 0")
    case True
    from internalI [OF stop_return [OF Waiting this]] show ?thesis by simp
  next
    case False
    then consider n where "loops s = Suc n"
      | "count_where (\<lambda>c. in_group (cphase c)) (conns s) \<noteq> 0"
      using inv(1) by (cases "loops s") (auto simp: group_inv_def)
    then show ?thesis
    proof cases
      case 1
      from internalI [OF serve_exit [OF this]] show ?thesis by simp
    next
      case 2
      then obtain i where "i < length (conns s)" "in_group (cphase (conns s ! i))"
        by (auto simp: count_where_zero in_set_conv_nth)
      then show ?thesis using group_member_step inv(2) by blast
    qed
  qed
qed (use assms in auto)

definition internal :: "srv_sys \<Rightarrow> srv_sys \<Rightarrow> bool" where
  "internal s t \<longleftrightarrow> (\<exists>l. \<not> from_outside l \<and> srv_step s l t)"

lemma stop_stays: "srv_step s l t \<Longrightarrow> stopAt s \<noteq> Running \<Longrightarrow> stopAt t \<noteq> Running"
  by (induction rule: srv_step.induct) auto

lemma stop_completes_inv:
  "srv_inv s \<Longrightarrow> stopAt s \<noteq> Running \<Longrightarrow> \<exists>t. internal\<^sup>*\<^sup>* s t \<and> stopAt t = Returned"
proof (induction "work s" arbitrary: s rule: less_induct)
  case less
  show ?case
  proof (cases "stopAt s = Returned")
    case True
    then show ?thesis by blast
  next
    case False
    then obtain l t where step: "srv_step s l t" "\<not> from_outside l"
      using stop_progress less.prems by blast
    moreover have "work t < work s"
      using work_decreases [OF step(1)] step(2) less.prems by (simp add: srv_inv_def)
    ultimately obtain u where "internal\<^sup>*\<^sup>* t u" "stopAt u = Returned"
      using less.hyps [of t] srv_inv_step stop_stays less.prems by blast
    moreover have "internal s t" using step by (auto simp: internal_def)
    ultimately show ?thesis by (meson converse_rtranclp_into_rtranclp)
  qed
qed

text \<open>
  C5. StopListener always returns if the handlers do once their context is done: from every
  reachable state in which it has started, the server's own steps can be continued until it
  has returned, none of them ever blocks the others for good, and every one of them brings
  the server closer (\<open>work\<close> decreases), so they cannot go on for ever.
\<close>

theorem stop_completes:
  assumes "srv_reachable s" and "stopAt s \<noteq> Running"
  shows "(\<exists>t. internal\<^sup>*\<^sup>* s t \<and> stopAt t = Returned)
    \<and> (stopAt s \<noteq> Returned \<longrightarrow> (\<exists>t. internal s t)) \<and> (\<forall>t. internal s t \<longrightarrow> work t < work s)"
proof (intro conjI allI impI)
  have inv: "srv_inv s" by (rule reach_inv [OF assms(1)])
  show "\<exists>t. internal\<^sup>*\<^sup>* s t \<and> stopAt t = Returned" by (rule stop_completes_inv [OF inv assms(2)])
  show "\<exists>t. internal s t" if "stopAt s \<noteq> Returned"
    using stop_progress [OF inv assms(2) that] by (auto simp: internal_def)
  show "work t < work s" if "internal s t" for t
    using that work_decreases [of s _ t] inv assms(2) by (auto simp: internal_def srv_inv_def)
qed

theorem stop_completes_witness:
  "\<exists>s t. srv_run (serving_run @ [KStop]) idle_server = Some s \<and> internal\<^sup>*\<^sup>* s t \<and> stopAt t = Returned"
proof -
  let ?r = "srv_run (serving_run @ [KStop]) idle_server"
  obtain s where s: "?r = Some s" "stopAt s = Cancelling" by (simp add: run_defs)
  have "srv_reachable s" by (rule srv_run_reachable [OF idle_reachable s(1)])
  from stop_completes [OF this] s show ?thesis by auto
qed

end
