(* ===== verification/ServerRefinement.thy ===== *)
theory ServerRefinement
  imports ServerMachine
begin

text \<open>
  The servers of \<open>Tcp\<close>, \<open>Udp\<close>, \<open>WebSocket\<close> and \<open>Quic\<close> run their operations without interruption;
  \<open>ServerMachine\<close> interleaves the goroutines. Here is the relation between the two, the run of the
  machine that each shared sequence of calls stands for, and the locale \<open>hosted_sessions\<close>: what
  the machine needs to know of a protocol's way to close a session. The protocols interpret it.
\<close>

section \<open>The relation\<close>

definition srv_moves :: "srv_sys \<Rightarrow> srv_sys \<Rightarrow> bool" where
  "srv_moves s t \<longleftrightarrow> (\<exists>l. srv_step s l t)"

text \<open>
  \<open>same_server\<close>: the fields the machine acts on agree; the log does not matter, and the machine
  knows a session by another number. \<open>hosts f d ss\<close>: session \<open>p\<close> of the server is connection \<open>f p\<close>
  of the machine, open or closed as its \<^verbatim>\<open>closeOnce\<close> says, with its handler running unless \<open>p\<close>
  is in \<open>d\<close>, the sessions whose goroutine has left the wait group; every other connection of the
  machine has been turned away, so it holds no slot and no place in the wait group.
\<close>

definition same_server :: "(session_ptr \<Rightarrow> nat) \<Rightarrow> server \<Rightarrow> server \<Rightarrow> bool" where
  "same_server f v w \<longleftrightarrow> cfg w = cfg v \<and> serverCtx w = serverCtx v \<and> stopped w = stopped v
     \<and> active w = active v \<and> wg w = wg v \<and> (\<forall>a. byAddr w a = map_option f (byAddr v a))"

definition turned_away :: "conn \<Rightarrow> bool" where
  "turned_away c \<longleftrightarrow> (cphase c = Rejected \<or> cphase c = Finished) \<and> csess c = NoSession"

definition hosts :: "(session_ptr \<Rightarrow> nat) \<Rightarrow> session_ptr set \<Rightarrow> session list \<Rightarrow> conn list \<Rightarrow> bool" where
  "hosts f d ss cs \<longleftrightarrow> inj_on f {..<length ss} \<and> (\<forall>p \<in> d. p < length ss \<and> closeOnce (ss ! p))
     \<and> (\<forall>p < length ss. f p < length cs
          \<and> cs ! f p = \<lparr>peer = addr (ss ! p), cphase = (if p \<in> d then Finished else Serving),
              csess = (if closeOnce (ss ! p) then SessReleased else SessOpen)\<rparr>)
     \<and> (\<forall>i < length cs. i \<notin> f ` {..<length ss} \<longrightarrow> turned_away (cs ! i))"

definition registered_in :: "server \<Rightarrow> session list \<Rightarrow> bool" where
  "registered_in v ss \<longleftrightarrow> (\<forall>a p. byAddr v a = Some p \<longrightarrow> p < length ss \<and> addr (ss ! p) = a)"

definition srv_rel :: "(session_ptr \<Rightarrow> nat) \<Rightarrow> session_ptr set \<Rightarrow> server \<Rightarrow> session list \<Rightarrow> srv_sys \<Rightarrow> bool" where
  "srv_rel f d v ss s \<longleftrightarrow> same_server f v (srv s) \<and> hosts f d ss (conns s) \<and> registered_in v ss"

text \<open>A run that leaves the Serve loops, the stop sequence and the set of lost races where they are.\<close>

definition quiet_run :: "srv_sys \<Rightarrow> srv_sys \<Rightarrow> bool" where
  "quiet_run s t \<longleftrightarrow>
     srv_moves\<^sup>*\<^sup>* s t \<and> loops t = loops s \<and> stopAt t = stopAt s \<and> raced t = raced s"

lemma quiet_refl [simp]: "quiet_run s s"
  by (simp add: quiet_run_def)

lemma quiet_trans [trans]: "quiet_run s t \<Longrightarrow> quiet_run t u \<Longrightarrow> quiet_run s u"
  by (auto simp: quiet_run_def)

lemma quiet_step: "srv_step s l t \<Longrightarrow> loops t = loops s \<Longrightarrow> stopAt t = stopAt s \<Longrightarrow>
    raced t = raced s \<Longrightarrow> quiet_run s t"
  by (auto simp: quiet_run_def srv_moves_def intro!: r_into_rtranclp)

lemma quiet_moves: "quiet_run s t \<Longrightarrow> srv_moves\<^sup>*\<^sup>* s t"
  by (simp add: quiet_run_def)

lemma moves_reachable: "srv_moves\<^sup>*\<^sup>* s t \<Longrightarrow> srv_reachable s \<Longrightarrow> srv_reachable t"
  by (induction rule: rtranclp.induct) (auto simp: srv_moves_def intro: reach_step)

lemma srv_rel_cong:
  assumes "srv_rel f d v ss s" and "cfg v' = cfg v" and "serverCtx v' = serverCtx v"
    and "stopped v' = stopped v" and "active v' = active v" and "wg v' = wg v" and "byAddr v' = byAddr v"
  shows "srv_rel f d v' ss s"
  using assms by (simp add: srv_rel_def same_server_def registered_in_def)

lemma srv_rel_sessions:
  assumes "srv_rel f d v ss s" and "length xs = length ss"
    and "\<And>p. p < length ss \<Longrightarrow> addr (xs ! p) = addr (ss ! p) \<and> closeOnce (xs ! p) = closeOnce (ss ! p)"
  shows "srv_rel f d v xs s"
  using assms by (auto simp: srv_rel_def hosts_def registered_in_def)

lemma refine_same: "srv_rel f d v ss s \<Longrightarrow> \<exists>g t. quiet_run s t \<and> srv_rel g d v ss t"
  using quiet_refl by blast

lemma srv_rel_log [simp]: "srv_rel f d (log_at l m v) ss s = srv_rel f d v ss s"
  by (auto intro: srv_rel_cong)

lemma hosts_append: "hosts f d ss cs \<Longrightarrow> turned_away c \<Longrightarrow> hosts f d ss (cs @ [c])"
  by (auto simp: hosts_def nth_append less_Suc_eq intro: trans_less_add1)

section \<open>One new connection\<close>

definition with_conn :: "string \<Rightarrow> conn_phase \<Rightarrow> sess_phase \<Rightarrow> server \<Rightarrow> srv_sys \<Rightarrow> srv_sys" where
  "with_conn a p x v s = s\<lparr>srv := v, conns := conns s @ [\<lparr>peer = a, cphase = p, csess = x\<rparr>]\<rparr>"

lemma with_conn_fields [simp]:
  "srv (with_conn a p x v s) = v" "loops (with_conn a p x v s) = loops s"
  "stopAt (with_conn a p x v s) = stopAt s" "raced (with_conn a p x v s) = raced s"
  "conns (with_conn a p x v s) = conns s @ [\<lparr>peer = a, cphase = p, csess = x\<rparr>]"
  "at (with_conn a p x v s) (length (conns s)) q \<longleftrightarrow> q = p"
  "with_conn a p x v s\<lparr>srv := w\<rparr> = with_conn a p x w s"
  "with_srv g (with_conn a p x v s) = with_conn a p x (g v) s"
  "to_phase (length (conns s)) q (with_conn a p x v s) = with_conn a q x v s"
  "set_conn (length (conns s)) h (with_conn a p x v s) =
     s\<lparr>srv := v, conns := conns s @ [h \<lparr>peer = a, cphase = p, csess = x\<rparr>]\<rparr>"
  "note_race (length (conns s)) (with_conn a p SessOpen v s) = with_conn a p SessOpen v s"
  by (auto simp: with_conn_def at_def with_srv_def to_phase_def set_conn_def note_race_def)

lemma run_counted:
  "admit_add (srv s) = (n, v) \<Longrightarrow> quiet_run s (with_conn a (Counted n) NoSession v s)"
proof -
  assume c: "admit_add (srv s) = (n, v)"
  have "quiet_run s (with_conn a Incoming NoSession (srv s) s)"
    using srv_step.accept [of s a] by (auto simp: with_conn_def intro: quiet_step)
  also have "quiet_run (with_conn a Incoming NoSession (srv s) s) (with_conn a (Counted n) NoSession v s)"
    using srv_step.count [of "with_conn a Incoming NoSession (srv s) s" "length (conns s)" n v] c
    by (auto intro: quiet_step)
  finally show ?thesis .
qed

lemma run_admitted:
  assumes "tryAdmit (srv s) = (True, v)"
  shows "quiet_run s (with_conn a Admitted NoSession v s)"
proof -
  obtain n v1 where c: "admit_add (srv s) = (n, v1)" "admit_check n v1 = (True, v)"
    using assms by (auto simp: tryAdmit_def split: prod.splits)
  note run_counted [OF c(1), of a]
  also have "quiet_run (with_conn a (Counted n) NoSession v1 s) (with_conn a Admitted NoSession v s)"
    using srv_step.admit [of "with_conn a (Counted n) NoSession v1 s" "length (conns s)" n v] c(2)
    by (auto intro: quiet_step)
  finally show ?thesis .
qed

lemma run_rejected:
  assumes "tryAdmit (srv s) = (False, v)"
  shows "quiet_run s (with_conn a Rejected NoSession v s)"
proof -
  obtain n v1 where c: "admit_add (srv s) = (n, v1)" "admit_check n v1 = (False, v)"
    using assms by (auto simp: tryAdmit_def split: prod.splits)
  note run_counted [OF c(1), of a]
  also have "quiet_run (with_conn a (Counted n) NoSession v1 s) (with_conn a Rejected NoSession v s)"
    using srv_step.reject [of "with_conn a (Counted n) NoSession v1 s" "length (conns s)" n v] c(2)
    by (auto intro: quiet_step)
  finally show ?thesis .
qed

lemma run_refused:
  assumes "tryAdmit (srv s) = (True, v)" and "enter v = (False, v')"
  shows "quiet_run s (with_conn a Rejected NoSession (release v') s)"
proof -
  note run_admitted [OF assms(1), of a]
  also have "quiet_run (with_conn a Admitted NoSession v s) (with_conn a Releasing NoSession v' s)"
    using srv_step.enter_refused [of "with_conn a Admitted NoSession v s" "length (conns s)" v'] assms(2)
    by (auto intro: quiet_step)
  also have "quiet_run (with_conn a Releasing NoSession v' s) (with_conn a Rejected NoSession (release v') s)"
    using srv_step.release [of "with_conn a Releasing NoSession v' s" "length (conns s)"]
    by (auto intro: quiet_step)
  finally show ?thesis .
qed

lemma run_entered:
  assumes "tryAdmit (srv s) = (True, v)" and "enter v = (True, v')"
  shows "quiet_run s (with_conn a Entered NoSession v' s)"
proof -
  note run_admitted [OF assms(1), of a]
  also have "quiet_run (with_conn a Admitted NoSession v s) (with_conn a Entered NoSession v' s)"
    using srv_step.enter_ok [of "with_conn a Admitted NoSession v s" "length (conns s)" v'] assms(2)
    by (auto intro: quiet_step)
  finally show ?thesis .
qed

lemma run_failed:
  assumes "tryAdmit (srv s) = (True, v)" and "enter v = (True, v')"
  shows "quiet_run s (with_conn a Finished NoSession (wg_Done (release v')) s)"
proof -
  note run_entered [OF assms, of a]
  also have "quiet_run (with_conn a Entered NoSession v' s) (with_conn a Failed NoSession (release v') s)"
    using srv_step.fail [of "with_conn a Entered NoSession v' s" "length (conns s)"]
    by (auto intro: quiet_step)
  also have "quiet_run (with_conn a Failed NoSession (release v') s)
      (with_conn a Finished NoSession (wg_Done (release v')) s)"
    using srv_step.fail_done [of "with_conn a Failed NoSession (release v') s" "length (conns s)"]
    by (auto intro: quiet_step)
  finally show ?thesis .
qed

lemma run_serving:
  assumes "tryAdmit (srv s) = (True, v)" and "enter v = (True, v')"
  shows "quiet_run s (with_conn a Serving SessOpen (add a (length (conns s)) v') s)"
proof -
  let ?i = "length (conns s)" let ?c = "with_conn a Created SessOpen v' s"
  note run_entered [OF assms, of a]
  also have "srv_step (with_conn a Entered NoSession v' s) (KCreate ?i) ?c"
    using srv_step.create [of "with_conn a Entered NoSession v' s" ?i]
    by (simp add: with_conn_def [of a Created])
  then have "quiet_run (with_conn a Entered NoSession v' s) ?c" by (rule quiet_step) simp_all
  also have "quiet_run ?c (with_conn a Serving SessOpen (add a ?i v') s)"
    using srv_step.add [of ?c ?i] by (auto intro: quiet_step)
  finally show ?thesis .
qed

section \<open>The shared operations\<close>

lemma same_server_tryAdmit:
  assumes "same_server f v w" and "tryAdmit v = (b, v1)"
  obtains w1 where "tryAdmit w = (b, w1)" and "same_server f v1 w1"
  using assms by (cases "active v < MaxConnections (cfg v)") (auto simp: tryAdmit_eq same_server_def)

lemma same_server_enter:
  assumes "same_server f v w" and "enter v = (b, v1)"
  obtains w1 where "enter w = (b, w1)" and "same_server f v1 w1"
  using assms by (auto simp: enter_def same_server_def split: if_splits)

lemma same_server_ops:
  assumes "same_server f v w"
  shows "same_server f (release v) (release w)" and "same_server f (wg_Done v) (wg_Done w)"
    and "same_server f (stop_cancel v) (stop_cancel w)"
    and "same_server f (snd (stop_begin v)) (snd (stop_begin w))"
  using assms
  by (simp_all add: same_server_def release_def wg_Done_def stop_cancel_def stop_begin_def)

lemma srv_relI:
  "same_server f v (srv s) \<Longrightarrow> hosts f d ss (conns s) \<Longrightarrow> registered_in v ss \<Longrightarrow> srv_rel f d v ss s"
  by (simp add: srv_rel_def)

lemma registered_in_same: "registered_in v ss \<Longrightarrow> byAddr v' = byAddr v \<Longrightarrow> registered_in v' ss"
  by (simp add: registered_in_def)

lemma byAddr_kept:
  "tryAdmit v = (b, v1) \<Longrightarrow> byAddr v1 = byAddr v" "enter v = (b, v1) \<Longrightarrow> byAddr v1 = byAddr v"
  "byAddr (wg_Done v) = byAddr v" "byAddr (stop_cancel v) = byAddr v" "byAddr (snd (stop_begin v)) = byAddr v"
  by (auto simp: tryAdmit_eq enter_def wg_Done_def stop_cancel_def stop_begin_def split: if_splits)

lemma srv_rel_with_conn:
  "srv_rel f d v ss s \<Longrightarrow> same_server f v' w \<Longrightarrow> byAddr v' = byAddr v \<Longrightarrow> p = Rejected \<or> p = Finished \<Longrightarrow>
    srv_rel f d v' ss (with_conn a p NoSession w s)"
  by (auto simp: srv_rel_def turned_away_def intro: hosts_append registered_in_same)

text \<open>A connection over the limit, after the stop, or one whose handshake fails.\<close>

lemma refine_rejected:
  assumes "srv_rel f d v ss s" and "tryAdmit v = (False, v1)"
  shows "\<exists>t. quiet_run s t \<and> srv_rel f d v1 ss t"
proof -
  obtain w where w: "tryAdmit (srv s) = (False, w)" "same_server f v1 w"
    using same_server_tryAdmit assms by (metis srv_rel_def)
  show ?thesis
    using run_rejected [OF w(1)] srv_rel_with_conn [OF assms(1) w(2) byAddr_kept(1) [OF assms(2)]]
    by blast
qed

lemma refine_refused:
  assumes "srv_rel f d v ss s" and "tryAdmit v = (True, v1)" and "enter v1 = (False, v2)"
  shows "\<exists>t. quiet_run s t \<and> srv_rel f d (release v2) ss t"
proof -
  obtain w where w: "tryAdmit (srv s) = (True, w)" "same_server f v1 w"
    using same_server_tryAdmit assms(1,2) by (metis srv_rel_def)
  obtain w2 where w2: "enter w = (False, w2)" "same_server f v2 w2"
    using same_server_enter w(2) assms(3) by metis
  show ?thesis
    using run_refused [OF w(1) w2(1)] srv_rel_with_conn [OF assms(1) same_server_ops(1) [OF w2(2)]]
      byAddr_kept(1) [OF assms(2)] byAddr_kept(2) [OF assms(3)] by (metis release_fields(2))
qed

lemma refine_failed:
  assumes "srv_rel f d v ss s" and "tryAdmit v = (True, v1)" and "enter v1 = (True, v2)"
  shows "\<exists>t. quiet_run s t \<and> srv_rel f d (wg_Done (release v2)) ss t"
proof -
  obtain w where w: "tryAdmit (srv s) = (True, w)" "same_server f v1 w"
    using same_server_tryAdmit assms(1,2) by (metis srv_rel_def)
  obtain w2 where w2: "enter w = (True, w2)" "same_server f v2 w2"
    using same_server_enter w(2) assms(3) by metis
  show ?thesis
    using run_failed [OF w(1) w2(1)]
      srv_rel_with_conn [OF assms(1) same_server_ops(2) [OF same_server_ops(1) [OF w2(2)]]]
      byAddr_kept(1) [OF assms(2)] byAddr_kept(2) [OF assms(3)]
    by (metis byAddr_kept(3) release_fields(2))
qed

text \<open>A new session is the newest connection of the machine.\<close>

lemma hosts_open:
  assumes "hosts f d ss cs" and "\<not> closeOnce x" and "addr x = a"
  shows "hosts (f(length ss := length cs)) d (ss @ [x]) (cs @ [\<lparr>peer = a, cphase = Serving, csess = SessOpen\<rparr>])"
    (is "hosts ?g d ?xs ?cs")
proof -
  have h: "inj_on f {..<length ss}" "\<forall>p \<in> d. p < length ss \<and> closeOnce (ss ! p)"
    "\<forall>p < length ss. f p < length cs
      \<and> cs ! f p = \<lparr>peer = addr (ss ! p), cphase = (if p \<in> d then Finished else Serving),
          csess = (if closeOnce (ss ! p) then SessReleased else SessOpen)\<rparr>"
    "\<forall>i < length cs. i \<notin> f ` {..<length ss} \<longrightarrow> turned_away (cs ! i)"
    using assms(1) by (simp_all add: hosts_def)
  have im: "?g ` {..<length ?xs} = insert (length cs) (f ` {..<length ss})"
    by (auto simp: image_iff less_Suc_eq)
  have new: "length ss \<notin> d" using h(2) by auto
  show ?thesis
    unfolding hosts_def im
  proof (intro conjI ballI allI impI)
    show "inj_on ?g {..<length ?xs}" using h(1,3) by (auto simp: inj_on_def less_Suc_eq)
    show "p < length ?xs" "closeOnce (?xs ! p)" if "p \<in> d" for p
      using h(2) that by (auto simp: nth_append)
    show "?g p < length ?cs" "?cs ! ?g p = \<lparr>peer = addr (?xs ! p), cphase = (if p \<in> d then Finished else Serving),
        csess = (if closeOnce (?xs ! p) then SessReleased else SessOpen)\<rparr>" if "p < length ?xs" for p
      using h(3) that assms(2,3) new by (auto simp: nth_append less_Suc_eq)
    show "turned_away (?cs ! i)" if "i < length ?cs" "i \<notin> insert (length cs) (f ` {..<length ss})" for i
      using h(4) that by (auto simp: nth_append less_Suc_eq)
  qed
qed

lemma refine_opened:
  assumes "srv_rel f d v ss s" and "tryAdmit v = (True, v1)" and "enter v1 = (True, v2)"
    and "\<not> closeOnce x" and "addr x = a"
  shows "\<exists>g t. quiet_run s t \<and> srv_rel g d (add a (length ss) v2) (ss @ [x]) t"
proof -
  let ?g = "f(length ss := length (conns s))"
  obtain w where w: "tryAdmit (srv s) = (True, w)" "same_server f v1 w"
    using same_server_tryAdmit assms(1,2) by (metis srv_rel_def)
  obtain w2 where w2: "enter w = (True, w2)" "same_server f v2 w2"
    using same_server_enter w(2) assms(3) by metis
  have reg: "registered_in v2 ss"
    using assms(1) byAddr_kept(1) [OF assms(2)] byAddr_kept(2) [OF assms(3)]
    by (auto simp: srv_rel_def intro: registered_in_same)
  have "same_server ?g (add a (length ss) v2) (add a (length (conns s)) w2)"
  proof -
    have "map_option ?g (byAddr v2 b) = map_option f (byAddr v2 b)" for b
      using reg by (cases "byAddr v2 b") (auto simp: registered_in_def)
    then show ?thesis using w2(2) by (auto simp: same_server_def add_def)
  qed
  moreover have "registered_in (add a (length ss) v2) (ss @ [x])"
    using reg assms(5) by (auto simp: registered_in_def add_def nth_append less_SucI)
  moreover have "hosts ?g d (ss @ [x]) (conns s @ [\<lparr>peer = a, cphase = Serving, csess = SessOpen\<rparr>])"
    using hosts_open assms(1,4,5) by (simp add: srv_rel_def)
  ultimately have "srv_rel ?g d (add a (length ss) v2) (ss @ [x])
      (with_conn a Serving SessOpen (add a (length (conns s)) w2) s)"
    by (auto intro: srv_relI)
  then show ?thesis using run_serving [OF w(1) w2(1), of a] by blast
qed

section \<open>Closing a session\<close>

lemma hosts_update:
  assumes "hosts f d ss cs" and "p < length ss" and "closeOnce x" and "addr x = addr (ss ! p)"
    and "d' = d \<or> d' = insert p d"
  shows "hosts f d' (ss[p := x])
    (cs[f p := \<lparr>peer = addr x, cphase = (if p \<in> d' then Finished else Serving), csess = SessReleased\<rparr>])"
    (is "hosts f d' ?xs ?cs")
proof -
  have h: "inj_on f {..<length ss}" "\<forall>q \<in> d. q < length ss \<and> closeOnce (ss ! q)"
    "\<forall>q < length ss. f q < length cs
      \<and> cs ! f q = \<lparr>peer = addr (ss ! q), cphase = (if q \<in> d then Finished else Serving),
          csess = (if closeOnce (ss ! q) then SessReleased else SessOpen)\<rparr>"
    "\<forall>i < length cs. i \<notin> f ` {..<length ss} \<longrightarrow> turned_away (cs ! i)"
    using assms(1) by (simp_all add: hosts_def)
  have other: "f q \<noteq> f p" if "q < length ss" "q \<noteq> p" for q
    using h(1) assms(2) that by (auto simp: inj_on_def)
  have mem: "q \<in> d' \<longleftrightarrow> q \<in> d" if "q \<noteq> p" for q using assms(5) that by auto
  show ?thesis
    unfolding hosts_def length_list_update
  proof (intro conjI ballI allI impI)
    show "inj_on f {..<length ss}" by (rule h(1))
    show "q < length ss" "closeOnce (?xs ! q)" if "q \<in> d'" for q
      using h(2) that assms(2,3,5) by (auto simp: nth_list_update)
    show "f q < length cs" if "q < length ss" for q using h(3) that by simp
    show "?cs ! f q = \<lparr>peer = addr (?xs ! q), cphase = (if q \<in> d' then Finished else Serving),
        csess = (if closeOnce (?xs ! q) then SessReleased else SessOpen)\<rparr>" if "q < length ss" for q
      using h(3) that other [OF that] mem [of q] assms(2,3) by (cases "q = p") simp_all
    show "turned_away (?cs ! i)" if "i < length cs" "i \<notin> f ` {..<length ss}" for i
      using h(4) that assms(2) by (cases "i = f p") auto
  qed
qed

lemma same_server_remove:
  assumes "same_server f v w" and "registered_in v ss" and "inj_on f {..<length ss}" and "p < length ss"
  shows "same_server f (remove a p v) (release (remove_entry a (f p) w))"
proof -
  have "byAddr w a = Some (f p) \<longleftrightarrow> byAddr v a = Some p"
    using assms by (auto simp: same_server_def registered_in_def dest: inj_onD)
  then show ?thesis
    using assms(1) by (auto simp: same_server_def remove_def remove_entry_def release_def log_at_def)
qed

lemma registered_in_remove:
  assumes "registered_in v ss" and "addr x = addr (ss ! p)"
  shows "registered_in (remove a p v) (ss[p := x])"
proof -
  have "addr (ss[p := x] ! q) = addr (ss ! q)" for q
    using assms(2) by (cases "q = p"; cases "p < length ss") (simp_all add: list_update_beyond)
  then show ?thesis
    using assms(1) by (auto simp: registered_in_def remove_def remove_entry_lookup)
qed

lemma run_closed:
  assumes "i < length (conns s)" and "csess (conns s ! i) = SessOpen" and "a = peer (conns s ! i)"
  shows "quiet_run s (s\<lparr>srv := release (remove_entry a i (srv s)),
    conns := (conns s)[i := (conns s ! i)\<lparr>csess := SessReleased\<rparr>]\<rparr>)"
proof -
  let ?t = "set_conn i (\<lambda>c. c\<lparr>csess := SessRemoved\<rparr>) (with_srv (remove_entry a i) s)"
  let ?u = "set_conn i (\<lambda>c. c\<lparr>csess := SessReleased\<rparr>) (with_srv release ?t)"
  have "quiet_run s ?t"
    using srv_step.sess_remove [OF assms(1,2)] assms(3) by (auto intro: quiet_step)
  also have "quiet_run ?t ?u"
    using srv_step.sess_free [of i ?t] assms(1) by (auto intro: quiet_step)
  also have "?u = s\<lparr>srv := release (remove_entry a i (srv s)),
      conns := (conns s)[i := (conns s ! i)\<lparr>csess := SessReleased\<rparr>]\<rparr>"
    using assms(1) by (simp add: set_conn_def with_srv_def)
  finally show ?thesis .
qed

lemma refine_closed:
  assumes "srv_rel f d v ss s" and "p < length ss" and "\<not> closeOnce (ss ! p)"
    and "closeOnce x" and "addr x = addr (ss ! p)"
  shows "\<exists>t. quiet_run s t \<and> srv_rel f d (remove (addr (ss ! p)) p v) (ss[p := x]) t"
proof -
  let ?a = "addr (ss ! p)"
  let ?t = "s\<lparr>srv := release (remove_entry ?a (f p) (srv s)),
    conns := (conns s)[f p := (conns s ! f p)\<lparr>csess := SessReleased\<rparr>]\<rparr>"
  have h: "same_server f v (srv s)" "hosts f d ss (conns s)" "registered_in v ss"
    using assms(1) by (simp_all add: srv_rel_def)
  have "p \<notin> d" using h(2) assms(3) by (auto simp: hosts_def)
  then have c: "f p < length (conns s)" "conns s ! f p = \<lparr>peer = ?a, cphase = Serving, csess = SessOpen\<rparr>"
    and inj: "inj_on f {..<length ss}"
    using h(2) assms(2,3) by (simp_all add: hosts_def)
  have "srv_rel f d (remove ?a p v) (ss[p := x]) ?t"
    using same_server_remove [OF h(1,3) inj assms(2)] hosts_update [OF h(2) assms(2,4,5), of d]
      registered_in_remove [OF h(3) assms(5)] c assms(5) \<open>p \<notin> d\<close>
    by (simp add: srv_rel_def)
  moreover have "quiet_run s ?t" using run_closed [OF c(1)] c(2) by simp
  ultimately show ?thesis by blast
qed

text \<open>The end of a session's goroutine, once its session is closed.\<close>

lemma refine_handled:
  assumes "srv_rel f d v ss s" and "p < length ss" and "closeOnce (ss ! p)" and "p \<notin> d"
  shows "\<exists>t. quiet_run s t \<and> srv_rel f (insert p d) (wg_Done v) ss t"
proof -
  have h: "same_server f v (srv s)" "hosts f d ss (conns s)" "registered_in v ss"
    using assms(1) by (simp_all add: srv_rel_def)
  have c: "f p < length (conns s)"
    "conns s ! f p = \<lparr>peer = addr (ss ! p), cphase = Serving, csess = SessReleased\<rparr>"
    using h(2) assms(2-4) by (simp_all add: hosts_def)
  let ?t = "to_phase (f p) HandlerDone s"
  let ?u = "to_phase (f p) Finished (with_srv wg_Done ?t)"
  have "srv_step s (KHandlerReturns (f p)) ?t" using c by (intro srv_step.handler_returns) (simp add: at_def)
  then have "quiet_run s ?t" by (rule quiet_step) simp_all
  also have "srv_step ?t (KDone (f p)) ?u" using c by (intro srv_step.serve_done) (simp_all add: at_def)
  then have "quiet_run ?t ?u" by (rule quiet_step) simp_all
  finally have "quiet_run s ?u" .
  moreover have "srv_rel f (insert p d) (wg_Done v) ss ?u"
  proof (rule srv_relI)
    show "same_server f (wg_Done v) (srv ?u)" using same_server_ops(2) [OF h(1)] by simp
    have "conns ?u = (conns s)[f p := \<lparr>peer = addr (ss ! p), cphase = Finished, csess = SessReleased\<rparr>]"
      using c by (simp add: to_phase_def set_conn_def with_srv_def)
    then show "hosts f (insert p d) ss (conns ?u)"
      using hosts_update [OF h(2) assms(2,3) refl, of "insert p d"] by simp
    show "registered_in (wg_Done v) ss" by (rule registered_in_same [OF h(3) byAddr_kept(3)])
  qed
  ultimately show ?thesis by blast
qed

text \<open>The entry of Serve into the wait group, its exit, and the end of the constructor's context.\<close>

lemma srv_rel_srv:
  "srv_rel f d v ss s \<Longrightarrow> same_server f v' w \<Longrightarrow> byAddr v' = byAddr v \<Longrightarrow> conns t = conns s \<Longrightarrow>
    srv t = w \<Longrightarrow> srv_rel f d v' ss t"
  by (auto simp: srv_rel_def intro: registered_in_same)

lemma refine_serve:
  assumes "srv_rel f d v ss s" and "enter v = (True, v1)"
  shows "\<exists>t. srv_moves s t \<and> srv_rel f d v1 ss t \<and> loops t = Suc (loops s) \<and> stopAt t = stopAt s
    \<and> raced t = raced s"
proof -
  obtain w where w: "enter (srv s) = (True, w)" "same_server f v1 w"
    using same_server_enter assms by (metis srv_rel_def)
  let ?t = "s\<lparr>srv := w, loops := Suc (loops s)\<rparr>"
  have "srv_moves s ?t" using srv_step.serve [OF w(1)] by (auto simp: srv_moves_def)
  moreover have "srv_rel f d v1 ss ?t" using srv_rel_srv [OF assms(1) w(2) byAddr_kept(2) [OF assms(2)]] by simp
  ultimately show ?thesis by (intro exI [of _ ?t]) simp
qed

lemma refine_serve_exit:
  assumes "srv_rel f d v ss s" and "loops s = Suc n"
  shows "\<exists>t. srv_moves s t \<and> srv_rel f d (wg_Done v) ss t \<and> loops t = n \<and> stopAt t = stopAt s
    \<and> raced t = raced s"
proof -
  let ?t = "with_srv wg_Done (s\<lparr>loops := n\<rparr>)"
  have "srv_moves s ?t" using srv_step.serve_exit [OF assms(2)] by (auto simp: srv_moves_def)
  moreover have "srv_rel f d (wg_Done v) ss ?t"
    using srv_rel_srv [OF assms(1), of "wg_Done v" "wg_Done (srv s)" ?t] assms(1) same_server_ops(2)
    by (simp add: srv_rel_def wg_Done_def)
  ultimately show ?thesis by (intro exI [of _ ?t]) simp
qed

lemma refine_parent_ends:
  assumes "srv_rel f d v ss s"
  shows "\<exists>t. quiet_run s t \<and> srv_rel f d (v\<lparr>serverCtx := cancel e (serverCtx v)\<rparr>) ss t"
proof (cases "serverCtx v")
  case (Some x)
  then have "v\<lparr>serverCtx := cancel e (serverCtx v)\<rparr> = v" by (simp add: cancel_def)
  then show ?thesis using assms quiet_refl by metis
next
  case None
  have same: "same_server f v (srv s)" using assms by (simp add: srv_rel_def)
  let ?t = "with_srv (\<lambda>v. v\<lparr>serverCtx := Some e\<rparr>) s"
  have "serverCtx (srv s) = None" using same None by (simp add: same_server_def)
  then have "quiet_run s ?t" by (intro quiet_step [OF srv_step.parent_ends [of s e]]) simp_all
  moreover have "srv_rel f d (v\<lparr>serverCtx := cancel e (serverCtx v)\<rparr>) ss ?t"
    using srv_rel_srv [OF assms, of "v\<lparr>serverCtx := Some e\<rparr>" "(srv s)\<lparr>serverCtx := Some e\<rparr>" ?t] same None
    by (simp add: cancel_def same_server_def with_srv_def)
  ultimately show ?thesis by blast
qed

section \<open>Servers that host sessions\<close>

text \<open>
  \<open>close e p\<close> closes session \<open>p\<close> with cause \<open>e\<close>: its callback is \<^verbatim>\<open>remove\<close>. \<open>stop order\<close> is
  \<^verbatim>\<open>StopListener\<close> up to its wait, visiting the sessions of the cloned registry in that order.
\<close>

locale hosted_sessions =
  fixes base :: "'s \<Rightarrow> server"
    and sessions :: "'s \<Rightarrow> session list"
    and close :: "err \<Rightarrow> session_ptr \<Rightarrow> 's \<Rightarrow> 's"
    and stop :: "session_ptr list \<Rightarrow> 's \<Rightarrow> 's"
  assumes close_open: "p < length (sessions t) \<Longrightarrow> \<not> closeOnce (sessions t ! p) \<Longrightarrow>
      base (close e p t) = remove (addr (sessions t ! p)) p (base t)
      \<and> (\<exists>x. sessions (close e p t) = (sessions t)[p := x] \<and> closeOnce x \<and> addr x = addr (sessions t ! p)
          \<and> ctx x = cancel e (ctx (sessions t ! p)))"
    and close_closed: "p < length (sessions t) \<Longrightarrow> closeOnce (sessions t ! p) \<Longrightarrow> close e p t = t"
    and stop_order: "\<exists>m t'. base t' = stop_cancel (snd (stop_begin (log_at Info m (base t))))
      \<and> sessions t' = sessions t \<and> stop order t = fold (close ErrServerStopped) order t'"
begin

definition rel :: "(session_ptr \<Rightarrow> nat) \<Rightarrow> session_ptr set \<Rightarrow> 's \<Rightarrow> srv_sys \<Rightarrow> bool" where
  "rel f d t s \<longleftrightarrow> srv_rel f d (base t) (sessions t) s"

lemma close_length [simp]: "p < length (sessions t) \<Longrightarrow> length (sessions (close e p t)) = length (sessions t)"
  using close_open close_closed by (metis length_list_update)

lemma close_closes: "p < length (sessions t) \<Longrightarrow> closeOnce (sessions (close e p t) ! p)"
  using close_open close_closed by (metis nth_list_update_eq)

lemma close_keeps:
  "p < length (sessions t) \<Longrightarrow> closeOnce (sessions t ! q) \<Longrightarrow> closeOnce (sessions (close e p t) ! q)"
  using close_open close_closed by (metis nth_list_update_neq)

lemma close_refines:
  assumes "rel f d t s" and "p < length (sessions t)"
  shows "\<exists>s'. quiet_run s s' \<and> rel f d (close e p t) s'"
proof (cases "closeOnce (sessions t ! p)")
  case True
  then show ?thesis using close_closed [OF assms(2)] assms(1) quiet_refl by metis
next
  case False
  obtain x where x: "base (close e p t) = remove (addr (sessions t ! p)) p (base t)"
    "sessions (close e p t) = (sessions t)[p := x]" "closeOnce x" "addr x = addr (sessions t ! p)"
    using close_open [OF assms(2) False] by blast
  show ?thesis
    using refine_closed [OF assms(1) [unfolded rel_def] assms(2) False x(3,4)] x(1,2)
    by (simp add: rel_def)
qed

lemmas close_refines_srv = close_refines [unfolded rel_def]

lemma fold_close_length [simp]:
  "\<forall>p \<in> set order. p < length (sessions t) \<Longrightarrow>
    length (sessions (fold (close e) order t)) = length (sessions t)"
  by (induction order arbitrary: t) simp_all

lemma fold_close_keeps:
  "\<forall>p \<in> set order. p < length (sessions t) \<Longrightarrow> closeOnce (sessions t ! q) \<Longrightarrow>
    closeOnce (sessions (fold (close e) order t) ! q)"
  by (induction order arbitrary: t) (simp_all add: close_keeps)

lemma fold_close_closes:
  "\<forall>p \<in> set order. p < length (sessions t) \<Longrightarrow> q \<in> set order \<Longrightarrow>
    closeOnce (sessions (fold (close e) order t) ! q)"
proof (induction order arbitrary: t)
  case (Cons p order)
  then have p: "p < length (sessions t)" by simp
  show ?case
  proof (cases "q = p")
    case True
    then show ?thesis using Cons.prems(1) p by (simp add: fold_close_keeps close_closes)
  next
    case False
    then show ?thesis using Cons.IH [of "close e p t"] Cons.prems p by simp
  qed
qed simp

lemma fold_close_refines:
  "rel f d t s \<Longrightarrow> \<forall>p \<in> set order. p < length (sessions t) \<Longrightarrow>
    \<exists>s'. quiet_run s s' \<and> rel f d (fold (close e) order t) s'"
proof (induction order arbitrary: t s)
  case Nil
  then show ?case using quiet_refl by (metis fold_simps(1))
next
  case (Cons p order)
  then obtain s1 where s1: "quiet_run s s1" "rel f d (close e p t) s1" using close_refines by (meson list.set_intros(1))
  have "\<forall>q \<in> set order. q < length (sessions (close e p t))" using Cons.prems(2) by simp
  then show ?case using Cons.IH [OF s1(2)] s1(1) quiet_trans by (metis fold_simps(2))
qed

text \<open>The \<^verbatim>\<open>AfterFunc\<close> of the sessions of a Serve call.\<close>

lemma ends_refines:
  assumes "srv_rel f d (base t) (sessions t) s" and "\<forall>p \<in> set mine. p < length (sessions t)"
    and "t' = (case c of None \<Rightarrow> t | Some e \<Rightarrow> fold (close e) mine t)"
  shows "\<exists>s'. quiet_run s s' \<and> srv_rel f d (base t') (sessions t') s'"
    and "length (sessions t') = length (sessions t)"
proof -
  show "\<exists>s'. quiet_run s s' \<and> srv_rel f d (base t') (sessions t') s'"
  proof (cases c)
    case None
    then show ?thesis using assms quiet_refl by (metis option.simps(4))
  next
    case (Some e)
    then show ?thesis using fold_close_refines [of f d t s mine e] assms by (simp add: rel_def)
  qed
  show "length (sessions t') = length (sessions t)" using assms(2,3) by (cases c) simp_all
qed

text \<open>The loop of \<^verbatim>\<open>stop\<close> over the sessions, against the machine's set of those still to close.\<close>

lemma close_all_refines:
  "rel f d t s \<Longrightarrow> \<forall>p \<in> set order. p < length (sessions t) \<Longrightarrow> stopAt s = ClosingSessions ps \<Longrightarrow>
    ps \<subseteq> f ` set order \<Longrightarrow>
    \<exists>s'. srv_moves\<^sup>*\<^sup>* s s' \<and> rel f d (fold (close e) order t) s' \<and> stopAt s' = ClosingSessions {}
      \<and> loops s' = loops s \<and> raced s' = raced s"
proof (induction order arbitrary: t s ps)
  case Nil
  then show ?case by auto
next
  case (Cons p order)
  then have p: "p < length (sessions t)" by simp
  obtain s1 where s1: "quiet_run s s1" "rel f d (close e p t) s1"
    using close_refines [OF Cons.prems(1) p] by blast
  have at1: "stopAt s1 = ClosingSessions ps" using s1(1) Cons.prems(3) by (simp add: quiet_run_def)
  have c: "f p < length (conns s1)" "csess (conns s1 ! f p) = SessReleased"
    using s1(2) p close_closes [OF p, of e] by (auto simp: rel_def srv_rel_def hosts_def)
  let ?s2 = "s1\<lparr>stopAt := ClosingSessions (ps - {f p})\<rparr>"
  have "srv_moves\<^sup>*\<^sup>* s1 ?s2"
  proof (cases "f p \<in> ps")
    case True
    then have "srv_step s1 (KStopSession (f p)) ?s2" using srv_step.stop_session [OF at1] c by blast
    then show ?thesis by (auto simp: srv_moves_def intro!: r_into_rtranclp)
  next
    case False
    then have "?s2 = s1" using at1 by (cases s1) simp
    then show ?thesis by simp
  qed
  moreover have "rel f d (close e p t) ?s2" using s1(2) by (simp add: rel_def srv_rel_def)
  ultimately obtain s' where "srv_moves\<^sup>*\<^sup>* ?s2 s'" "rel f d (fold (close e) order (close e p t)) s'"
    "stopAt s' = ClosingSessions {}" "loops s' = loops ?s2" "raced s' = raced ?s2"
    using Cons.IH [of "close e p t" ?s2 "ps - {f p}"] Cons.prems(2,4) p by fastforce
  then show ?case
    using quiet_moves [OF s1(1)] \<open>srv_moves\<^sup>*\<^sup>* s1 ?s2\<close> s1(1)
    by (auto simp: quiet_run_def intro!: exI [of _ s'])
qed

lemma stop_refines:
  assumes "rel f d t s" and "stopAt s = Running" and "set order = ran (byAddr (base t))"
  shows "\<exists>s'. srv_moves\<^sup>*\<^sup>* s s' \<and> rel f d (stop order t) s' \<and> stopAt s' = Waiting \<and> loops s' = loops s
    \<and> raced s' = raced s \<and> length (sessions (stop order t)) = length (sessions t)"
proof -
  obtain m t1 where t1: "base t1 = stop_cancel (snd (stop_begin (log_at Info m (base t))))"
    "sessions t1 = sessions t" "stop order t = fold (close ErrServerStopped) order t1"
    using stop_order by blast
  have same: "same_server f (base t) (srv s)" and reg: "registered_in (base t) (sessions t)"
    using assms(1) by (simp_all add: rel_def srv_rel_def)
  let ?ps = "ran (byAddr (srv s))"
  have "?ps \<subseteq> f ` set order" using same assms(3) by (auto simp: same_server_def ran_def)
  let ?a = "s\<lparr>srv := (srv s)\<lparr>stopped := True\<rparr>, stopAt := Cancelling, snapshot := ?ps\<rparr>"
  let ?b = "with_srv stop_cancel (?a\<lparr>stopAt := ClosingListener ?ps\<rparr>)"
  let ?c = "?b\<lparr>stopAt := ClosingSessions ?ps\<rparr>"
  have "srv_moves s ?a" "srv_moves ?a ?b" "srv_moves ?b ?c"
    using srv_step.stop [OF assms(2), of "byAddr (srv s)" "(srv s)\<lparr>stopped := True\<rparr>"]
      srv_step.stop_ctx [of ?a] srv_step.stop_listener [of ?b ?ps]
    by (auto simp: srv_moves_def stop_begin_def)
  then have run: "srv_moves\<^sup>*\<^sup>* s ?c" by (meson rtranclp.rtrancl_into_rtrancl rtranclp.rtrancl_refl)
  have "rel f d t1 ?c"
    using assms(1) t1(1,2)
    by (auto simp: rel_def srv_rel_def same_server_def registered_in_def stop_cancel_def stop_begin_def)
  moreover have all: "\<forall>p \<in> set order. p < length (sessions t1)"
    using reg assms(3) t1(2) by (auto simp: registered_in_def ran_def)
  ultimately obtain s1 where s1: "srv_moves\<^sup>*\<^sup>* ?c s1" "rel f d (stop order t) s1"
    "stopAt s1 = ClosingSessions {}" "loops s1 = loops ?c" "raced s1 = raced ?c"
    using close_all_refines [of f d t1 ?c order ?ps, where e = ErrServerStopped] \<open>?ps \<subseteq> f ` set order\<close> t1(3) by auto
  let ?d = "s1\<lparr>stopAt := Waiting\<rparr>"
  have "srv_moves s1 ?d" using srv_step.stop_closed [OF s1(3)] by (auto simp: srv_moves_def)
  moreover have "rel f d (stop order t) ?d" using s1(2) by (simp add: rel_def srv_rel_def)
  moreover have "length (sessions (stop order t)) = length (sessions t)"
    using all t1(2,3) by simp
  ultimately show ?thesis
    using run s1(1,4,5) by (intro exI [of _ ?d]) (auto intro: rtranclp_trans rtranclp.rtrancl_into_rtrancl)
qed

end

end
