(* ===== verification/ServerHistory.thy ===== *)
theory ServerHistory
  imports ServerRefinement
begin

text \<open>
  What a server goes through from its construction: Serve calls that begin and end, what their
  loops take, closes, handlers that return, \<^verbatim>\<open>StopListener\<close>. Each call runs here without
  interruption, in any order. The locale \<open>hosted_server\<close> has what a protocol must provide for
  all of its histories to be runs of \<open>ServerMachine\<close>; the protocols interpret it in \<open>ServerRuns\<close>.
\<close>

section \<open>Calls and histories\<close>

text \<open>
  The operations of a protocol's server. \<open>mTake mine ev\<close> is what one event does in the loop of a
  Serve call that has opened the sessions \<open>mine\<close>: the result says whether Serve leaves its loop.
  \<open>mStop\<close> is \<^verbatim>\<open>StopListener\<close> up to its wait.
\<close>

record ('s, 'e) methods =
  mBase :: "'s \<Rightarrow> server"
  mWith :: "(server \<Rightarrow> server) \<Rightarrow> 's \<Rightarrow> 's"
  mSessions :: "'s \<Rightarrow> session list"
  mTake :: "session_ptr list \<Rightarrow> 'e \<Rightarrow> 's \<Rightarrow> bool \<times> 's"
  mClose :: "err \<Rightarrow> session_ptr \<Rightarrow> 's \<Rightarrow> 's"
  mStop :: "session_ptr list \<Rightarrow> 's \<Rightarrow> 's"

text \<open>
  A server with what its goroutines know: for each Serve call that has not returned the sessions
  it has opened, the sessions whose goroutine has ended, and how far \<^verbatim>\<open>StopListener\<close> is.
\<close>

record 's history =
  hServer :: 's
  owned :: "session_ptr list list"
  handled :: "session_ptr set"
  stage :: stop_phase

definition new_history :: "'s \<Rightarrow> 's history" where
  "new_history t = \<lparr>hServer = t, owned = [], handled = {}, stage = Running\<rparr>"

text \<open>
  \<open>Takes i ev\<close>: the \<open>i\<close>-th running Serve takes an event. \<open>HandlerReturns p\<close>: the deferred close of
  \<^verbatim>\<open>serveSession\<close>, then the goroutine's \<^verbatim>\<open>wg.Done\<close>. \<open>ContextEnds e\<close>: the end of the context given to
  the constructor. \<open>Stops\<close>: the first call of \<^verbatim>\<open>StopListener\<close>, visiting the registered sessions in
  that order; \<open>WaitReturns\<close>: the return of its wait. A call whose guard fails changes nothing.
\<close>

datatype 'e call =
    ServeStarts | Takes nat 'e | Closes err session_ptr | HandlerReturns session_ptr
  | ContextEnds err | Stops "session_ptr list" | WaitReturns

fun perform :: "('s, 'e) methods \<Rightarrow> 'e call \<Rightarrow> 's history \<Rightarrow> 's history" where
  "perform m ServeStarts h =
     (case enter (mBase m (hServer h)) of
        (False, v) \<Rightarrow> h
      | (True, v) \<Rightarrow> h\<lparr>hServer := mWith m (\<lambda>_. v) (hServer h), owned := owned h @ [[]]\<rparr>)"
| "perform m (Takes i ev) h =
     (if i < length (owned h) then
        (case mTake m (owned h ! i) ev (hServer h) of
           (True, t) \<Rightarrow> h\<lparr>hServer := mWith m wg_Done t, owned := take i (owned h) @ drop (Suc i) (owned h)\<rparr>
         | (False, t) \<Rightarrow> h\<lparr>hServer := t, owned := (owned h)[i := owned h ! i
             @ [length (mSessions m (hServer h))..<length (mSessions m t)]]\<rparr>)
      else h)"
| "perform m (Closes e p) h =
     (if p < length (mSessions m (hServer h)) then h\<lparr>hServer := mClose m e p (hServer h)\<rparr> else h)"
| "perform m (HandlerReturns p) h =
     (if p < length (mSessions m (hServer h)) \<and> p \<notin> handled h
      then h\<lparr>hServer := mWith m wg_Done (mClose m ErrSessionClosed p (hServer h)), handled := insert p (handled h)\<rparr>
      else h)"
| "perform m (ContextEnds e) h =
     h\<lparr>hServer := mWith m (\<lambda>v. v\<lparr>serverCtx := cancel e (serverCtx v)\<rparr>) (hServer h)\<rparr>"
| "perform m (Stops order) h =
     (if stage h = Running \<and> set order = ran (byAddr (mBase m (hServer h)))
      then h\<lparr>hServer := mStop m order (hServer h), stage := Waiting\<rparr> else h)"
| "perform m WaitReturns h =
     (if stage h = Waiting \<and> wg (mBase m (hServer h)) = 0 then h\<lparr>stage := Returned\<rparr> else h)"

definition after :: "('s, 'e) methods \<Rightarrow> 'e call list \<Rightarrow> 's \<Rightarrow> 's history" where
  "after m calls t = fold (perform m) calls (new_history t)"

text \<open>A state of the machine that is the server's after a history.\<close>

definition run_rel ::
    "('s, 'e) methods \<Rightarrow> (session_ptr \<Rightarrow> nat) \<Rightarrow> 's history \<Rightarrow> srv_sys \<Rightarrow> bool" where
  "run_rel m f h s \<longleftrightarrow> srv_rel f (handled h) (mBase m (hServer h)) (mSessions m (hServer h)) s
     \<and> loops s = length (owned h) \<and> stopAt s = stage h \<and> raced s = {}"

definition owns_sessions :: "('s, 'e) methods \<Rightarrow> 's history \<Rightarrow> bool" where
  "owns_sessions m h \<longleftrightarrow> (\<forall>ps \<in> set (owned h). \<forall>p \<in> set ps. p < length (mSessions m (hServer h)))"

section \<open>What the machine's invariants say of a server\<close>

lemma count_where_card: "count_where P xs = card {i. i < length xs \<and> P (xs ! i)}"
proof (induction xs rule: rev_induct)
  case (snoc x xs)
  have "{i. i < length (xs @ [x]) \<and> P ((xs @ [x]) ! i)} =
      {i. i < length xs \<and> P (xs ! i)} \<union> (if P x then {length xs} else {})"
    by (auto simp: nth_append less_Suc_eq)
  then show ?case using snoc by (cases "P x") (simp_all add: card_insert_if)
qed simp

definition open_sessions :: "session list \<Rightarrow> session_ptr set" where
  "open_sessions ss = {p. p < length ss \<and> \<not> closeOnce (ss ! p)}"

definition busy_sessions :: "session_ptr set \<Rightarrow> session list \<Rightarrow> session_ptr set" where
  "busy_sessions d ss = {..<length ss} - d"

text \<open>
  What the counter and the wait group of a server count after a history, and what is left when
  \<^verbatim>\<open>StopListener\<close> has returned.
\<close>

definition accounts :: "('s, 'e) methods \<Rightarrow> 's history \<Rightarrow> bool" where
  "accounts m h \<longleftrightarrow> (let v = mBase m (hServer h); ss = mSessions m (hServer h) in
       active v = int (card (open_sessions ss)) \<and> active v \<le> MaxConnections (cfg v)
     \<and> wg v = int (length (owned h)) + int (card (busy_sessions (handled h) ss))
     \<and> (stage h = Returned \<longrightarrow> owned h = [] \<and> open_sessions ss = {} \<and> busy_sessions (handled h) ss = {}))"

text \<open>A property of the machine's connections that only those of sessions can have.\<close>

lemma hosted_count:
  assumes "hosts f d ss cs" and "\<And>c. turned_away c \<Longrightarrow> \<not> P c" and "A \<subseteq> {..<length ss}"
    and "\<And>p. p < length ss \<Longrightarrow> P (cs ! f p) \<longleftrightarrow> p \<in> A"
  shows "count_where P cs = card A"
proof -
  have h: "inj_on f {..<length ss}" "\<forall>p < length ss. f p < length cs"
    "\<forall>i < length cs. i \<notin> f ` {..<length ss} \<longrightarrow> turned_away (cs ! i)"
    using assms(1) by (simp_all add: hosts_def)
  have "{i. i < length cs \<and> P (cs ! i)} = f ` A"
  proof (rule set_eqI, rule iffI)
    fix i assume i: "i \<in> {i. i < length cs \<and> P (cs ! i)}"
    then have "i \<in> f ` {..<length ss}" using h(3) assms(2) by blast
    then show "i \<in> f ` A" using i assms(4) by auto
  qed (use assms(3,4) h(2) in auto)
  moreover have "inj_on f A" using h(1) assms(3) by (rule inj_on_subset)
  ultimately show ?thesis by (simp add: count_where_card card_image)
qed

lemma hosts_conn:
  assumes "hosts f d ss cs" and "p < length ss"
  shows "cphase (cs ! f p) = (if p \<in> d then Finished else Serving)"
    and "csess (cs ! f p) = (if closeOnce (ss ! p) then SessReleased else SessOpen)"
  using assms by (simp_all add: hosts_def)

lemma related_account:
  assumes "srv_rel f d v ss s" and "srv_inv s"
  shows "active v = int (card (open_sessions ss))" and "active v \<le> MaxConnections (cfg v)"
    and "wg v = int (loops s) + int (card (busy_sessions d ss))"
proof -
  let ?m = "MaxConnections (cfg v)"
  have h: "hosts f d ss (conns s)" and same: "same_server f v (srv s)"
    using assms(1) by (simp_all add: srv_rel_def)
  note conns = hosts_conn [OF h]
  have away: "\<not> holds_slot c" "\<not> has_won ?m c" "\<not> in_group (cphase c)" if "turned_away c" for c
    using that by (auto simp: turned_away_def holds_slot_def has_won_def)
  have op: "open_sessions ss \<subseteq> {..<length ss}" by (auto simp: open_sessions_def)
  have "count_where holds_slot (conns s) = card (open_sessions ss)"
    by (rule hosted_count [OF h away(1) op]) (simp_all add: conns holds_slot_def open_sessions_def)
  moreover have "count_where (has_won ?m) (conns s) = card (open_sessions ss)"
    by (rule hosted_count [OF h away(2) op]) (simp_all add: conns has_won_def open_sessions_def)
  moreover have "count_where (\<lambda>c. in_group (cphase c)) (conns s) = card (busy_sessions d ss)"
    by (rule hosted_count [OF h away(3)]) (simp_all add: conns busy_sessions_def)
  ultimately show "active v = int (card (open_sessions ss))" "active v \<le> ?m"
    "wg v = int (loops s) + int (card (busy_sessions d ss))"
    using assms(2) same by (simp_all add: srv_inv_def slot_inv_def won_inv_def group_inv_def same_server_def)
qed

lemma related_lookup:
  assumes "srv_rel f d v ss s" and "srv_inv s" and "raced s = {}" and "GetSession a v = Some p"
  shows "p \<in> open_sessions ss \<and> addr (ss ! p) = a"
proof -
  have r: "p < length ss" "addr (ss ! p) = a" and b: "byAddr (srv s) a = Some (f p)"
    using assms(1,4) by (simp_all add: srv_rel_def registered_in_def same_server_def GetSession_def)
  have "csess (conns s ! f p) = SessOpen"
    using assms(2,3) b by (auto simp: srv_inv_def entry_inv_def)
  then have "\<not> closeOnce (ss ! p)" using assms(1) r(1) by (auto simp: srv_rel_def hosts_def)
  then show ?thesis using r by (simp add: open_sessions_def)
qed

lemma related_returned:
  assumes "srv_rel f d v ss s" and "srv_inv s" and "stopAt s = Returned"
  shows "loops s = 0" and "open_sessions ss = {}" and "busy_sessions d ss = {}"
proof -
  have h: "hosts f d ss (conns s)" using assms(1) by (simp add: srv_rel_def)
  have none: "loops s = 0" "\<forall>i < length (conns s). \<not> in_group (cphase (conns s ! i))"
    using assms(2,3) by (simp_all add: srv_inv_def stop_inv_def)
  have "p \<in> d" if "p < length ss" for p
  proof (rule ccontr)
    assume "p \<notin> d"
    then have "cphase (conns s ! f p) = Serving" using hosts_conn(1) [OF h that] by simp
    moreover have "f p < length (conns s)" using h that by (simp add: hosts_def)
    ultimately show False using none(2) by (metis in_group.simps(4))
  qed
  then show "loops s = 0" "open_sessions ss = {}" "busy_sessions d ss = {}"
    using none(1) h by (auto simp: open_sessions_def busy_sessions_def hosts_def)
qed

section \<open>Every history is a run\<close>

lemma new_server_related:
  assumes "1 \<le> MaxConnections c"
  shows "\<exists>s. srv_init s \<and> srv_rel id {} (newServer p c) [] s \<and> raced s = {} \<and> stopAt s = Running \<and> loops s = 0"
proof -
  let ?s = "\<lparr>srv = newServer p c, conns = [], loops = 0, stopAt = Running, snapshot = {}, raced = {}\<rparr>"
  have "srv_init ?s" unfolding srv_init_def using assms by blast
  moreover have "srv_rel id {} (newServer p c) [] ?s"
    by (simp add: srv_rel_def same_server_def hosts_def registered_in_def newServer_def option.map_id)
  ultimately show ?thesis by fastforce
qed

locale hosted_server = hosted_sessions "mBase m" "mSessions m" "mClose m" "mStop m"
  for m :: "('s, 'e) methods" +
  fixes fresh :: "'s \<Rightarrow> bool"
  assumes fresh_server: "fresh t \<Longrightarrow>
      \<exists>p c. 1 \<le> MaxConnections c \<and> mBase m t = newServer p c \<and> mSessions m t = []"
    and with_base: "mBase m (mWith m g t) = g (mBase m t)"
    and with_sessions: "mSessions m (mWith m g t) = mSessions m t"
    and take_refines: "srv_rel f d (mBase m t) (mSessions m t) s \<Longrightarrow>
      \<forall>p \<in> set mine. p < length (mSessions m t) \<Longrightarrow> mTake m mine ev t = (b, t') \<Longrightarrow>
      (\<exists>g s'. quiet_run s s' \<and> srv_rel g d (mBase m t') (mSessions m t') s')
        \<and> length (mSessions m t) \<le> length (mSessions m t')"
begin

lemma start_refines:
  assumes "run_rel m f h s" and "owns_sessions m h"
  shows "\<exists>s'. srv_moves\<^sup>*\<^sup>* s s' \<and> run_rel m f (perform m ServeStarts h) s' \<and> owns_sessions m (perform m ServeStarts h)"
proof -
  obtain b v where e: "enter (mBase m (hServer h)) = (b, v)" by (metis surj_pair)
  show ?thesis
  proof (cases b)
    case False
    then have "perform m ServeStarts h = h" using e by simp
    then show ?thesis using assms by (metis rtranclp.rtrancl_refl)
  next
    case True
    obtain s' where s': "srv_moves s s'" "srv_rel f (handled h) v (mSessions m (hServer h)) s'"
      "loops s' = Suc (loops s)" "stopAt s' = stopAt s" "raced s' = raced s"
      using refine_serve [of f "handled h" "mBase m (hServer h)" "mSessions m (hServer h)" s v] assms(1) e True
      by (auto simp: run_rel_def)
    then show ?thesis
      using assms e True
      by (intro exI [of _ s']) (auto simp: run_rel_def owns_sessions_def with_base with_sessions)
  qed
qed

lemma take_one_refines:
  assumes "run_rel m f h s" and "owns_sessions m h"
  shows "\<exists>g s'. srv_moves\<^sup>*\<^sup>* s s' \<and> run_rel m g (perform m (Takes i ev) h) s'
    \<and> owns_sessions m (perform m (Takes i ev) h)"
proof (cases "i < length (owned h)")
  case False
  then have "perform m (Takes i ev) h = h" by simp
  then show ?thesis using assms by (metis rtranclp.rtrancl_refl)
next
  case True
  obtain b t where t: "mTake m (owned h ! i) ev (hServer h) = (b, t)" by (metis surj_pair)
  have mine: "\<forall>p \<in> set (owned h ! i). p < length (mSessions m (hServer h))"
    using assms(2) nth_mem [OF True] unfolding owns_sessions_def by blast
  obtain g s1 where s1: "quiet_run s s1" "srv_rel g (handled h) (mBase m t) (mSessions m t) s1"
    and len: "length (mSessions m (hServer h)) \<le> length (mSessions m t)"
    using take_refines [OF _ mine t] assms(1) unfolding run_rel_def by blast
  have q: "loops s1 = length (owned h)" "stopAt s1 = stage h" "raced s1 = {}"
    using s1(1) assms(1) by (simp_all add: quiet_run_def run_rel_def)
  show ?thesis
  proof (cases b)
    case False
    let ?h = "h\<lparr>hServer := t, owned := (owned h)[i := owned h ! i
        @ [length (mSessions m (hServer h))..<length (mSessions m t)]]\<rparr>"
    have h': "perform m (Takes i ev) h = ?h" using True t False by simp
    have "run_rel m g ?h s1" using s1(2) q by (simp add: run_rel_def)
    moreover have "owns_sessions m ?h"
      using assms(2) mine len by (fastforce simp: owns_sessions_def dest!: set_update_subset_insert [THEN subsetD])
    ultimately show ?thesis using quiet_moves [OF s1(1)] h' by auto
  next
    case True
    let ?h = "h\<lparr>hServer := mWith m wg_Done t, owned := take i (owned h) @ drop (Suc i) (owned h)\<rparr>"
    have h': "perform m (Takes i ev) h = ?h" using \<open>i < length (owned h)\<close> t True by simp
    obtain n where n: "loops s1 = Suc n" "length (owned h) = Suc n"
      using q(1) \<open>i < length (owned h)\<close> by (cases "length (owned h)") auto
    obtain s2 where s2: "srv_moves s1 s2" "srv_rel g (handled h) (wg_Done (mBase m t)) (mSessions m t) s2"
      "loops s2 = n" "stopAt s2 = stopAt s1" "raced s2 = raced s1"
      using refine_serve_exit [OF s1(2) n(1)] by blast
    have "run_rel m g ?h s2"
      using s2 q n(2) \<open>i < length (owned h)\<close> by (simp add: run_rel_def with_base with_sessions)
    moreover have "owns_sessions m ?h"
      using assms(2) len
      by (fastforce simp: owns_sessions_def with_sessions dest: in_set_takeD in_set_dropD)
    ultimately show ?thesis
      using quiet_moves [OF s1(1)] s2(1) h' by (metis rtranclp.rtrancl_into_rtrancl)
  qed
qed

lemma close_one_refines:
  assumes "run_rel m f h s" and "owns_sessions m h"
  shows "\<exists>s'. srv_moves\<^sup>*\<^sup>* s s' \<and> run_rel m f (perform m (Closes e p) h) s'
    \<and> owns_sessions m (perform m (Closes e p) h)"
proof (cases "p < length (mSessions m (hServer h))")
  case True
  obtain s' where "quiet_run s s'" "rel f (handled h) (mClose m e p (hServer h)) s'"
    using close_refines [OF _ True, of f "handled h" s e] assms(1) by (auto simp: run_rel_def rel_def)
  then show ?thesis using assms True
    by (intro exI [of _ s']) (auto simp: run_rel_def rel_def owns_sessions_def quiet_run_def)
next
  case False
  then have "perform m (Closes e p) h = h" by simp
  then show ?thesis using assms by (metis rtranclp.rtrancl_refl)
qed

lemma handler_refines:
  assumes "run_rel m f h s" and "owns_sessions m h"
  shows "\<exists>s'. srv_moves\<^sup>*\<^sup>* s s' \<and> run_rel m f (perform m (HandlerReturns p) h) s'
    \<and> owns_sessions m (perform m (HandlerReturns p) h)"
proof (cases "p < length (mSessions m (hServer h)) \<and> p \<notin> handled h")
  case True
  then have p: "p < length (mSessions m (hServer h))" by simp
  let ?t = "mClose m ErrSessionClosed p (hServer h)"
  obtain s1 where s1: "quiet_run s s1" "rel f (handled h) ?t s1"
    using close_refines [OF _ p, of f "handled h" s] assms(1) by (auto simp: run_rel_def rel_def)
  obtain s2 where s2: "quiet_run s1 s2"
    "srv_rel f (insert p (handled h)) (wg_Done (mBase m ?t)) (mSessions m ?t) s2"
    using refine_handled [of f "handled h" "mBase m ?t" "mSessions m ?t" s1 p] s1(2) True close_closes [OF p]
    by (auto simp: rel_def)
  have "quiet_run s s2" using s1(1) s2(1) by (rule quiet_trans)
  then show ?thesis using assms True s2(2)
    by (intro exI [of _ s2]) (auto simp: run_rel_def owns_sessions_def quiet_run_def with_base with_sessions)
next
  case False
  then have "perform m (HandlerReturns p) h = h" unfolding perform.simps by (rule if_not_P)
  then show ?thesis using assms by (metis rtranclp.rtrancl_refl)
qed

lemma context_refines:
  assumes "run_rel m f h s" and "owns_sessions m h"
  shows "\<exists>s'. srv_moves\<^sup>*\<^sup>* s s' \<and> run_rel m f (perform m (ContextEnds e) h) s'
    \<and> owns_sessions m (perform m (ContextEnds e) h)"
proof -
  obtain s' where "quiet_run s s'" "srv_rel f (handled h) ((mBase m (hServer h))\<lparr>serverCtx := cancel e
      (serverCtx (mBase m (hServer h)))\<rparr>) (mSessions m (hServer h)) s'"
    using refine_parent_ends assms(1) unfolding run_rel_def by blast
  then show ?thesis using assms
    by (intro exI [of _ s']) (auto simp: run_rel_def owns_sessions_def quiet_run_def with_base with_sessions)
qed

lemma stops_refines:
  assumes "run_rel m f h s" and "owns_sessions m h"
  shows "\<exists>s'. srv_moves\<^sup>*\<^sup>* s s' \<and> run_rel m f (perform m (Stops order) h) s'
    \<and> owns_sessions m (perform m (Stops order) h)"
proof (cases "stage h = Running \<and> set order = ran (byAddr (mBase m (hServer h)))")
  case True
  obtain s' where "srv_moves\<^sup>*\<^sup>* s s'" "rel f (handled h) (mStop m order (hServer h)) s'" "stopAt s' = Waiting"
    "loops s' = loops s" "raced s' = raced s"
    "length (mSessions m (mStop m order (hServer h))) = length (mSessions m (hServer h))"
    using stop_refines [of f "handled h" "hServer h" s order] assms(1) True by (auto simp: run_rel_def rel_def)
  then show ?thesis using assms True
    by (intro exI [of _ s']) (auto simp: run_rel_def rel_def owns_sessions_def)
next
  case False
  then have "perform m (Stops order) h = h" unfolding perform.simps by (rule if_not_P)
  then show ?thesis using assms by (metis rtranclp.rtrancl_refl)
qed

lemma wait_refines:
  assumes "run_rel m f h s" and "owns_sessions m h"
  shows "\<exists>s'. srv_moves\<^sup>*\<^sup>* s s' \<and> run_rel m f (perform m WaitReturns h) s'
    \<and> owns_sessions m (perform m WaitReturns h)"
proof (cases "stage h = Waiting \<and> wg (mBase m (hServer h)) = 0")
  case True
  then have "stopAt s = Waiting" "wg (srv s) = 0"
    using assms(1) by (simp_all add: run_rel_def srv_rel_def same_server_def)
  then have "srv_moves s (s\<lparr>stopAt := Returned\<rparr>)" using srv_step.stop_return by (auto simp: srv_moves_def)
  then show ?thesis using assms True
    by (intro exI [of _ "s\<lparr>stopAt := Returned\<rparr>"]) (auto simp: run_rel_def srv_rel_def owns_sessions_def)
next
  case False
  then have "perform m WaitReturns h = h" by simp
  then show ?thesis using assms by (metis rtranclp.rtrancl_refl)
qed

lemma perform_refines:
  assumes "run_rel m f h s" and "owns_sessions m h"
  shows "\<exists>g s'. srv_moves\<^sup>*\<^sup>* s s' \<and> run_rel m g (perform m c h) s' \<and> owns_sessions m (perform m c h)"
proof (cases c)
  case ServeStarts
  then show ?thesis using start_refines [OF assms] unfolding ServeStarts by blast
next
  case (Takes i ev)
  then show ?thesis using take_one_refines [OF assms, of i ev] unfolding Takes by blast
next
  case (Closes e p)
  then show ?thesis using close_one_refines [OF assms, of e p] unfolding Closes by blast
next
  case (HandlerReturns p)
  then show ?thesis using handler_refines [OF assms, of p] unfolding HandlerReturns by blast
next
  case (ContextEnds e)
  then show ?thesis using context_refines [OF assms, of e] unfolding ContextEnds by blast
next
  case (Stops order)
  then show ?thesis using stops_refines [OF assms, of order] unfolding Stops by blast
next
  case WaitReturns
  then show ?thesis using wait_refines [OF assms] unfolding WaitReturns by blast
qed

lemma history_refines:
  "run_rel m f h s \<Longrightarrow> owns_sessions m h \<Longrightarrow>
    \<exists>g s'. srv_moves\<^sup>*\<^sup>* s s' \<and> run_rel m g (fold (perform m) cs h) s'"
proof (induction cs arbitrary: f h s)
  case Nil
  then show ?case by (metis fold_simps(1) rtranclp.rtrancl_refl)
next
  case (Cons c cs)
  obtain g s1 where s1: "srv_moves\<^sup>*\<^sup>* s s1" "run_rel m g (perform m c h) s1" "owns_sessions m (perform m c h)"
    using perform_refines [OF Cons.prems] by blast
  show ?case using Cons.IH [OF s1(2,3)] s1(1) by (metis fold_simps(2) rtranclp_trans)
qed

lemma history_related:
  assumes "fresh t"
  shows "\<exists>f s. srv_reachable s \<and> run_rel m f (after m cs t) s"
proof -
  obtain s0 where s0: "srv_init s0" "srv_rel id {} (mBase m t) (mSessions m t) s0" "raced s0 = {}"
    "stopAt s0 = Running" "loops s0 = 0"
    using fresh_server [OF assms] new_server_related by metis
  have "run_rel m id (new_history t) s0" using s0 by (simp add: run_rel_def new_history_def)
  moreover have "owns_sessions m (new_history t)" by (simp add: owns_sessions_def new_history_def)
  ultimately obtain f s where s: "srv_moves\<^sup>*\<^sup>* s0 s" "run_rel m f (after m cs t) s"
    unfolding after_def using history_refines [of id "new_history t" s0 cs] by metis
  have "srv_reachable s0" using s0(1) by (rule reach_init)
  then have "srv_reachable s" by (rule moves_reachable [OF s(1)])
  then show ?thesis using s(2) by metis
qed

lemma history_account:
  assumes "fresh t"
  shows "accounts m (after m cs t)"
proof -
  let ?h = "after m cs t"
  let ?ss = "mSessions m (hServer ?h)"
  obtain f s where s: "srv_reachable s" "run_rel m f ?h s" using history_related [OF assms] by blast
  note inv = srv_safety.inv_reachable [OF s(1)]
  note r = s(2) [unfolded run_rel_def]
  have "owned ?h = [] \<and> open_sessions ?ss = {} \<and> busy_sessions (handled ?h) ?ss = {}" if "stage ?h = Returned"
    using related_returned [OF conjunct1 [OF r] inv] r that by simp
  then show ?thesis
    using related_account [OF conjunct1 [OF r] inv] r unfolding accounts_def Let_def by simp
qed

end

end
