(* ===== verification/WebSocket.thy ===== *)
theory WebSocket
  imports Net
begin

text \<open>
  \<^verbatim>\<open>listener/websocket.go\<close>. The gorilla connection, the HTTP server and the upgrader are not part
  of the repository: a connection is given by the frames its \<^verbatim>\<open>ReadMessage\<close> will return and by
  the answers of its writes, the upgrade by its outcome.
\<close>

section \<open>The transport\<close>

text \<open>The message types of RFC 6455, which gorilla uses.\<close>

definition TextMessage :: int where "TextMessage = 1"
definition BinaryMessage :: int where "BinaryMessage = 2"

definition closeFrameTimeout :: int where "closeFrameTimeout = 100 * Millisecond"

text \<open>
  \<open>frames\<close>: the results of the next calls of \<^verbatim>\<open>ReadMessage\<close>, after which it reports \<open>wsEnd\<close>.
  \<open>wsSent\<close> are the frames written; \<open>closeFrames\<close> and \<open>connCloses\<close> count what \<^verbatim>\<open>close\<close> did.
\<close>

record ws_transport =
  wsReadTimeout :: int
  wsWriteTimeout :: int
  wsCloseOnce :: bool
  frames :: "(int \<times> bytes) list"
  wsEnd :: err
  wsSetReadDeadline :: "int \<Rightarrow> err option"
  wsSetWriteDeadline :: "int \<Rightarrow> err option"
  wsWrite :: "nat \<Rightarrow> bytes \<Rightarrow> err option"
  wsClock :: "nat \<Rightarrow> int"
  wsTicks :: nat
  wsReadDeadline :: "int option"
  wsWriteDeadline :: "int option"
  wsWrites :: nat
  wsSent :: "(int \<times> bytes) list"
  closeFrames :: "int list"
  connCloses :: nat

text \<open>Setting the read deadline, if a timeout is configured: the error, and the transport after it.\<close>

definition ws_move_deadline :: "ws_transport \<Rightarrow> err option \<times> ws_transport" where
  "ws_move_deadline t =
     (if 0 < wsReadTimeout t
      then let d = wsClock t (wsTicks t) + wsReadTimeout t; t1 = t\<lparr>wsTicks := Suc (wsTicks t)\<rparr> in
        (case wsSetReadDeadline t d of
           Some e \<Rightarrow> (Some e, t1)
         | None \<Rightarrow> (None, t1\<lparr>wsReadDeadline := Some d\<rparr>))
      else (None, t))"

lemma ws_move_frames [simp]:
  "frames (snd (ws_move_deadline t)) = frames t" "wsEnd (snd (ws_move_deadline t)) = wsEnd t"
  "wsSetReadDeadline (snd (ws_move_deadline t)) = wsSetReadDeadline t"
  by (simp_all add: ws_move_deadline_def Let_def split: option.splits)

function ws_readMessage :: "ws_transport \<Rightarrow> (err + bytes) \<times> ws_transport" where
  "ws_readMessage t =
     (case fst (ws_move_deadline t) of
        Some e \<Rightarrow> (Inl e, snd (ws_move_deadline t))
      | None \<Rightarrow>
          (let t1 = snd (ws_move_deadline t) in
           case frames t1 of
             [] \<Rightarrow> (Inl (wsEnd t1), t1)
           | (kind, d) # fs \<Rightarrow>
               if kind = BinaryMessage then (Inr d, t1\<lparr>frames := fs\<rparr>)
               else ws_readMessage (t1\<lparr>frames := fs\<rparr>)))"
  by pat_completeness auto
termination
  by (relation "measure (\<lambda>t. length (frames t))")
    (auto dest: arg_cong [of _ _ length])

declare ws_readMessage.simps [simp del]

fun ws_write_all :: "bytes list \<Rightarrow> ws_transport \<Rightarrow> err option \<times> ws_transport" where
  "ws_write_all [] t = (None, t)"
| "ws_write_all (m # ms) t =
     (case wsWrite t (wsWrites t) m of
        Some e \<Rightarrow> (Some e, t\<lparr>wsWrites := Suc (wsWrites t)\<rparr>)
      | None \<Rightarrow> ws_write_all ms
          (t\<lparr>wsWrites := Suc (wsWrites t), wsSent := wsSent t @ [(BinaryMessage, m)]\<rparr>))"

definition ws_writeMessages :: "bytes list \<Rightarrow> ws_transport \<Rightarrow> err option \<times> ws_transport" where
  "ws_writeMessages ms t =
     (if 0 < wsWriteTimeout t
      then let d = wsClock t (wsTicks t) + wsWriteTimeout t; t1 = t\<lparr>wsTicks := Suc (wsTicks t)\<rparr> in
        (case wsSetWriteDeadline t d of
           Some e \<Rightarrow> (Some e, t1)
         | None \<Rightarrow> ws_write_all ms (t1\<lparr>wsWriteDeadline := Some d\<rparr>))
      else ws_write_all ms t)"

definition ws_close :: "err \<Rightarrow> ws_transport \<Rightarrow> ws_transport" where
  "ws_close cause t =
     (if wsCloseOnce t then t
      else t\<lparr>wsCloseOnce := True,
             closeFrames := closeFrames t @ [wsClock t (wsTicks t) + closeFrameTimeout],
             wsTicks := Suc (wsTicks t), connCloses := Suc (connCloses t)\<rparr>)"

definition wsTransport :: "ws_transport transport" where
  "wsTransport = \<lparr>readMessage = ws_readMessage, writeMessages = ws_writeMessages,
     closeTransport = ws_close\<rparr>"

section \<open>The server\<close>

definition allowAnyOrigin :: "http_request \<Rightarrow> bool" where
  "allowAnyOrigin r = True"

record ws_upgrader =
  upReadBufferSize :: int
  upWriteBufferSize :: int
  upCheckOrigin :: "http_request \<Rightarrow> bool"

text \<open>\<open>httpUp\<close>: Serve has created the HTTP server; \<open>httpErrors\<close> are the error responses sent.\<close>

record ws_server =
  wsBase :: server
  wsAddr :: string
  wsCfg :: websocket_config
  upgrader :: ws_upgrader
  wsLn :: "net_listener option"
  httpUp :: bool
  httpClosed :: bool
  wsSessions :: "(ws_transport \<times> session) list"
  wsReadLimits :: "int list"
  httpErrors :: "(string \<times> int) list"

definition StatusServiceUnavailable :: int where "StatusServiceUnavailable = 503"
definition StatusNotFound :: int where "StatusNotFound = 404"

definition NewWebSocket ::
    "string \<Rightarrow> 16 word \<Rightarrow> err option \<Rightarrow> server_option list \<Rightarrow> err + ws_server" where
  "NewWebSocket host port parent opts =
     (let config = apply_options opts defaultConfig in
      case ValidateConfig config of
        Some e \<Rightarrow> Inl (NewConfigError ''invalid configuration'' (Some e))
      | None \<Rightarrow>
          (case ProtocolConfig config of
             WebSocketConfig w \<Rightarrow>
               (let check = (case CheckOrigin w of None \<Rightarrow> allowAnyOrigin | Some f \<Rightarrow> f) in
                Inr \<lparr>wsBase = newServer parent config, wsAddr = hostPort host port, wsCfg = w,
                  upgrader = \<lparr>upReadBufferSize = ReadBufferSize w,
                    upWriteBufferSize = WriteBufferSize w, upCheckOrigin = check\<rparr>,
                  wsLn = None, httpUp = False, httpClosed = False, wsSessions = [],
                  wsReadLimits = [], httpErrors = []\<rparr>)
           | _ \<Rightarrow> Inl (NewConfigError ''invalid WebSocket configuration'' None)))"

definition ws_Listen ::
    "(string \<Rightarrow> err + net_listener) \<Rightarrow> ws_server \<Rightarrow> err option \<times> ws_server" where
  "ws_Listen bind w =
     (case wsLn w of
        Some l \<Rightarrow> (None, w)
      | None \<Rightarrow> (case bind (wsAddr w) of
          Inl e \<Rightarrow> (Some (NewConnectionError ''failed to start listener'' (Some e)), w)
        | Inr l \<Rightarrow> (None, w\<lparr>wsLn := Some l,
            wsBase := log_at Info ''gophersocks: WebSocket server listening'' (wsBase w)\<rparr>)))"

definition http_error :: "string \<Rightarrow> int \<Rightarrow> ws_server \<Rightarrow> ws_server" where
  "http_error msg code w = w\<lparr>httpErrors := httpErrors w @ [(msg, code)]\<rparr>"

text \<open>
  \<^verbatim>\<open>upgrade\<close> up to the start of the handler: \<open>up\<close> is the upgrader's answer to the request,
  an error or the connection with its remote address. The result is the new session.
\<close>

definition ws_upgrade ::
    "(http_request \<Rightarrow> err + string \<times> ws_transport) \<Rightarrow> err option \<Rightarrow> http_request \<Rightarrow> string \<Rightarrow> int
      \<Rightarrow> ws_server \<Rightarrow> session_ptr option \<times> ws_server" where
  "ws_upgrade up c r uid now w =
     (case tryAdmit (wsBase w) of
        (False, v) \<Rightarrow>
          (None, http_error ''Too many connections'' StatusServiceUnavailable (w\<lparr>wsBase := v\<rparr>))
      | (True, v) \<Rightarrow>
          (case enter v of
             (False, v') \<Rightarrow>
               (None, http_error ''Server stopping'' StatusServiceUnavailable (w\<lparr>wsBase := release v'\<rparr>))
           | (True, v') \<Rightarrow>
               (case up r of
                  Inl e \<Rightarrow>
                    (None, w\<lparr>wsBase := wg_Done
                       (log_at Debug ''gophersocks: WebSocket upgrade failed'' (release v'))\<rparr>)
                | Inr (remote, conn) \<Rightarrow>
                    (let t = conn\<lparr>wsReadTimeout := ReadTimeout (cfg v'),
                               wsWriteTimeout := WriteTimeout (cfg v'), wsCloseOnce := False\<rparr>;
                         s = newSession c remote (cfg v') True uid now;
                         p = length (wsSessions w)
                     in (Some p, w\<lparr>wsBase := add remote p v', wsSessions := wsSessions w @ [(t, s)],
                           wsReadLimits := wsReadLimits w @ [uint (MaxLength (cfg v'))]\<rparr>)))))"

definition ws_close_session :: "err \<Rightarrow> session_ptr \<Rightarrow> ws_server \<Rightarrow> ws_server" where
  "ws_close_session e p w =
     (case wsSessions w ! p of (t, s) \<Rightarrow>
        if closeOnce s then w
        else w\<lparr>wsBase := remove (addr s) p (wsBase w),
               wsSessions := (wsSessions w)[p := closeWith wsTransport (Some e) (t, s)]\<rparr>)"

text \<open>
  The \<^verbatim>\<open>AfterFunc\<close> that \<^verbatim>\<open>newSession\<close> registers, as in \<open>Tcp\<close>: once Serve's context has ended, the
  sessions \<open>mine\<close> of this Serve call close with its cause.
\<close>

definition ws_ctx_ends :: "err option \<Rightarrow> session_ptr list \<Rightarrow> ws_server \<Rightarrow> ws_server" where
  "ws_ctx_ends c mine w = (case c of None \<Rightarrow> w | Some e \<Rightarrow> fold (ws_close_session e) mine w)"

text \<open>
  What \<^verbatim>\<open>http.ServeMux\<close> does with a pattern: whether \<^verbatim>\<open>HandleFunc\<close> takes it (else it panics), and which
  request paths it matches. A request comes with its path, the upgrader's answer, Serve's context
  at that moment, and as in \<open>newSession\<close> the fresh identifier and the clock.
\<close>

record serve_mux =
  muxAccepts :: "string \<Rightarrow> bool"
  muxMatches :: "string \<Rightarrow> string \<Rightarrow> bool"

datatype ws_event =
    Requested string "http_request \<Rightarrow> err + string \<times> ws_transport" "err option" http_request string int

fun ws_handle ::
    "(string \<Rightarrow> bool) \<Rightarrow> session_ptr list \<Rightarrow> ws_event list \<Rightarrow> ws_server \<Rightarrow> session_ptr list \<times> ws_server" where
  "ws_handle matches mine [] w = (mine, w)"
| "ws_handle matches mine (Requested path up c r uid now # evs) w =
     (if matches path then
        (let w1 = snd (ws_upgrade up c r uid now w);
             mine1 = mine @ [length (wsSessions w)..<length (wsSessions w1)]
         in ws_handle matches mine1 evs (ws_ctx_ends c mine1 w1))
      else ws_handle matches mine evs (http_error ''404 page not found'' StatusNotFound w))"

text \<open>
  \<^verbatim>\<open>http.Server.Serve\<close> on the listener: it ends with \<open>served\<close>, at once if the listener is closed, and
  closes the listener.
\<close>

definition http_serve ::
    "(string \<Rightarrow> bool) \<Rightarrow> ws_event list \<Rightarrow> err option \<Rightarrow> ws_server
      \<Rightarrow> err option \<times> session_ptr list \<times> ws_server" where
  "http_serve matches evs served w =
     (if (case wsLn w of None \<Rightarrow> False | Some l \<Rightarrow> lnClosed l) then (Some already_closed, [], w)
      else (case ws_handle matches [] evs w of
        (mine, w1) \<Rightarrow> (served, mine, w1\<lparr>wsLn := map_option (\<lambda>l. l\<lparr>lnClosed := True\<rparr>) (wsLn w1)\<rparr>)))"

text \<open>
  Serve, until \<^verbatim>\<open>http.Server.Serve\<close> returns; \<open>c\<close> is the cause of Serve's context then, if it has
  ended. The deferred \<^verbatim>\<open>stop\<close> cancels the context, also on the panic of \<^verbatim>\<open>HandleFunc\<close>.
\<close>

definition ws_Serve ::
    "(string \<Rightarrow> err + net_listener) \<Rightarrow> serve_mux \<Rightarrow> ws_event list \<Rightarrow> err option \<Rightarrow> (err \<Rightarrow> bool)
      \<Rightarrow> err option \<Rightarrow> ws_server \<Rightarrow> err option \<times> ws_server" where
  "ws_Serve bind mux evs served is_server_closed c w =
     (case ws_Listen bind w of
        (Some e, w1) \<Rightarrow> (Some e, w1)
      | (None, w1) \<Rightarrow>
          (case enter (wsBase w1) of
             (False, v) \<Rightarrow> (Some ErrServerStopped, w1\<lparr>wsBase := v\<rparr>)
           | (True, v) \<Rightarrow>
               if \<not> muxAccepts mux (Path (wsCfg w1))
               then (Some (RuntimePanic ''http: invalid pattern''), w1\<lparr>wsBase := wg_Done v\<rparr>)
               else (case http_serve (muxMatches mux (Path (wsCfg w1))) evs served
                       (w1\<lparr>wsBase := v, httpUp := True\<rparr>) of
                 (r, mine, w2) \<Rightarrow>
                   let w3 = ws_ctx_ends (cancel Canceled c) mine w2;
                       w4 = w3\<lparr>wsBase := wg_Done (wsBase w3)\<rparr>
                   in (case r of
                         Some e \<Rightarrow> if is_server_closed e then (None, w4)
                           else (Some (NewConnectionError ''serve failed'' (Some e)), w4)
                       | None \<Rightarrow> (None, w4)))))"

definition ws_StartListener ::
    "(string \<Rightarrow> err + net_listener) \<Rightarrow> ws_server \<Rightarrow> err option \<times> bool \<times> ws_server" where
  "ws_StartListener bind w = (case ws_Listen bind w of
     (Some e, w') \<Rightarrow> (Some e, False, w') | (None, w') \<Rightarrow> (None, True, w'))"

text \<open>\<open>http_close\<close> is the answer of the HTTP server's Close.\<close>

definition ws_closeListener :: "err option \<Rightarrow> ws_server \<Rightarrow> err option \<times> ws_server" where
  "ws_closeListener http_close w =
     (if httpUp w then (http_close, w\<lparr>httpClosed := True\<rparr>)
      else case wsLn w of
        Some l \<Rightarrow> (case ln_Close l of (e, l') \<Rightarrow> (e, w\<lparr>wsLn := Some l'\<rparr>))
      | None \<Rightarrow> (None, w))"

definition ws_StopListener :: "err option \<Rightarrow> session_ptr list \<Rightarrow> ws_server \<Rightarrow> err option \<times> ws_server" where
  "ws_StopListener http_close order w =
     (let w0 = w\<lparr>wsBase := log_at Info ''gophersocks: shutting down WebSocket server'' (wsBase w)\<rparr> in
      case stop_begin (wsBase w0) of (m, v) \<Rightarrow>
        (case ws_closeListener http_close (w0\<lparr>wsBase := stop_cancel v\<rparr>) of (e, w1) \<Rightarrow>
           (e, fold (ws_close_session ErrServerStopped) order w1)))"

lemma ws_ctx_lives [simp]: "ws_ctx_ends None mine w = w" "ws_ctx_ends c [] w = w"
  by (simp_all add: ws_ctx_ends_def split: option.split)

section \<open>The contracts\<close>

lemma ws_fields [simp]:
  "readMessage wsTransport = ws_readMessage" "writeMessages wsTransport = ws_writeMessages"
  "closeTransport wsTransport = ws_close"
  by (simp_all add: wsTransport_def)

lemma ws_write_all_ok: "ws_write_all ms t = (None, t') \<Longrightarrow> wsSent t' = wsSent t @ map (Pair BinaryMessage) ms"
  by (induction ms t rule: ws_write_all.induct) (auto split: option.splits)

lemma ws_write_all_error:
  "ws_write_all ms t = (Some e, t') \<Longrightarrow>
    \<exists>p q. wsSent t' = wsSent t @ map (Pair BinaryMessage) p \<and> ms = p @ q"
proof (induction ms t rule: ws_write_all.induct)
  case (2 m ms t)
  show ?case
  proof (cases "wsWrite t (wsWrites t) m")
    case None
    then obtain p q where "wsSent t' = (wsSent t @ [(BinaryMessage, m)]) @ map (Pair BinaryMessage) p"
      "ms = p @ q"
      using 2 by auto
    then show ?thesis by (intro exI [of _ "m # p"] exI [of _ q]) simp
  next
    case (Some x)
    then have "wsSent t' = wsSent t" using 2(2) by auto
    then show ?thesis by simp
  qed
qed simp

lemma ws_writeMessages_cases:
  "\<exists>u. wsSent u = wsSent t \<and> (ws_writeMessages ms t = ws_write_all ms u
    \<or> (\<exists>e. ws_writeMessages ms t = (Some e, u)))"
proof (cases "0 < wsWriteTimeout t")
  case True
  let ?d = "wsClock t (wsTicks t) + wsWriteTimeout t"
  show ?thesis
  proof (cases "wsSetWriteDeadline t ?d")
    case None
    then show ?thesis using True
      by (intro exI [of _ "t\<lparr>wsTicks := Suc (wsTicks t), wsWriteDeadline := Some ?d\<rparr>"])
        (simp add: ws_writeMessages_def Let_def)
  next
    case (Some e)
    then show ?thesis using True
      by (intro exI [of _ "t\<lparr>wsTicks := Suc (wsTicks t)\<rparr>"]) (simp add: ws_writeMessages_def Let_def)
  qed
next
  case False
  then show ?thesis by (intro exI [of _ t]) (simp add: ws_writeMessages_def)
qed

interpretation ws_writer: writing_transport wsTransport "\<lambda>t. True" wsSent "\<lambda>t m. [(BinaryMessage, m)]"
proof (unfold_locales, unfold ws_fields)
  fix t ms t' assume w: "ws_writeMessages ms t = (None, t')"
  obtain u where "wsSent u = wsSent t" "ws_write_all ms u = (None, t')"
    using ws_writeMessages_cases [of t ms] w by auto
  then show "wsSent t' = wsSent t @ concat (map (\<lambda>m. [(BinaryMessage, m)]) ms) \<and> True
      \<and> (\<lambda>m. [(BinaryMessage, m)]) = (\<lambda>m. [(BinaryMessage, m)])"
    using ws_write_all_ok [of ms u t'] by simp
next
  fix t ms e t' assume w: "ws_writeMessages ms t = (Some e, t')"
  obtain u where u: "wsSent u = wsSent t" "ws_write_all ms u = (Some e, t') \<or> t' = u"
    using ws_writeMessages_cases [of t ms] w by auto
  then obtain p q where "wsSent t' = wsSent t @ map (Pair BinaryMessage) p" "ms = p @ q"
    using ws_write_all_error [of ms u e t'] by (metis append_Nil append_Nil2 list.simps(8))
  then show "\<exists>p q. wsSent t' = wsSent t @ p \<and> concat (map (\<lambda>m. [(BinaryMessage, m)]) ms) = p @ q"
    by (intro exI [of _ "map (Pair BinaryMessage) p"] exI [of _ "map (Pair BinaryMessage) q"]) simp
qed (simp add: ws_close_def)

text \<open>The messages in what the connection will deliver: its binary frames.\<close>

definition binary_payloads :: "(int \<times> bytes) list \<Rightarrow> bytes list" where
  "binary_payloads fs = map snd (filter (\<lambda>f. fst f = BinaryMessage) fs)"

definition ws_holds :: "bytes list \<Rightarrow> ws_transport \<Rightarrow> bool" where
  "ws_holds ms t \<longleftrightarrow> ms = binary_payloads (frames t) \<and> (\<forall>d. wsSetReadDeadline t d = None)"

lemma ws_move_ok: "\<forall>d. wsSetReadDeadline t d = None \<Longrightarrow> fst (ws_move_deadline t) = None"
  by (simp add: ws_move_deadline_def Let_def)

lemma ws_read_result:
  "\<forall>d. wsSetReadDeadline t d = None \<Longrightarrow>
    (case binary_payloads (frames t) of
       [] \<Rightarrow> \<exists>t'. ws_readMessage t = (Inl (wsEnd t), t')
     | m # ms \<Rightarrow> \<exists>t'. ws_readMessage t = (Inr m, t') \<and> ws_holds ms t' \<and> wsEnd t' = wsEnd t)"
proof (induction t rule: ws_readMessage.induct)
  case (1 t)
  let ?t1 = "snd (ws_move_deadline t)"
  have ok: "fst (ws_move_deadline t) = None" by (rule ws_move_ok [OF 1(2)])
  show ?case
  proof (cases "frames t")
    case Nil
    then show ?thesis using ok by (subst ws_readMessage.simps) (simp add: binary_payloads_def Let_def)
  next
    case (Cons f fs)
    obtain kind d where f: "f = (kind, d)" by (cases f) auto
    show ?thesis
    proof (cases "kind = BinaryMessage")
      case True
      then show ?thesis using ok Cons f 1(2)
        by (subst ws_readMessage.simps) (simp add: binary_payloads_def Let_def ws_holds_def)
    next
      case False
      have step: "ws_readMessage t = ws_readMessage (?t1\<lparr>frames := fs\<rparr>)"
        using ok Cons f False by (subst ws_readMessage.simps) (simp add: Let_def)
      have "binary_payloads (frames t) = binary_payloads fs"
        using Cons f False by (simp add: binary_payloads_def)
      then show ?thesis
        using 1(1) [OF ok refl _ refl False, of d fs] 1(2) Cons f step
        by (cases "binary_payloads fs") simp_all
    qed
  qed
qed

interpretation ws_source: reading_transport wsTransport ws_holds wsEnd
proof (unfold_locales, unfold ws_fields)
  show "\<exists>t'. ws_readMessage t = (Inr m, t') \<and> ws_holds ms t' \<and> wsEnd t' = wsEnd t"
    if "ws_holds (m # ms) t" for m ms t
    using that ws_read_result [of t] by (auto simp: ws_holds_def split: list.splits)
  show "\<exists>t'. ws_readMessage t = (Inl (wsEnd t), t')" if "ws_holds [] t" for t
    using that ws_read_result [of t] by (auto simp: ws_holds_def split: list.splits)
qed

end
