(* ===== verification/Quic.thy ===== *)
theory Quic
  imports Net "HOL-Library.AList"
begin

text \<open>
  \<^verbatim>\<open>listener/quic.go\<close>: the choice of codecs by ALPN protocol, the TLS settings, \<^verbatim>\<open>Listen\<close>, the
  accept loop, \<^verbatim>\<open>handleConn\<close> and stopping. quic-go and the cryptography are arguments:
  a connection is given by the stream it opens, or the error, and its negotiated protocol.
\<close>

section \<open>Constants and state\<close>

definition quicCodeClosed :: nat where "quicCodeClosed = 0"
definition quicCodeServerFull :: nat where "quicCodeServerFull = 1"
definition quicCodeProtocol :: nat where "quicCodeProtocol = 2"

definition defaultStreamTimeout :: int where "defaultStreamTimeout = 10 * Second"

definition VersionTLS13 :: "16 word" where "VersionTLS13 = 0x0304"

text \<open>\<^verbatim>\<open>quic.ErrServerClosed\<close>.\<close>

definition QuicErrServerClosed :: err where
  "QuicErrServerClosed = OpError ''quic: server closed'' False"

record quic_conn =
  qRemote :: string
  qStream :: "err + net_conn"
  qProtocol :: string

text \<open>
  \<open>codecs\<close> is the map of \<^verbatim>\<open>resolveCodecs\<close> as a list of pairs; \<open>connCloses\<close> records the calls of
  \<^verbatim>\<open>CloseWithError\<close> on connections without a session. \<open>openSockets\<close> counts the UDP sockets that
  \<^verbatim>\<open>net.ListenUDP\<close> has opened and that are not closed, \<open>udpOpen\<close> says whether the one kept in \<^verbatim>\<open>q.udp\<close>
  is among them.
\<close>

record quic_server =
  quicBase :: server
  quicAddr :: string
  qcfg :: quic_config
  quicLn :: "net_listener option"
  trClosed :: bool
  udpOpen :: bool
  openSockets :: int
  codecs :: "(string \<times> codec) list"
  quicSessions :: "(stream_transport \<times> session) list"
  connCloses :: "(string \<times> nat \<times> string) list"

text \<open>
  The fallback on a protocol configuration of another kind is reachable only through an option
  written outside the package that replaces the configuration.
\<close>

definition NewQUIC ::
    "string \<Rightarrow> 16 word \<Rightarrow> err option \<Rightarrow> server_option list \<Rightarrow> err + quic_server" where
  "NewQUIC host port parent opts =
     (let config = apply_options opts (defaultConfig\<lparr>ProtocolConfig := QUICConfig defaultQUICConfig\<rparr>) in
      case ValidateConfig config of
        Some e \<Rightarrow> Inl (NewConfigError ''invalid configuration'' (Some e))
      | None \<Rightarrow> Inr \<lparr>quicBase = newServer parent config, quicAddr = hostPort host port,
          qcfg = (case ProtocolConfig config of QUICConfig q \<Rightarrow> q | _ \<Rightarrow> defaultQUICConfig),
          quicLn = None, trClosed = False, udpOpen = False, openSockets = 0, codecs = [], quicSessions = [],
          connCloses = []\<rparr>)"

section \<open>Codecs and TLS\<close>

definition no_codec_error :: "string \<Rightarrow> err" where
  "no_codec_error alpn = OpError (''no codec for ALPN '' @ [char_of (34 :: nat)] @ alpn @ [char_of (34 :: nat)]) False"

definition registered_codec :: "quic_config \<Rightarrow> string \<Rightarrow> codec option" where
  "registered_codec q alpn = (case Codecs q of None \<Rightarrow> None | Some cs \<Rightarrow> cs alpn)"

fun resolve_loop ::
    "quic_config \<Rightarrow> string list \<Rightarrow> (string \<times> codec) list \<Rightarrow> err + (string \<times> codec) list" where
  "resolve_loop q [] acc = Inr acc"
| "resolve_loop q (alpn # rest) acc =
     (case registered_codec q alpn of
        Some c \<Rightarrow> resolve_loop q rest (AList.update alpn c acc)
      | None \<Rightarrow>
          if alpn \<noteq> DefaultALPN then Inl (no_codec_error alpn)
          else (case NewLegacy (Delimiter q) of
             Inl e \<Rightarrow> Inl e
           | Inr c \<Rightarrow> resolve_loop q rest (AList.update alpn c acc)))"

definition resolveCodecs :: "quic_config \<Rightarrow> err + (string \<times> codec) list" where
  "resolveCodecs q =
     (case resolve_loop q (ALPN q) [] of
        Inl e \<Rightarrow> Inl e
      | Inr acc \<Rightarrow>
          if length acc = 0 then Inl (OpError ''no ALPN protocols configured'' False) else Inr acc)"

text \<open>
  The certificate template, and what \<^verbatim>\<open>selfSignedCert\<close> asks of \<^verbatim>\<open>crypto\<close> and \<^verbatim>\<open>time\<close>: a P-256 key (by
  name), its public half, \<^verbatim>\<open>rand.Int\<close> below a bound, the two readings of the clock, \<^verbatim>\<open>AddDate(1, 0, 0)\<close>
  and the signing of a template by a parent for a public key.
\<close>

record cert_template =
  SerialNumber :: int
  NotBefore :: int
  NotAfter :: int
  KeyUsage :: nat
  ExtKeyUsage :: "nat list"

record crypto =
  GenerateKey :: "err + string"
  publicKey :: "string \<Rightarrow> string"
  randInt :: "int \<Rightarrow> err + int"
  certClock :: "nat \<Rightarrow> int"
  addYear :: "int \<Rightarrow> int"
  CreateCertificate :: "cert_template \<Rightarrow> cert_template \<Rightarrow> string \<Rightarrow> string \<Rightarrow> err + bytes"

definition KeyUsageDigitalSignature :: nat where "KeyUsageDigitalSignature = 1"
definition ExtKeyUsageServerAuth :: nat where "ExtKeyUsageServerAuth = 1"

definition selfSignedCert :: "crypto \<Rightarrow> err + tls_certificate" where
  "selfSignedCert cr =
     (case GenerateKey cr of
        Inl e \<Rightarrow> Inl e
      | Inr key \<Rightarrow>
     (case randInt cr (2 ^ 62) of
        Inl e \<Rightarrow> Inl e
      | Inr serial \<Rightarrow>
     (let template = \<lparr>SerialNumber = serial, NotBefore = certClock cr 0 - 60 * Second,
            NotAfter = addYear cr (certClock cr 1), KeyUsage = KeyUsageDigitalSignature,
            ExtKeyUsage = [ExtKeyUsageServerAuth]\<rparr> in
      case CreateCertificate cr template template (publicKey cr key) key of
        Inl e \<Rightarrow> Inl e
      | Inr der \<Rightarrow> Inr \<lparr>certDER = der, PrivateKey = key\<rparr>)))"

definition tlsConfig :: "crypto \<Rightarrow> quic_config \<Rightarrow> err + tls_config" where
  "tlsConfig cr q =
     (case TLSConfig q of
        Some c \<Rightarrow> Inr (if length (NextProtos c) = 0 then c\<lparr>NextProtos := ALPN q\<rparr> else c)
      | None \<Rightarrow> (case selfSignedCert cr of
          Inl e \<Rightarrow> Inl e
        | Inr x \<Rightarrow> Inr \<lparr>Certificates = [x], NextProtos = ALPN q, MinVersion = VersionTLS13,
            InsecureSkipVerify = False\<rparr>))"

section \<open>Listening\<close>

record quic_env =
  envCrypto :: crypto
  resolveAddr :: "string \<Rightarrow> err + string"
  listenUDP :: "string \<Rightarrow> err option"
  trListen :: "tls_config \<Rightarrow> quic_go_config option \<Rightarrow> err + net_listener"

text \<open>The socket of \<^verbatim>\<open>net.ListenUDP\<close>, and its Close.\<close>

definition open_socket :: "quic_server \<Rightarrow> quic_server" where
  "open_socket q = q\<lparr>openSockets := openSockets q + 1\<rparr>"

definition close_socket :: "quic_server \<Rightarrow> quic_server" where
  "close_socket q = q\<lparr>openSockets := openSockets q - 1\<rparr>"

definition quic_Listen :: "quic_env \<Rightarrow> quic_server \<Rightarrow> err option \<times> quic_server" where
  "quic_Listen env q =
     (case quicLn q of
        Some l \<Rightarrow> (None, q)
      | None \<Rightarrow>
     (case resolveCodecs (qcfg q) of
        Inl e \<Rightarrow> (Some (NewConfigError ''invalid QUIC framing'' (Some e)), q)
      | Inr cs \<Rightarrow>
     (case tlsConfig (envCrypto env) (qcfg q) of
        Inl e \<Rightarrow> (Some (NewConfigError ''TLS setup failed'' (Some e)), q)
      | Inr conf \<Rightarrow>
     (case resolveAddr env (quicAddr q) of
        Inl e \<Rightarrow> (Some (NewConnectionError ''failed to resolve address'' (Some e)), q)
      | Inr a \<Rightarrow>
     (case listenUDP env a of
        Some e \<Rightarrow> (Some (NewConnectionError ''failed to start listener'' (Some e)), q)
      | None \<Rightarrow>
     (let q1 = open_socket q in
      case trListen env conf (QuicConfig (qcfg q)) of
        Inl e \<Rightarrow> (Some (NewConnectionError ''failed to start QUIC listener'' (Some e)), close_socket q1)
      | Inr l \<Rightarrow> (None, q1\<lparr>quicLn := Some l, codecs := cs, trClosed := False, udpOpen := True,
          quicBase := log_at Info ''gophersocks: QUIC server listening'' (quicBase q1)\<rparr>)))))))"

definition quic_StartListener :: "quic_env \<Rightarrow> quic_server \<Rightarrow> err option \<times> bool \<times> quic_server" where
  "quic_StartListener env q = (case quic_Listen env q of
     (Some e, q') \<Rightarrow> (Some e, False, q') | (None, q') \<Rightarrow> (None, True, q'))"

section \<open>One connection\<close>

definition conn_close :: "quic_conn \<Rightarrow> nat \<Rightarrow> string \<Rightarrow> quic_server \<Rightarrow> quic_server" where
  "conn_close conn code msg q = q\<lparr>connCloses := connCloses q @ [(qRemote conn, code, msg)]\<rparr>"

definition stream_timeout :: "server_config \<Rightarrow> int" where
  "stream_timeout config = (if ReadTimeout config \<le> 0 then defaultStreamTimeout else ReadTimeout config)"

definition choose_codec :: "(string \<times> codec) list \<Rightarrow> string \<Rightarrow> codec option" where
  "choose_codec cs proto =
     (case map_of cs proto of Some c \<Rightarrow> Some c | None \<Rightarrow> map_of cs DefaultALPN)"

definition quic_transport :: "server_config \<Rightarrow> codec \<Rightarrow> net_conn \<Rightarrow> stream_transport" where
  "quic_transport config c strm =
     stream_on strm c (min (uint (MaxLength config)) (MaxPayload c)) 0 (WriteTimeout config) None"

text \<open>
  \<^verbatim>\<open>handleConn\<close> up to the start of the handler; the result is the new session. Without one the
  connection's goroutine ends and leaves the wait group.
\<close>

definition quic_handleConn ::
    "err option \<Rightarrow> quic_conn \<Rightarrow> string \<Rightarrow> int \<Rightarrow> quic_server \<Rightarrow> session_ptr option \<times> quic_server" where
  "quic_handleConn c conn uid now q =
     (case qStream conn of
        Inl e \<Rightarrow> (None, conn_close conn quicCodeProtocol ''no stream opened'' (q\<lparr>quicBase := wg_Done
            (log_at Debug ''gophersocks: QUIC connection opened no stream'' (release (quicBase q)))\<rparr>))
      | Inr strm \<Rightarrow>
          (case choose_codec (codecs q) (qProtocol conn) of
             None \<Rightarrow> (None, conn_close conn quicCodeProtocol ''unsupported protocol''
               (q\<lparr>quicBase := wg_Done (release (quicBase q))\<rparr>))
           | Some cd \<Rightarrow>
               let t = quic_transport (cfg (quicBase q)) cd strm;
                   s = newSession c (qRemote conn) (cfg (quicBase q)) True uid now;
                   p = length (quicSessions q)
               in (Some p, q\<lparr>quicBase := add (qRemote conn) p (quicBase q),
                    quicSessions := quicSessions q @ [(t, s)]\<rparr>)))"

section \<open>Closing a session\<close>

text \<open>Also what the watch on the connection's context does, with \<open>ErrSessionClosed\<close>.\<close>

definition quic_close_session :: "err \<Rightarrow> session_ptr \<Rightarrow> quic_server \<Rightarrow> quic_server" where
  "quic_close_session e p q =
     (case quicSessions q ! p of (t, s) \<Rightarrow>
        if closeOnce s then q
        else q\<lparr>quicBase := remove (addr s) p (quicBase q),
               quicSessions := (quicSessions q)[p := closeWith streamTransport (Some e) (t, s)]\<rparr>)"

text \<open>
  The \<^verbatim>\<open>AfterFunc\<close> that \<^verbatim>\<open>newSession\<close> registers, as in \<open>Tcp\<close>: once Serve's context has ended, the
  sessions \<open>mine\<close> of this Serve call close with its cause.
\<close>

definition quic_ctx_ends :: "err option \<Rightarrow> session_ptr list \<Rightarrow> quic_server \<Rightarrow> quic_server" where
  "quic_ctx_ends c mine q = (case c of None \<Rightarrow> q | Some e \<Rightarrow> fold (quic_close_session e) mine q)"

section \<open>The accept loop\<close>

datatype quic_event =
    QAccepted quic_conn string int "err option"
  | QAcceptFailed err "err option"

fun quic_accept_loop ::
    "session_ptr list \<Rightarrow> quic_event list \<Rightarrow> quic_server \<Rightarrow> serve_result \<times> quic_server" where
  "quic_accept_loop mine [] q = (Blocked, q)"
| "quic_accept_loop mine (QAcceptFailed e c # evs) q =
     (if c \<noteq> None \<or> errors_is e QuicErrServerClosed
      then (ServeReturned None, quic_ctx_ends (cancel Canceled c) mine q)
      else (ServeReturned (Some (NewConnectionError ''accept failed'' (Some e))),
        quic_ctx_ends (cancel Canceled c) mine q))"
| "quic_accept_loop mine (QAccepted conn uid now c # evs) q =
     (case tryAdmit (quicBase q) of
        (False, v) \<Rightarrow>
          quic_accept_loop mine evs (conn_close conn quicCodeServerFull ''server full'' (q\<lparr>quicBase := v\<rparr>))
      | (True, v) \<Rightarrow>
          (case enter v of
             (False, v') \<Rightarrow> (ServeReturned None, quic_ctx_ends (cancel Canceled c) mine
               (conn_close conn quicCodeClosed ''server stopping'' (q\<lparr>quicBase := release v'\<rparr>)))
           | (True, v') \<Rightarrow>
               (let q1 = snd (quic_handleConn c conn uid now (q\<lparr>quicBase := v'\<rparr>));
                    mine1 = mine @ [length (quicSessions q)..<length (quicSessions q1)]
                in quic_accept_loop mine1 evs (quic_ctx_ends c mine1 q1))))"

definition quic_Serve :: "quic_env \<Rightarrow> quic_event list \<Rightarrow> quic_server \<Rightarrow> serve_result \<times> quic_server" where
  "quic_Serve env evs q =
     (case quic_Listen env q of
        (Some e, q1) \<Rightarrow> (ServeReturned (Some e), q1)
      | (None, q1) \<Rightarrow>
          (case enter (quicBase q1) of
             (False, v) \<Rightarrow> (ServeReturned (Some ErrServerStopped), q1\<lparr>quicBase := v\<rparr>)
           | (True, v) \<Rightarrow>
               (case quic_accept_loop [] evs (q1\<lparr>quicBase := v\<rparr>) of
                  (Blocked, q2) \<Rightarrow> (Blocked, q2)
                | (ServeReturned r, q2) \<Rightarrow> (ServeReturned r, q2\<lparr>quicBase := wg_Done (quicBase q2)\<rparr>))))"

section \<open>Stopping\<close>

definition quic_closeListener :: "quic_server \<Rightarrow> err option \<times> quic_server" where
  "quic_closeListener q =
     (case quicLn q of
        None \<Rightarrow> (None, q)
      | Some l \<Rightarrow> (case ln_Close l of
          (e, l') \<Rightarrow>
            (let q1 = q\<lparr>quicLn := Some l', trClosed := True\<rparr>
             in (e, if udpOpen q1 then close_socket (q1\<lparr>udpOpen := False\<rparr>) else q1))))"

definition quic_StopListener :: "session_ptr list \<Rightarrow> quic_server \<Rightarrow> err option \<times> quic_server" where
  "quic_StopListener order q =
     (let q0 = q\<lparr>quicBase := log_at Info ''gophersocks: shutting down QUIC server'' (quicBase q)\<rparr> in
      case stop_begin (quicBase q0) of (m, v) \<Rightarrow>
        (case quic_closeListener (q0\<lparr>quicBase := stop_cancel v\<rparr>) of (e, q1) \<Rightarrow>
           (e, fold (quic_close_session ErrServerStopped) order q1)))"

section \<open>Facts\<close>

lemma quic_ctx_lives [simp]: "quic_ctx_ends None mine q = q" "quic_ctx_ends c [] q = q"
  by (simp_all add: quic_ctx_ends_def split: option.split)

text \<open>The codec a protocol should get: the registered one, else Legacy for the default protocol.\<close>

definition codec_for :: "quic_config \<Rightarrow> string \<Rightarrow> codec option" where
  "codec_for q alpn = (case registered_codec q alpn of
     Some c \<Rightarrow> Some c
   | None \<Rightarrow> if alpn = DefaultALPN \<and> Delimiter q \<noteq> [] then Some (legacy_codec (Delimiter q)) else None)"

lemma NewLegacy_cases:
  "NewLegacy d = (if d = [] then Inl ErrEmptyDelimiter else Inr (legacy_codec d))"
  by (simp add: NewLegacy_def)

lemma resolve_loop_ok:
  "resolve_loop q as acc = Inr r \<Longrightarrow>
    (\<forall>a \<in> set as. codec_for q a \<noteq> None) \<and> fst ` set r = fst ` set acc \<union> set as
    \<and> map_of r = (\<lambda>a. if a \<in> set as then codec_for q a else map_of acc a)"
proof (induction q as acc rule: resolve_loop.induct)
  case (2 q alpn rest acc)
  obtain c where c: "codec_for q alpn = Some c" and
    r: "resolve_loop q rest (AList.update alpn c acc) = Inr r"
    using 2(3) by (auto simp: codec_for_def NewLegacy_cases split: option.splits if_splits)
  have "(\<forall>a \<in> set rest. codec_for q a \<noteq> None)
    \<and> fst ` set r = fst ` set (AList.update alpn c acc) \<union> set rest
    \<and> map_of r = (\<lambda>a. if a \<in> set rest then codec_for q a else map_of (AList.update alpn c acc) a)"
    using 2(1,2) 2(3) c r
    by (auto simp: codec_for_def NewLegacy_cases split: option.splits if_splits)
  then show ?case using c by (auto simp: dom_update update_conv')
qed auto

lemma resolve_loop_total:
  "\<forall>a \<in> set as. codec_for q a \<noteq> None \<Longrightarrow> \<exists>r. resolve_loop q as acc = Inr r"
  by (induction as arbitrary: acc)
    (auto simp: codec_for_def NewLegacy_cases split: option.splits if_splits)

end
