(* ===== verification/ServerRuns.thy ===== *)
theory ServerRuns
  imports ServerHistory Tcp Udp WebSocket Quic
begin

text \<open>
  The four protocol servers interpret \<open>hosted_sessions\<close> and \<open>hosted_server\<close>: what one event does in
  the loop of Serve (an accepted connection, a datagram, an upgrade, an error), the close of a
  session and \<^verbatim>\<open>StopListener\<close> are runs of \<open>ServerMachine\<close>.
\<close>

section \<open>Closing one of a list of sessions\<close>

lemma closeWith_addr [simp]: "addr (snd (closeWith tr c ts)) = addr (snd ts)"
  by (auto simp: closeWith_def runOnClose_def Let_def split: prod.splits)

lemma close_nth:
  assumes "p < length xs" and "\<not> closeOnce (map snd xs ! p)"
  shows "\<exists>x. map snd (xs[p := closeWith tr (Some e) (xs ! p)]) = (map snd xs)[p := x] \<and> closeOnce x
    \<and> addr x = addr (map snd xs ! p) \<and> ctx x = cancel e (ctx (map snd xs ! p))"
proof -
  obtain t s where "xs ! p = (t, s)" by (metis surj_pair)
  then show ?thesis
    using assms closeWith_ctx [of s tr "Some e" t]
    by (intro exI [of _ "snd (closeWith tr (Some e) (xs ! p))"])
      (simp add: map_update close_cause_def)
qed

section \<open>TCP\<close>

text \<open>An event of Serve is one return of Accept.\<close>

definition tcp_sessions :: "tcp_server \<Rightarrow> session list" where
  "tcp_sessions t = map snd (tcpSessions t)"

definition tcp_take :: "session_ptr list \<Rightarrow> accept_event \<Rightarrow> tcp_server \<Rightarrow> bool \<times> tcp_server" where
  "tcp_take mine ev t = (case tcp_accept_loop mine [ev] t of (r, t') \<Rightarrow> (r \<noteq> Blocked, t'))"

definition tcp_methods :: "(tcp_server, accept_event) methods" where
  "tcp_methods = \<lparr>mBase = tcpBase, mWith = (\<lambda>g t. t\<lparr>tcpBase := g (tcpBase t)\<rparr>), mSessions = tcp_sessions,
     mTake = tcp_take, mClose = tcp_close_session, mStop = (\<lambda>order t. snd (tcp_StopListener order t))\<rparr>"

lemma tcp_methods_fields [simp]:
  "mBase tcp_methods = tcpBase" "mSessions tcp_methods = tcp_sessions" "mTake tcp_methods = tcp_take"
  "mClose tcp_methods = tcp_close_session" "mStop tcp_methods order t = snd (tcp_StopListener order t)"
  "mWith tcp_methods g t = t\<lparr>tcpBase := g (tcpBase t)\<rparr>"
  by (simp_all add: tcp_methods_def)

definition new_tcp :: "tcp_server \<Rightarrow> bool" where
  "new_tcp t \<longleftrightarrow> (\<exists>host port parent opts. NewTCP host port parent opts = Inr t)"

lemma tcp_close_eq:
  assumes "p < length (tcpSessions t)"
  shows "tcp_close_session e p t = (if closeOnce (tcp_sessions t ! p) then t
    else t\<lparr>tcpBase := remove (addr (tcp_sessions t ! p)) p (tcpBase t),
      tcpSessions := (tcpSessions t)[p := closeWith streamTransport (Some e) (tcpSessions t ! p)]\<rparr>)"
  using assms by (simp add: tcp_close_session_def tcp_sessions_def split: prod.splits)

lemma tcp_accept_refines:
  assumes "srv_rel f d (tcpBase t) (tcp_sessions t) s"
  shows "\<exists>g s'. quiet_run s s' \<and>
    srv_rel g d (tcpBase (tcp_accept c conn uid now t)) (tcp_sessions (tcp_accept c conn uid now t)) s'"
proof -
  obtain b v where a: "tryAdmit (tcpBase t) = (b, v)" by (metis surj_pair)
  obtain b' v' where e: "enter v = (b', v')" by (metis surj_pair)
  show ?thesis
  proof (cases "b \<and> b'")
    case True
    then show ?thesis
      using refine_opened [OF assms, of v v' "newSession c (remoteAddr conn) (cfg v') True uid now" "remoteAddr conn"] a e
      by (simp add: tcp_accept_def tcp_sessions_def Let_def)
  next
    case False
    then show ?thesis
      using refine_rejected [OF assms, of v] refine_refused [OF assms, of v v'] a e
      by (cases b) (simp_all add: tcp_accept_def tcp_refuse_def tcp_sessions_def, blast+)
  qed
qed

interpretation tcp_close: hosted_sessions "mBase tcp_methods" "mSessions tcp_methods" "mClose tcp_methods"
  "mStop tcp_methods"
proof (unfold_locales, unfold tcp_methods_fields)
  fix p t e
  assume "p < length (tcp_sessions t)"
  then have p: "p < length (tcpSessions t)" by (simp add: tcp_sessions_def)
  show "tcp_close_session e p t = t" if "closeOnce (tcp_sessions t ! p)"
    using that tcp_close_eq [OF p] by simp
  show "tcpBase (tcp_close_session e p t) = remove (addr (tcp_sessions t ! p)) p (tcpBase t) \<and>
    (\<exists>x. tcp_sessions (tcp_close_session e p t) = (tcp_sessions t)[p := x] \<and> closeOnce x
      \<and> addr x = addr (tcp_sessions t ! p) \<and> ctx x = cancel e (ctx (tcp_sessions t ! p)))"
    if "\<not> closeOnce (tcp_sessions t ! p)"
    using close_nth [OF p that [unfolded tcp_sessions_def]] that tcp_close_eq [OF p, of e]
    by (simp add: tcp_sessions_def)
next
  fix t order
  show "\<exists>m t'. tcpBase t' = stop_cancel (snd (stop_begin (log_at Info m (tcpBase t))))
      \<and> tcp_sessions t' = tcp_sessions t
      \<and> snd (tcp_StopListener order t) = fold (tcp_close_session ErrServerStopped) order t'"
    by (intro exI [of _ "''gophersocks: shutting down TCP server''"]
          exI [of _ "t\<lparr>tcpBase := stop_cancel ((log_at Info ''gophersocks: shutting down TCP server''
            (tcpBase t))\<lparr>stopped := True\<rparr>), tcpLn := snd (close_once (tcpLn t))\<rparr>"])
      (simp add: tcp_StopListener_def tcp_closeListener_def stop_begin_def tcp_sessions_def Let_def
        split: prod.splits)
qed

lemma tcp_accept_grows: "length (tcpSessions t) \<le> length (tcpSessions (tcp_accept c conn uid now t))"
  by (simp add: tcp_accept_def tcp_refuse_def Let_def split: prod.split bool.split)

lemma tcp_ends_refines:
  assumes "srv_rel f d (tcpBase t) (tcp_sessions t) s" and "\<forall>p \<in> set mine. p < length (tcpSessions t)"
  shows "\<exists>s'. quiet_run s s' \<and> srv_rel f d (tcpBase (tcp_ctx_ends c mine t)) (tcp_sessions (tcp_ctx_ends c mine t)) s'"
  by (rule tcp_close.ends_refines(1) [unfolded tcp_methods_fields, OF assms(1) _ tcp_ctx_ends_def])
    (use assms(2) in \<open>simp add: tcp_sessions_def\<close>)

lemma tcp_take_refines:
  assumes "srv_rel f d (tcpBase t) (tcp_sessions t) s" and "\<forall>p \<in> set mine. p < length (tcpSessions t)"
    and "tcp_take mine ev t = (b, t')"
  shows "(\<exists>g s'. quiet_run s s' \<and> srv_rel g d (tcpBase t') (tcp_sessions t') s')
    \<and> length (tcpSessions t) \<le> length (tcpSessions t')"
proof (cases ev)
  case (Accepted conn uid now c)
  let ?t = "tcp_accept c conn uid now t"
  let ?mine = "mine @ [length (tcpSessions t)..<length (tcpSessions ?t)]"
  have t': "t' = tcp_ctx_ends c ?mine ?t" using assms(3) Accepted by (simp add: tcp_take_def Let_def)
  obtain g s1 where s1: "quiet_run s s1" "srv_rel g d (tcpBase ?t) (tcp_sessions ?t) s1"
    using tcp_accept_refines [OF assms(1)] by blast
  have "\<forall>p \<in> set ?mine. p < length (tcpSessions ?t)"
    using assms(2) tcp_accept_grows [of t c conn uid now] by auto
  then show ?thesis
    using tcp_ends_refines [OF s1(2), of ?mine c] quiet_trans [OF s1(1)] t' tcp_accept_grows [of t c conn uid now]
    by (metis tcp_ctx_ends_fields(5))
next
  case (AcceptFailed e c)
  have un: "srv_rel f d (tcpBase (tcp_unblock c t)) (tcp_sessions (tcp_unblock c t)) s"
    using assms(1) by (simp add: tcp_sessions_def)
  consider "t' = tcp_ctx_ends (cancel Canceled c) mine (tcp_unblock c t)"
    | "t' = t\<lparr>tcpSlept := tcpSlept t + acceptRetryDelay\<rparr>" | "t' = tcp_ctx_ends (cancel Canceled c) mine t"
    using assms(3) AcceptFailed by (auto simp: tcp_take_def split: if_splits)
  then show ?thesis
  proof cases
    case 1
    then show ?thesis using tcp_ends_refines [OF un, of mine "cancel Canceled c"] assms(2) by auto
  next
    case 2
    then show ?thesis using refine_same [OF assms(1)] by (simp add: tcp_sessions_def)
  next
    case 3
    then show ?thesis using tcp_ends_refines [OF assms(1), of mine "cancel Canceled c"] assms(2) by auto
  qed
qed

interpretation tcp_host: hosted_server tcp_methods new_tcp
proof (unfold_locales, unfold tcp_methods_fields)
  fix t
  assume "new_tcp t"
  then show "\<exists>p c. 1 \<le> MaxConnections c \<and> tcpBase t = newServer p c \<and> tcp_sessions t = []"
    by (auto simp: new_tcp_def NewTCP_def Let_def ValidateConfig_None valid_config_def tcp_sessions_def
        split: option.splits) blast
next
  fix f d t s mine ev b t'
  assume "srv_rel f d (tcpBase t) (tcp_sessions t) s" and "\<forall>p \<in> set mine. p < length (tcp_sessions t)"
    and "tcp_take mine ev t = (b, t')"
  then show "(\<exists>g s'. quiet_run s s' \<and> srv_rel g d (tcpBase t') (tcp_sessions t') s')
      \<and> length (tcp_sessions t) \<le> length (tcp_sessions t')"
    using tcp_take_refines [of f d t s mine ev b t'] by (simp add: tcp_sessions_def)
qed (simp_all add: tcp_sessions_def)

section \<open>UDP\<close>

text \<open>An event of Serve is one return of the socket's read, or a tick of its reaper.\<close>

datatype udp_input = UdpEvent udp_event | UdpTick int "session_ptr list"

definition valid_ptrs :: "'a list \<Rightarrow> session_ptr list \<Rightarrow> session_ptr list" where
  "valid_ptrs xs ps = filter (\<lambda>p. p < length xs) ps"

fun udp_take :: "session_ptr list \<Rightarrow> udp_input \<Rightarrow> udp_server \<Rightarrow> bool \<times> udp_server" where
  "udp_take mine (UdpEvent ev) u = (case udp_read_loop mine [ev] u of (r, u') \<Rightarrow> (r \<noteq> Blocked, u'))"
| "udp_take mine (UdpTick now order) u = (False, reapIdle now (valid_ptrs (udpSessions u) order) u)"

definition udp_sessions :: "udp_server \<Rightarrow> session list" where
  "udp_sessions u = map snd (udpSessions u)"

definition udp_methods :: "(udp_server, udp_input) methods" where
  "udp_methods = \<lparr>mBase = udpBase, mWith = (\<lambda>g u. u\<lparr>udpBase := g (udpBase u)\<rparr>), mSessions = udp_sessions,
     mTake = udp_take, mClose = udp_close_session, mStop = (\<lambda>order u. snd (udp_StopListener order u))\<rparr>"

lemma udp_methods_fields [simp]:
  "mBase udp_methods = udpBase" "mSessions udp_methods = udp_sessions" "mTake udp_methods = udp_take"
  "mClose udp_methods = udp_close_session" "mStop udp_methods order u = snd (udp_StopListener order u)"
  "mWith udp_methods g u = u\<lparr>udpBase := g (udpBase u)\<rparr>"
  by (simp_all add: udp_methods_def)

definition new_udp :: "udp_server \<Rightarrow> bool" where
  "new_udp u \<longleftrightarrow> (\<exists>host port parent opts. NewUDP host port parent opts = Inr u)"

lemma udp_close_eq:
  assumes "p < length (udpSessions u)"
  shows "udp_close_session e p u = (if closeOnce (udp_sessions u ! p) then u
    else u\<lparr>udpBase := remove (addr (udp_sessions u ! p)) p (udpBase u),
      udpSessions := (udpSessions u)[p := closeWith udpTransport (Some e) (udpSessions u ! p)]\<rparr>)"
  using assms by (simp add: udp_close_session_def udp_sessions_def split: prod.splits)

interpretation udp_close: hosted_sessions "mBase udp_methods" "mSessions udp_methods" "mClose udp_methods"
  "mStop udp_methods"
proof (unfold_locales, unfold udp_methods_fields)
  fix p u e
  assume "p < length (udp_sessions u)"
  then have p: "p < length (udpSessions u)" by (simp add: udp_sessions_def)
  show "udp_close_session e p u = u" if "closeOnce (udp_sessions u ! p)"
    using that udp_close_eq [OF p] by simp
  show "udpBase (udp_close_session e p u) = remove (addr (udp_sessions u ! p)) p (udpBase u) \<and>
    (\<exists>x. udp_sessions (udp_close_session e p u) = (udp_sessions u)[p := x] \<and> closeOnce x
      \<and> addr x = addr (udp_sessions u ! p) \<and> ctx x = cancel e (ctx (udp_sessions u ! p)))"
    if "\<not> closeOnce (udp_sessions u ! p)"
    using close_nth [OF p that [unfolded udp_sessions_def]] that udp_close_eq [OF p, of e]
    by (simp add: udp_sessions_def)
next
  fix u order
  show "\<exists>m u'. udpBase u' = stop_cancel (snd (stop_begin (log_at Info m (udpBase u))))
      \<and> udp_sessions u' = udp_sessions u
      \<and> snd (udp_StopListener order u) = fold (udp_close_session ErrServerStopped) order u'"
    by (intro exI [of _ "''gophersocks: shutting down UDP server''"]
          exI [of _ "u\<lparr>udpBase := stop_cancel ((log_at Info ''gophersocks: shutting down UDP server''
            (udpBase u))\<lparr>stopped := True\<rparr>), udpConn := snd (close_once (udpConn u))\<rparr>"])
      (simp add: udp_StopListener_def udp_closeConn_def stop_begin_def udp_sessions_def Let_def
        split: prod.splits)
qed

lemma udp_enqueue_refines:
  assumes "srv_rel f d (udpBase u) (udp_sessions u) s" and "p < length (udpSessions u)"
  shows "srv_rel f d (udpBase (udp_enqueue p msg now u)) (udp_sessions (udp_enqueue p msg now u)) s"
proof -
  obtain t x where x: "udpSessions u ! p = (t, x)" by (metis surj_pair)
  then have "udp_sessions u ! p = x" using assms(2) by (simp add: udp_sessions_def)
  then have "srv_rel f d (udpBase u) ((udp_sessions u)[p := touch now x]) s"
    using assms by (intro srv_rel_sessions [OF assms(1)]) (auto simp: touch_def nth_list_update udp_sessions_def)
  then show ?thesis using x by (simp add: udp_enqueue_def udp_sessions_def map_update)
qed

lemma udp_open_refines:
  assumes "srv_rel f d (udpBase u) (udp_sessions u) s" and "udp_open env c a uid now u = (res, u')"
  shows "\<exists>g s'. quiet_run s s' \<and> srv_rel g d (udpBase u') (udp_sessions u') s'
    \<and> (\<forall>p. res = Some p \<longrightarrow> p < length (udpSessions u'))"
proof -
  obtain b v where t: "tryAdmit (udpBase u) = (b, v)" by (metis surj_pair)
  obtain b' v' where e: "enter v = (b', v')" by (metis surj_pair)
  consider (full) "\<not> b" | (stopping) "b" "\<not> b'" | (opened) "b" "b'" by blast
  then show ?thesis
  proof cases
    case full
    then have "res = None" "u' = u\<lparr>udpBase := v\<rparr>" using t assms(2) by (simp_all add: udp_open_def)
    then show ?thesis using refine_rejected [OF assms(1), of v] t full by (simp add: udp_sessions_def, blast)
  next
    case stopping
    then have "res = None" "u' = u\<lparr>udpBase := release v'\<rparr>"
      using t e assms(2) by (simp_all add: udp_open_def)
    then show ?thesis using refine_refused [OF assms(1), of v v'] t e stopping
      by (simp add: udp_sessions_def, blast)
  next
    case opened
    then show ?thesis
      using refine_opened [OF assms(1), of v v' "newSession c a (cfg v') True uid now" a] t e assms(2)
      by (auto simp: udp_open_def udp_sessions_def Let_def) blast
  qed
qed

lemma udp_deliver_refines:
  assumes "srv_rel f d (udpBase u) (udp_sessions u) s"
  shows "\<exists>g s'. quiet_run s s' \<and>
    srv_rel g d (udpBase (udp_deliver env c a msg uid now u)) (udp_sessions (udp_deliver env c a msg uid now u)) s'"
proof (cases "byAddr (udpBase u) a")
  case None
  obtain res u' where o: "udp_open env c a uid now u = (res, u')" by (metis surj_pair)
  obtain g s' where "quiet_run s s'" "srv_rel g d (udpBase u') (udp_sessions u') s'"
    "\<forall>p. res = Some p \<longrightarrow> p < length (udpSessions u')"
    using udp_open_refines [OF assms o] by blast
  then show ?thesis using None o udp_enqueue_refines [of g d u' s']
    by (cases res) (simp_all add: udp_deliver_def, blast+)
next
  case (Some p)
  then have "p < length (udpSessions u)"
    using assms by (auto simp: srv_rel_def registered_in_def udp_sessions_def)
  then show ?thesis using refine_same [OF udp_enqueue_refines [OF assms]] Some
    by (simp add: udp_deliver_def)
qed

lemma udp_reap_refines:
  "srv_rel f d (udpBase u) (udp_sessions u) s \<Longrightarrow> \<forall>p \<in> set order. p < length (udpSessions u) \<Longrightarrow>
    (\<exists>s'. quiet_run s s' \<and> srv_rel f d (udpBase (reapIdle now order u)) (udp_sessions (reapIdle now order u)) s')
    \<and> length (udpSessions (reapIdle now order u)) = length (udpSessions u)"
proof (induction order arbitrary: u s)
  case Nil
  then show ?case using quiet_refl [of s] by (simp add: reapIdle_def, blast)
next
  case (Cons p order)
  have p: "p < length (udp_sessions u)" using Cons.prems(2) by (simp add: udp_sessions_def)
  obtain s1 where s1: "quiet_run s s1" "srv_rel f d (udpBase (reap_one now p u)) (udp_sessions (reap_one now p u)) s1"
  proof (cases "is_idle now u p")
    case True
    then show ?thesis
      using that udp_close.close_refines_srv [unfolded udp_methods_fields, OF Cons.prems(1) p]
      by (auto simp: reap_one_def)
  next
    case False
    then show ?thesis using that [OF quiet_refl] Cons.prems(1) by (simp add: reap_one_def)
  qed
  have "length (udpSessions (reap_one now p u)) = length (udpSessions u)"
    using udp_close.close_length [unfolded udp_methods_fields, OF p] by (simp add: reap_one_def udp_sessions_def)
  then show ?case
    using Cons.IH [OF s1(2)] Cons.prems(2) s1(1) quiet_trans by (simp add: reapIdle_def) blast
qed

lemma udp_ends_refines:
  assumes "srv_rel f d (udpBase u) (udp_sessions u) s" and "\<forall>p \<in> set mine. p < length (udpSessions u)"
  shows "\<exists>s'. quiet_run s s' \<and> srv_rel f d (udpBase (udp_ctx_ends c mine u)) (udp_sessions (udp_ctx_ends c mine u)) s'"
    and "length (udpSessions (udp_ctx_ends c mine u)) = length (udpSessions u)"
proof -
  note ends = udp_close.ends_refines [unfolded udp_methods_fields, OF assms(1) _ udp_ctx_ends_def, of mine c]
  have valid: "\<forall>p \<in> set mine. p < length (udp_sessions u)" using assms(2) by (simp add: udp_sessions_def)
  show "\<exists>s'. quiet_run s s' \<and> srv_rel f d (udpBase (udp_ctx_ends c mine u)) (udp_sessions (udp_ctx_ends c mine u)) s'"
    by (rule ends(1) [OF valid])
  show "length (udpSessions (udp_ctx_ends c mine u)) = length (udpSessions u)"
    using ends(2) [OF valid] by (simp add: udp_sessions_def)
qed

lemma udp_take_refines:
  assumes "srv_rel f d (udpBase u) (udp_sessions u) s" and "\<forall>p \<in> set mine. p < length (udpSessions u)"
    and "udp_take mine ev u = (b, u')"
  shows "(\<exists>g s'. quiet_run s s' \<and> srv_rel g d (udpBase u') (udp_sessions u') s')
    \<and> length (udpSessions u) \<le> length (udpSessions u')"
proof (cases ev)
  case (UdpTick now order)
  have "\<forall>p \<in> set (valid_ptrs (udpSessions u) order). p < length (udpSessions u)" by (simp add: valid_ptrs_def)
  from udp_reap_refines [OF assms(1) this, of now] show ?thesis using assms(3) UdpTick by auto
next
  case (UdpEvent e)
  show ?thesis
  proof (cases e)
    case (ReadFails x c)
    have un: "srv_rel f d (udpBase (udp_unblock c u)) (udp_sessions (udp_unblock c u)) s"
      using assms(1) by (simp add: udp_sessions_def)
    consider "u' = udp_ctx_ends (cancel Canceled c) mine (udp_unblock c u)" | "u' = udp_ctx_ends (cancel Canceled c) mine u"
      using assms(3) UdpEvent ReadFails by (auto split: if_splits)
    then show ?thesis
    proof cases
      case 1
      then show ?thesis using udp_ends_refines [OF un, of mine "cancel Canceled c"] assms(2) by auto
    next
      case 2
      then show ?thesis using udp_ends_refines [OF assms(1,2), of "cancel Canceled c"] by auto
    qed
  next
    case (Arrives env a payload uid now c)
    let ?buf = "take (udp_buffer (cfg (udpBase u))) payload"
    let ?u = "udp_deliver env c a ?buf uid now u"
    let ?mine = "mine @ [length (udpSessions u)..<length (udpSessions ?u)]"
    consider "u' = u" | "u' = u\<lparr>udpBase := log_at Warn ''gophersocks: dropping oversized datagram'' (udpBase u)\<rparr>"
      | "u' = udp_ctx_ends c ?mine ?u"
      using assms(3) UdpEvent Arrives by (auto simp: Let_def split: if_splits)
    then show ?thesis
    proof cases
      case 3
      have grow: "length (udpSessions u) \<le> length (udpSessions ?u)" by (rule udp_deliver_grows)
      obtain g s1 where s1: "quiet_run s s1" "srv_rel g d (udpBase ?u) (udp_sessions ?u) s1"
        using udp_deliver_refines [OF assms(1)] by blast
      have "\<forall>p \<in> set ?mine. p < length (udpSessions ?u)" using assms(2) grow by auto
      note ends = udp_ends_refines [OF s1(2) this, of c]
      show ?thesis using ends(1) quiet_trans [OF s1(1)] grow unfolding 3 ends(2) by blast
    qed (use refine_same [OF assms(1)] in \<open>simp_all add: udp_sessions_def\<close>)
  qed
qed

interpretation udp_host: hosted_server udp_methods new_udp
proof (unfold_locales, unfold udp_methods_fields)
  fix u
  assume "new_udp u"
  then show "\<exists>p c. 1 \<le> MaxConnections c \<and> udpBase u = newServer p c \<and> udp_sessions u = []"
    by (auto simp: new_udp_def NewUDP_def Let_def ValidateConfig_None valid_config_def udp_sessions_def
        split: option.splits) blast
next
  fix f d u s mine ev b u'
  assume "srv_rel f d (udpBase u) (udp_sessions u) s" and "\<forall>p \<in> set mine. p < length (udp_sessions u)"
    and "udp_take mine ev u = (b, u')"
  then show "(\<exists>g s'. quiet_run s s' \<and> srv_rel g d (udpBase u') (udp_sessions u') s')
      \<and> length (udp_sessions u) \<le> length (udp_sessions u')"
    using udp_take_refines [of f d u s mine ev b u'] by (simp add: udp_sessions_def)
qed (simp_all add: udp_sessions_def)

section \<open>WebSocket\<close>

text \<open>
  An event of Serve is a request, or the return of \<^verbatim>\<open>http.Server.Serve\<close> with the state of Serve's
  context then. \<open>matches\<close> are the paths the mux routes to \<^verbatim>\<open>upgrade\<close>, \<open>e\<close> is the answer of the
  HTTP server's Close.
\<close>

datatype ws_input = WsEvent ws_event | WsServed "err option"

fun ws_take :: "(string \<Rightarrow> bool) \<Rightarrow> session_ptr list \<Rightarrow> ws_input \<Rightarrow> ws_server \<Rightarrow> bool \<times> ws_server" where
  "ws_take matches mine (WsEvent ev) w = (False, snd (ws_handle matches mine [ev] w))"
| "ws_take matches mine (WsServed c) w = (True, ws_ctx_ends (cancel Canceled c) mine
     (w\<lparr>wsLn := map_option (\<lambda>l. l\<lparr>lnClosed := True\<rparr>) (wsLn w)\<rparr>))"

definition ws_sessions :: "ws_server \<Rightarrow> session list" where
  "ws_sessions w = map snd (wsSessions w)"

definition ws_methods :: "err option \<Rightarrow> (string \<Rightarrow> bool) \<Rightarrow> (ws_server, ws_input) methods" where
  "ws_methods e matches = \<lparr>mBase = wsBase, mWith = (\<lambda>g w. w\<lparr>wsBase := g (wsBase w)\<rparr>), mSessions = ws_sessions,
     mTake = ws_take matches, mClose = ws_close_session, mStop = (\<lambda>order w. snd (ws_StopListener e order w))\<rparr>"

lemma ws_methods_fields [simp]:
  "mBase (ws_methods e matches) = wsBase" "mSessions (ws_methods e matches) = ws_sessions"
  "mTake (ws_methods e matches) = ws_take matches" "mClose (ws_methods e matches) = ws_close_session"
  "mStop (ws_methods e matches) order w = snd (ws_StopListener e order w)"
  "mWith (ws_methods e matches) g w = w\<lparr>wsBase := g (wsBase w)\<rparr>"
  by (simp_all add: ws_methods_def)

definition new_ws :: "ws_server \<Rightarrow> bool" where
  "new_ws w \<longleftrightarrow> (\<exists>host port parent opts. NewWebSocket host port parent opts = Inr w)"

lemma ws_close_eq:
  assumes "p < length (wsSessions w)"
  shows "ws_close_session e p w = (if closeOnce (ws_sessions w ! p) then w
    else w\<lparr>wsBase := remove (addr (ws_sessions w ! p)) p (wsBase w),
      wsSessions := (wsSessions w)[p := closeWith wsTransport (Some e) (wsSessions w ! p)]\<rparr>)"
  using assms by (simp add: ws_close_session_def ws_sessions_def split: prod.splits)

lemma ws_closeListener_base:
  "wsBase (snd (ws_closeListener e w)) = wsBase w" "wsSessions (snd (ws_closeListener e w)) = wsSessions w"
  by (simp_all add: ws_closeListener_def split: option.splits prod.splits)

interpretation ws_close: hosted_sessions "mBase (ws_methods e matches)" "mSessions (ws_methods e matches)"
  "mClose (ws_methods e matches)" "mStop (ws_methods e matches)" for e matches
proof (unfold_locales, unfold ws_methods_fields)
  fix p w c
  assume "p < length (ws_sessions w)"
  then have p: "p < length (wsSessions w)" by (simp add: ws_sessions_def)
  show "ws_close_session c p w = w" if "closeOnce (ws_sessions w ! p)"
    using that ws_close_eq [OF p] by simp
  show "wsBase (ws_close_session c p w) = remove (addr (ws_sessions w ! p)) p (wsBase w) \<and>
    (\<exists>x. ws_sessions (ws_close_session c p w) = (ws_sessions w)[p := x] \<and> closeOnce x
      \<and> addr x = addr (ws_sessions w ! p) \<and> ctx x = cancel c (ctx (ws_sessions w ! p)))"
    if "\<not> closeOnce (ws_sessions w ! p)"
    using close_nth [OF p that [unfolded ws_sessions_def]] that ws_close_eq [OF p, of c]
    by (simp add: ws_sessions_def)
next
  fix w :: ws_server and order
  let ?m = "''gophersocks: shutting down WebSocket server''"
  let ?w = "w\<lparr>wsBase := stop_cancel ((log_at Info ?m (wsBase w))\<lparr>stopped := True\<rparr>)\<rparr>"
  show "\<exists>m w'. wsBase w' = stop_cancel (snd (stop_begin (log_at Info m (wsBase w))))
      \<and> ws_sessions w' = ws_sessions w
      \<and> snd (ws_StopListener e order w) = fold (ws_close_session ErrServerStopped) order w'"
    by (intro exI [of _ ?m] exI [of _ "snd (ws_closeListener e ?w)"])
      (simp add: ws_StopListener_def ws_closeListener_base stop_begin_def ws_sessions_def Let_def
        split: prod.splits)
qed

lemma ws_upgrade_refines:
  assumes "srv_rel f d (wsBase w) (ws_sessions w) s" and "ws_upgrade up c r uid now w = (res, w')"
  shows "\<exists>g s'. quiet_run s s' \<and> srv_rel g d (wsBase w') (ws_sessions w') s'"
proof -
  obtain b v where t: "tryAdmit (wsBase w) = (b, v)" by (metis surj_pair)
  obtain b' v' where e: "enter v = (b', v')" by (metis surj_pair)
  note defs = ws_upgrade_def ws_sessions_def http_error_def Let_def
  consider (full) "\<not> b" | (stopping) "b" "\<not> b'" | (failed) x where "b" "b'" "up r = Inl x"
    | (opened) remote conn where "b" "b'" "up r = Inr (remote, conn)"
    by (cases "up r") auto
  then show ?thesis
  proof cases
    case full
    then show ?thesis using refine_rejected [OF assms(1), of v] t assms(2) by (auto simp: defs) blast
  next
    case stopping
    then show ?thesis using refine_refused [OF assms(1), of v v'] t e assms(2) by (auto simp: defs) blast
  next
    case failed
    then have w': "w' = w\<lparr>wsBase := wg_Done (log_at Debug ''gophersocks: WebSocket upgrade failed'' (release v'))\<rparr>"
      using t e assms(2) by (auto simp: ws_upgrade_def)
    obtain s' where s': "quiet_run s s'" "srv_rel f d (wg_Done (release v')) (ws_sessions w) s'"
      using refine_failed [OF assms(1), of v v'] t e failed by auto
    have "srv_rel f d (wsBase w') (ws_sessions w') s'"
      using srv_rel_cong [OF s'(2), of "wsBase w'"] w' by (simp add: wg_Done_def ws_sessions_def)
    then show ?thesis using s'(1) by blast
  next
    case opened
    then show ?thesis
      using refine_opened [OF assms(1), of v v' "newSession c remote (cfg v') True uid now" remote] t e assms(2)
      by (auto simp: defs) blast
  qed
qed

lemma ws_upgrade_grows:
  "length (wsSessions w) \<le> length (wsSessions (snd (ws_upgrade up c r uid now w)))"
  by (simp add: ws_upgrade_def http_error_def Let_def split: prod.split bool.split sum.split)

lemma ws_ends_refines:
  assumes "srv_rel f d (wsBase w) (ws_sessions w) s" and "\<forall>p \<in> set mine. p < length (wsSessions w)"
  shows "\<exists>s'. quiet_run s s' \<and> srv_rel f d (wsBase (ws_ctx_ends c mine w)) (ws_sessions (ws_ctx_ends c mine w)) s'"
    and "length (wsSessions (ws_ctx_ends c mine w)) = length (wsSessions w)"
proof -
  note ends = ws_close.ends_refines [unfolded ws_methods_fields, OF assms(1) _ ws_ctx_ends_def, of mine c]
  have valid: "\<forall>p \<in> set mine. p < length (ws_sessions w)" using assms(2) by (simp add: ws_sessions_def)
  show "\<exists>s'. quiet_run s s' \<and> srv_rel f d (wsBase (ws_ctx_ends c mine w)) (ws_sessions (ws_ctx_ends c mine w)) s'"
    by (rule ends(1) [OF valid])
  show "length (wsSessions (ws_ctx_ends c mine w)) = length (wsSessions w)"
    using ends(2) [OF valid] by (simp add: ws_sessions_def)
qed

lemma ws_take_refines:
  assumes "srv_rel f d (wsBase w) (ws_sessions w) s" and "\<forall>p \<in> set mine. p < length (wsSessions w)"
    and "ws_take matches mine ev w = (b, w')"
  shows "(\<exists>g s'. quiet_run s s' \<and> srv_rel g d (wsBase w') (ws_sessions w') s')
    \<and> length (wsSessions w) \<le> length (wsSessions w')"
proof (cases ev)
  case (WsServed c)
  let ?w = "w\<lparr>wsLn := map_option (\<lambda>l. l\<lparr>lnClosed := True\<rparr>) (wsLn w)\<rparr>"
  have "srv_rel f d (wsBase ?w) (ws_sessions ?w) s" using assms(1) by (simp add: ws_sessions_def)
  from ws_ends_refines [OF this, of mine "cancel Canceled c"] show ?thesis
    using assms(2,3) WsServed by auto
next
  case (WsEvent e)
  obtain path up c r uid now where e: "e = Requested path up c r uid now" by (cases e) auto
  let ?w = "snd (ws_upgrade up c r uid now w)"
  let ?mine = "mine @ [length (wsSessions w)..<length (wsSessions ?w)]"
  show ?thesis
  proof (cases "matches path")
    case False
    then have "w' = http_error ''404 page not found'' StatusNotFound w" using assms(3) WsEvent e by simp
    then show ?thesis using refine_same [OF assms(1)] by (simp add: http_error_def ws_sessions_def)
  next
    case True
    then have w': "w' = ws_ctx_ends c ?mine ?w" using assms(3) WsEvent e by (simp add: Let_def)
    note grow = ws_upgrade_grows [of w up c r uid now]
    obtain g s1 where s1: "quiet_run s s1" "srv_rel g d (wsBase ?w) (ws_sessions ?w) s1"
      using ws_upgrade_refines [OF assms(1)] by (metis prod.collapse)
    have "\<forall>p \<in> set ?mine. p < length (wsSessions ?w)" using assms(2) grow by auto
    note ends = ws_ends_refines [OF s1(2) this, of c]
    show ?thesis using ends(1) quiet_trans [OF s1(1)] grow unfolding w' ends(2) by blast
  qed
qed

interpretation ws_host: hosted_server "ws_methods e matches" new_ws for e matches
proof (unfold_locales, unfold ws_methods_fields)
  fix w
  assume "new_ws w"
  then show "\<exists>p c. 1 \<le> MaxConnections c \<and> wsBase w = newServer p c \<and> ws_sessions w = []"
    by (auto simp: new_ws_def NewWebSocket_def Let_def ValidateConfig_None valid_config_def ws_sessions_def
        split: option.splits protocol_config.splits; blast)
next
  fix f d w s mine ev b w'
  assume "srv_rel f d (wsBase w) (ws_sessions w) s" and "\<forall>p \<in> set mine. p < length (ws_sessions w)"
    and "ws_take matches mine ev w = (b, w')"
  then show "(\<exists>g s'. quiet_run s s' \<and> srv_rel g d (wsBase w') (ws_sessions w') s')
      \<and> length (ws_sessions w) \<le> length (ws_sessions w')"
    using ws_take_refines [of f d w s mine matches ev b w'] by (simp add: ws_sessions_def)
qed (simp_all add: ws_sessions_def)

section \<open>QUIC\<close>

text \<open>
  An event of Serve is one return of Accept; the connection's stream is awaited in the same
  operation. A close is also what the watch on the connection's context does.
\<close>

definition quic_sessions :: "quic_server \<Rightarrow> session list" where
  "quic_sessions q = map snd (quicSessions q)"

definition quic_take :: "session_ptr list \<Rightarrow> quic_event \<Rightarrow> quic_server \<Rightarrow> bool \<times> quic_server" where
  "quic_take mine ev q = (case quic_accept_loop mine [ev] q of (r, q') \<Rightarrow> (r \<noteq> Blocked, q'))"

definition quic_methods :: "(quic_server, quic_event) methods" where
  "quic_methods = \<lparr>mBase = quicBase, mWith = (\<lambda>g q. q\<lparr>quicBase := g (quicBase q)\<rparr>), mSessions = quic_sessions,
     mTake = quic_take, mClose = quic_close_session, mStop = (\<lambda>order q. snd (quic_StopListener order q))\<rparr>"

lemma quic_methods_fields [simp]:
  "mBase quic_methods = quicBase" "mSessions quic_methods = quic_sessions" "mTake quic_methods = quic_take"
  "mClose quic_methods = quic_close_session" "mStop quic_methods order q = snd (quic_StopListener order q)"
  "mWith quic_methods g q = q\<lparr>quicBase := g (quicBase q)\<rparr>"
  by (simp_all add: quic_methods_def)

definition new_quic :: "quic_server \<Rightarrow> bool" where
  "new_quic q \<longleftrightarrow> (\<exists>host port parent opts. NewQUIC host port parent opts = Inr q)"

lemma quic_close_eq:
  assumes "p < length (quicSessions q)"
  shows "quic_close_session e p q = (if closeOnce (quic_sessions q ! p) then q
    else q\<lparr>quicBase := remove (addr (quic_sessions q ! p)) p (quicBase q),
      quicSessions := (quicSessions q)[p := closeWith streamTransport (Some e) (quicSessions q ! p)]\<rparr>)"
  using assms by (simp add: quic_close_session_def quic_sessions_def split: prod.splits)

lemma quic_closeListener_base:
  "quicBase (snd (quic_closeListener q)) = quicBase q"
  "quicSessions (snd (quic_closeListener q)) = quicSessions q"
  by (simp_all add: quic_closeListener_def close_socket_def Let_def split: option.splits prod.splits)

interpretation quic_close: hosted_sessions "mBase quic_methods" "mSessions quic_methods"
  "mClose quic_methods" "mStop quic_methods"
proof (unfold_locales, unfold quic_methods_fields)
  fix p q c
  assume "p < length (quic_sessions q)"
  then have p: "p < length (quicSessions q)" by (simp add: quic_sessions_def)
  show "quic_close_session c p q = q" if "closeOnce (quic_sessions q ! p)"
    using that quic_close_eq [OF p] by simp
  show "quicBase (quic_close_session c p q) = remove (addr (quic_sessions q ! p)) p (quicBase q) \<and>
    (\<exists>x. quic_sessions (quic_close_session c p q) = (quic_sessions q)[p := x] \<and> closeOnce x
      \<and> addr x = addr (quic_sessions q ! p) \<and> ctx x = cancel c (ctx (quic_sessions q ! p)))"
    if "\<not> closeOnce (quic_sessions q ! p)"
    using close_nth [OF p that [unfolded quic_sessions_def]] that quic_close_eq [OF p, of c]
    by (simp add: quic_sessions_def)
next
  fix q :: quic_server and order
  let ?m = "''gophersocks: shutting down QUIC server''"
  let ?q = "q\<lparr>quicBase := stop_cancel ((log_at Info ?m (quicBase q))\<lparr>stopped := True\<rparr>)\<rparr>"
  show "\<exists>m q'. quicBase q' = stop_cancel (snd (stop_begin (log_at Info m (quicBase q))))
      \<and> quic_sessions q' = quic_sessions q
      \<and> snd (quic_StopListener order q) = fold (quic_close_session ErrServerStopped) order q'"
    by (intro exI [of _ ?m] exI [of _ "snd (quic_closeListener ?q)"])
      (simp add: quic_StopListener_def quic_closeListener_base stop_begin_def quic_sessions_def Let_def
        split: prod.splits)
qed

lemma quic_handleConn_refines:
  assumes "srv_rel f d (quicBase q) (quic_sessions q) s" and "tryAdmit (quicBase q) = (True, v)"
    and "enter v = (True, v')" and "q' = snd (quic_handleConn c conn uid now (q\<lparr>quicBase := v'\<rparr>))"
  shows "\<exists>g s'. quiet_run s s' \<and> srv_rel g d (quicBase q') (quic_sessions q') s'"
proof -
  note defs = quic_handleConn_def quic_sessions_def conn_close_def Let_def
  consider (no_stream) x where "qStream conn = Inl x"
    | (no_codec) strm where "qStream conn = Inr strm" "choose_codec (codecs q) (qProtocol conn) = None"
    | (opened) strm cd where "qStream conn = Inr strm" "choose_codec (codecs q) (qProtocol conn) = Some cd"
    by (cases "qStream conn"; cases "choose_codec (codecs q) (qProtocol conn)") auto
  then show ?thesis
  proof cases
    case no_stream
    then have q': "quicBase q' = wg_Done (log_at Debug ''gophersocks: QUIC connection opened no stream'' (release v'))"
      "quic_sessions q' = quic_sessions q"
      using assms(4) by (auto simp: defs)
    obtain s' where s': "quiet_run s s'" "srv_rel f d (wg_Done (release v')) (quic_sessions q) s'"
      using refine_failed [OF assms(1-3)] by auto
    have "srv_rel f d (quicBase q') (quic_sessions q') s'"
      using srv_rel_cong [OF s'(2), of "quicBase q'"] q' by (simp add: wg_Done_def)
    then show ?thesis using s'(1) by blast
  next
    case no_codec
    then have "quicBase q' = wg_Done (release v')" "quic_sessions q' = quic_sessions q"
      using assms(4) by (auto simp: defs)
    then show ?thesis using refine_failed [OF assms(1-3)] by auto
  next
    case opened
    then show ?thesis
      using refine_opened [OF assms(1-3), of "newSession c (qRemote conn) (cfg v') True uid now" "qRemote conn"] assms(4)
      by (auto simp: defs)
  qed
qed

lemma quic_handleConn_grows:
  "length (quicSessions q) \<le> length (quicSessions (snd (quic_handleConn c conn uid now q)))"
  by (simp add: quic_handleConn_def conn_close_def Let_def split: sum.split option.split)

lemma quic_ends_refines:
  assumes "srv_rel f d (quicBase q) (quic_sessions q) s" and "\<forall>p \<in> set mine. p < length (quicSessions q)"
  shows "\<exists>s'. quiet_run s s'
      \<and> srv_rel f d (quicBase (quic_ctx_ends c mine q)) (quic_sessions (quic_ctx_ends c mine q)) s'"
    and "length (quicSessions (quic_ctx_ends c mine q)) = length (quicSessions q)"
proof -
  note ends = quic_close.ends_refines [unfolded quic_methods_fields, OF assms(1) _ quic_ctx_ends_def, of mine c]
  have valid: "\<forall>p \<in> set mine. p < length (quic_sessions q)" using assms(2) by (simp add: quic_sessions_def)
  show "\<exists>s'. quiet_run s s'
      \<and> srv_rel f d (quicBase (quic_ctx_ends c mine q)) (quic_sessions (quic_ctx_ends c mine q)) s'"
    by (rule ends(1) [OF valid])
  show "length (quicSessions (quic_ctx_ends c mine q)) = length (quicSessions q)"
    using ends(2) [OF valid] by (simp add: quic_sessions_def)
qed

lemma quic_accept_refines:
  assumes "srv_rel f d (quicBase q) (quic_sessions q) s" and "\<forall>p \<in> set mine. p < length (quicSessions q)"
    and "quic_accept_loop mine [QAccepted conn uid now c] q = (res, q')"
  shows "(\<exists>g s'. quiet_run s s' \<and> srv_rel g d (quicBase q') (quic_sessions q') s')
    \<and> length (quicSessions q) \<le> length (quicSessions q')"
proof -
  obtain b v where t: "tryAdmit (quicBase q) = (b, v)" by (metis surj_pair)
  obtain b' v' where e: "enter v = (b', v')" by (metis surj_pair)
  consider (full) "\<not> b" | (stopping) "b" "\<not> b'" | (entered) "b" "b'" by blast
  then show ?thesis
  proof cases
    case full
    then have q': "quicBase q' = v" "quicSessions q' = quicSessions q"
      using t assms(3) by (auto simp: conn_close_def)
    then show ?thesis using refine_rejected [OF assms(1), of v] t full by (auto simp: quic_sessions_def)
  next
    case stopping
    let ?q = "conn_close conn quicCodeClosed ''server stopping'' (q\<lparr>quicBase := release v'\<rparr>)"
    have q': "q' = quic_ctx_ends (cancel Canceled c) mine ?q" using t e stopping assms(3) by auto
    obtain s1 where s1: "quiet_run s s1" "srv_rel f d (release v') (quic_sessions q) s1"
      using refine_refused [OF assms(1), of v v'] t e stopping by auto
    have "srv_rel f d (quicBase ?q) (quic_sessions ?q) s1" "\<forall>p \<in> set mine. p < length (quicSessions ?q)"
      using s1(2) assms(2) by (simp_all add: conn_close_def quic_sessions_def)
    note ends = quic_ends_refines [OF this, of "cancel Canceled c"]
    have "length (quicSessions q') = length (quicSessions q)" using ends(2) q' by (simp add: conn_close_def)
    then show ?thesis using ends(1) quiet_trans [OF s1(1)] unfolding q' by (metis order_refl)
  next
    case entered
    let ?q = "snd (quic_handleConn c conn uid now (q\<lparr>quicBase := v'\<rparr>))"
    let ?mine = "mine @ [length (quicSessions q)..<length (quicSessions ?q)]"
    have q': "q' = quic_ctx_ends c ?mine ?q" using t e entered assms(3) by (simp add: Let_def)
    have grow: "length (quicSessions q) \<le> length (quicSessions ?q)"
      using quic_handleConn_grows [of "q\<lparr>quicBase := v'\<rparr>" c conn uid now] by simp
    obtain g s1 where s1: "quiet_run s s1" "srv_rel g d (quicBase ?q) (quic_sessions ?q) s1"
      using quic_handleConn_refines [OF assms(1), of v v' ?q c conn uid now] t e entered by auto
    have "\<forall>p \<in> set ?mine. p < length (quicSessions ?q)" using assms(2) grow by auto
    note ends = quic_ends_refines [OF s1(2) this, of c]
    show ?thesis using ends(1) quiet_trans [OF s1(1)] grow unfolding q' ends(2) by blast
  qed
qed

lemma quic_take_refines:
  assumes "srv_rel f d (quicBase q) (quic_sessions q) s" and "\<forall>p \<in> set mine. p < length (quicSessions q)"
    and "quic_take mine ev q = (b, q')"
  shows "(\<exists>g s'. quiet_run s s' \<and> srv_rel g d (quicBase q') (quic_sessions q') s')
    \<and> length (quicSessions q) \<le> length (quicSessions q')"
proof (cases ev)
  case (QAccepted conn uid now c)
  obtain res q1 where l: "quic_accept_loop mine [QAccepted conn uid now c] q = (res, q1)" by (metis surj_pair)
  then have "q1 = q'" using assms(3) QAccepted by (simp add: quic_take_def)
  then show ?thesis using quic_accept_refines [OF assms(1,2) l] by simp
next
  case (QAcceptFailed e c)
  have "q' = quic_ctx_ends (cancel Canceled c) mine q"
    using assms(3) QAcceptFailed by (auto simp: quic_take_def split: if_splits)
  then show ?thesis using quic_ends_refines [OF assms(1,2), of "cancel Canceled c"] by auto
qed

interpretation quic_host: hosted_server quic_methods new_quic
proof (unfold_locales, unfold quic_methods_fields)
  fix q
  assume "new_quic q"
  then show "\<exists>p c. 1 \<le> MaxConnections c \<and> quicBase q = newServer p c \<and> quic_sessions q = []"
    by (auto simp: new_quic_def NewQUIC_def Let_def ValidateConfig_None valid_config_def quic_sessions_def
        split: option.splits) blast
next
  fix f d q s mine ev b q'
  assume "srv_rel f d (quicBase q) (quic_sessions q) s" and "\<forall>p \<in> set mine. p < length (quic_sessions q)"
    and "quic_take mine ev q = (b, q')"
  then show "(\<exists>g s'. quiet_run s s' \<and> srv_rel g d (quicBase q') (quic_sessions q') s')
      \<and> length (quic_sessions q) \<le> length (quic_sessions q')"
    using quic_take_refines [of f d q s mine ev b q'] by (simp add: quic_sessions_def)
qed (simp_all add: quic_sessions_def)

end
