(* ===== verification/ServerLife.thy ===== *)
theory ServerLife
  imports ServerRuns
begin

text \<open>
  What holds of the four servers after every history: their states are states of \<open>ServerMachine\<close>,
  their counters count, and a Serve call leaves no open session behind.
\<close>

section \<open>Samples\<close>

text \<open>New servers with the default options, one for each protocol, and a history of the TCP one.\<close>

lemma defaults_valid:
  "ValidateConfig defaultConfig = None"
  "ValidateConfig (defaultConfig\<lparr>ProtocolConfig := QUICConfig defaultQUICConfig\<rparr>) = None"
  by (simp_all add: ValidateConfig_def defaultConfig_def defaultMaxLength_def Second_def)

lemma new_servers_exist:
  "\<exists>t. NewTCP ''h'' 80 None [] = Inr t" "\<exists>u. NewUDP ''h'' 80 None [] = Inr u"
  "\<exists>w. NewWebSocket ''h'' 80 None [] = Inr w" "\<exists>q. NewQUIC ''h'' 80 None [] = Inr q"
  by (simp_all add: NewTCP_def NewUDP_def NewWebSocket_def NewQUIC_def defaults_valid Let_def)
    (simp add: defaultConfig_def)

definition fresh_tcp :: tcp_server where
  "fresh_tcp = \<lparr>tcpBase = newServer None defaultConfig, tcpAddr = hostPort ''h'' 80, tcpLn = None,
     tcpSessions = [], tcpRefused = [], tcpSlept = 0\<rparr>"

definition fresh_udp :: udp_server where
  "fresh_udp = (case NewUDP ''h'' 80 None [] of Inr u \<Rightarrow> u)"

definition fresh_ws :: ws_server where
  "fresh_ws = (case NewWebSocket ''h'' 80 None [] of Inr w \<Rightarrow> w)"

definition fresh_quic :: quic_server where
  "fresh_quic = (case NewQUIC ''h'' 80 None [] of Inr q \<Rightarrow> q)"

lemma samples_new: "new_tcp fresh_tcp" "new_udp fresh_udp" "new_ws fresh_ws" "new_quic fresh_quic"
proof -
  have "NewTCP ''h'' 80 None [] = Inr fresh_tcp"
    by (simp add: NewTCP_def fresh_tcp_def defaults_valid)
  then show "new_tcp fresh_tcp" unfolding new_tcp_def by blast
  obtain u where "NewUDP ''h'' 80 None [] = Inr u" using new_servers_exist by blast
  then show "new_udp fresh_udp" unfolding new_udp_def fresh_udp_def by fastforce
  obtain w where "NewWebSocket ''h'' 80 None [] = Inr w" using new_servers_exist by blast
  then show "new_ws fresh_ws" unfolding new_ws_def fresh_ws_def by fastforce
  obtain q where "NewQUIC ''h'' 80 None [] = Inr q" using new_servers_exist by blast
  then show "new_quic fresh_quic" unfolding new_quic_def fresh_quic_def by fastforce
qed

definition peer_c :: net_conn where
  "peer_c = \<lparr>remoteAddr = ''c'', incoming = [], incomingEnd = FaultEOF,
     connReadDeadline = (\<lambda>_. None), connWriteDeadline = (\<lambda>_. None), connClock = int,
     connWrite = (\<lambda>_ b. (length b, None)), connGrown = (\<lambda>c n. max c n)\<rparr>"

text \<open>
  Two clients; the first one's handler returns, then the server is stopped; a third client comes too
  late, Serve returns, the second handler returns, and so does \<^verbatim>\<open>StopListener\<close>.
\<close>

definition sample_calls :: "accept_event call list" where
  "sample_calls = [ServeStarts, Takes 0 (Accepted peer_c ''u'' 0 None),
     Takes 0 (Accepted (peer_c\<lparr>remoteAddr := ''d''\<rparr>) ''v'' 1 None), HandlerReturns 0, Stops [1],
     Takes 0 (Accepted (peer_c\<lparr>remoteAddr := ''e''\<rparr>) ''w'' 2 (Some ErrServerStopped)),
     Takes 0 (AcceptFailed NetErrClosed (Some ErrServerStopped)), HandlerReturns 1, WaitReturns]"

lemmas sample_eval = sample_calls_def after_def new_history_def fresh_tcp_def tcp_take_def tcp_accept_def
  tryAdmit_eq enter_def newServer_def defaultConfig_def Let_def add_def peer_c_def tcp_sessions_def
  tcp_close_session_def remove_def remove_entry_def release_def log_at_def closeWith_def runOnClose_def
  tcp_StopListener_def tcp_closeListener_def stop_begin_def stop_cancel_def close_once_def tcp_refuse_def
  tcp_unblock_def tcp_ctx_ends_def wg_Done_def cancel_def

lemma sample_returned: "stage (after tcp_methods sample_calls fresh_tcp) = Returned"
  by (simp add: sample_eval)

section \<open>The state after any history\<close>

text \<open>
  C4. A new server of each protocol may go through anything, in any order: Serve calls that begin and
  end, connections, datagrams, upgrades, their failures and their refusals before and after a
  stop, reaper ticks, closes, returns of handlers, the end of its context, StopListener and the
  return of its wait. When each of these runs without interruption, the server's state is one
  that the machine of interleaved goroutines can reach: the same counter, wait group, registry,
  Serve calls and stage of the stop, its sessions are connections of the machine, and all other
  connections there were turned away and hold nothing.
\<close>

theorem servers_refine_machine:
  assumes "new_tcp t" and "new_udp u" and "new_ws w" and "new_quic q"
  shows "(\<exists>f s. srv_reachable s \<and> run_rel tcp_methods f (after tcp_methods ts t) s)
    \<and> (\<exists>f s. srv_reachable s \<and> run_rel udp_methods f (after udp_methods us u) s)
    \<and> (\<exists>f s. srv_reachable s \<and> run_rel (ws_methods e matches) f (after (ws_methods e matches) ws w) s)
    \<and> (\<exists>f s. srv_reachable s \<and> run_rel quic_methods f (after quic_methods qs q) s)"
  by (intro conjI tcp_host.history_related udp_host.history_related ws_host.history_related
      quic_host.history_related assms)

theorem servers_refine_machine_witness:
  "\<exists>f s. srv_reachable s \<and> run_rel tcp_methods f (after tcp_methods sample_calls fresh_tcp) s \<and> stopAt s = Returned"
proof -
  obtain f s where s: "srv_reachable s" "run_rel tcp_methods f (after tcp_methods sample_calls fresh_tcp) s"
    using servers_refine_machine [OF samples_new, of sample_calls] by blast
  then show ?thesis using sample_returned by (auto simp: run_rel_def)
qed

text \<open>
  C15. After every such history the counter of a server is the number of its open sessions, at most
  MaxConnections, and its wait group counts the Serve calls that have not returned and the
  sessions whose goroutine has not ended. So once StopListener has returned, no Serve call runs,
  every session is closed and every handler has returned.
\<close>

theorem servers_account:
  assumes "new_tcp t" and "new_udp u" and "new_ws w" and "new_quic q"
  shows "accounts tcp_methods (after tcp_methods ts t) \<and> accounts udp_methods (after udp_methods us u)
    \<and> accounts (ws_methods e matches) (after (ws_methods e matches) ws w)
    \<and> accounts quic_methods (after quic_methods qs q)"
  by (intro conjI tcp_host.history_account udp_host.history_account ws_host.history_account
      quic_host.history_account assms)

theorem servers_account_witness:
  "owned (after tcp_methods sample_calls fresh_tcp) = []
    \<and> open_sessions (tcp_sessions (hServer (after tcp_methods sample_calls fresh_tcp))) = {}"
  using servers_account [OF samples_new, of sample_calls] sample_returned by (simp add: accounts_def Let_def)

section \<open>What Serve leaves behind\<close>

text \<open>
  \<open>covers n mine ss\<close>: the sessions from the \<open>n\<close>-th on are among \<open>mine\<close>, and one of them that is
  closed has an ended context. \<open>grows ss ss'\<close>: open sessions have been added.
\<close>

definition ended :: "session \<Rightarrow> bool" where
  "ended s \<longleftrightarrow> closeOnce s \<and> ctx s \<noteq> None"

definition covers :: "nat \<Rightarrow> session_ptr list \<Rightarrow> session list \<Rightarrow> bool" where
  "covers n mine ss \<longleftrightarrow> (\<forall>p \<in> set mine. p < length ss)
     \<and> (\<forall>p. n \<le> p \<and> p < length ss \<longrightarrow> p \<in> set mine \<and> (closeOnce (ss ! p) \<longrightarrow> ctx (ss ! p) \<noteq> None))"

definition all_ended :: "nat \<Rightarrow> session list \<Rightarrow> bool" where
  "all_ended n ss \<longleftrightarrow> (\<forall>p. n \<le> p \<and> p < length ss \<longrightarrow> ended (ss ! p))"




lemma covers_start: "covers (length ss) [] ss"
  by (simp add: covers_def)


context hosted_sessions
begin

lemma close_covers:
  assumes "covers n mine (sessions t)" and "p \<in> set mine"
  shows "covers n mine (sessions (close e p t))"
proof (cases "closeOnce (sessions t ! p)")
  case True
  then show ?thesis using assms close_closed [of p t e] by (simp add: covers_def)
next
  case False
  have p: "p < length (sessions t)" using assms by (simp add: covers_def)
  obtain x where x: "sessions (close e p t) = (sessions t)[p := x]" "ctx x \<noteq> None"
    using close_open [OF p False, of e] cancel_Some by metis
  have "ctx ((sessions t)[p := x] ! q) \<noteq> None" if "ctx (sessions t ! q) \<noteq> None \<or> q = p" for q
    using that x(2) p by (cases "q = p") simp_all
  then show ?thesis using assms(1) unfolding covers_def x(1) length_list_update
    by (metis nth_list_update_neq)
qed

lemma ends_cover:
  assumes "covers n mine (sessions t)" and "t' = (case c of None \<Rightarrow> t | Some e \<Rightarrow> fold (close e) mine t)"
  shows "covers n mine (sessions t')" and "c \<noteq> None \<Longrightarrow> all_ended n (sessions t')"
proof -
  have all: "\<forall>p \<in> set mine. p < length (sessions t)" using assms(1) by (simp add: covers_def)
  have "covers n mine (sessions (fold (close e) mine t))" for e
    by (rule fold_invariant [where P = "\<lambda>u. covers n mine (sessions u)" and Q = "\<lambda>p. p \<in> set mine"])
      (use assms(1) close_covers in auto)
  then show cov: "covers n mine (sessions t')" using assms by (cases c) simp_all
  show "all_ended n (sessions t')" if "c \<noteq> None"
    unfolding all_ended_def ended_def
  proof (intro allI impI)
    fix p assume p: "n \<le> p \<and> p < length (sessions t')"
    then have "p \<in> set mine" "closeOnce (sessions t' ! p) \<longrightarrow> ctx (sessions t' ! p) \<noteq> None"
      using cov by (auto simp: covers_def)
    then show "closeOnce (sessions t' ! p) \<and> ctx (sessions t' ! p) \<noteq> None"
      using fold_close_closes [OF all] assms(2) that by (cases c) auto
  qed
qed

end

















end
