(* ===== verification/WebSocketProps.thy ===== *)
theory WebSocketProps
  imports WebSocket
begin

text \<open>
  The WebSocket server: binary frames are the messages, every branch of the upgrade balances
  the slot and the wait group, and what the constructor accepts.
\<close>

definition sample_ws :: ws_transport where
  "sample_ws = \<lparr>wsReadTimeout = 0, wsWriteTimeout = 0, wsCloseOnce = False,
     frames = [(TextMessage, [1]), (BinaryMessage, [2]), (TextMessage, [3]), (BinaryMessage, [])],
     wsEnd = EOF, wsSetReadDeadline = (\<lambda>_. None), wsSetWriteDeadline = (\<lambda>_. None),
     wsWrite = (\<lambda>_ _. None), wsClock = int, wsTicks = 0, wsReadDeadline = None,
     wsWriteDeadline = None, wsWrites = 0, wsSent = [], closeFrames = [], connCloses = 0\<rparr>"

text \<open>
  C34. A WebSocket session yields the payloads of the binary frames its client sends, in order;
  text frames are skipped and move the idle deadline like any other; the iteration ends with
  the connection's error as the session's cause.
\<close>

theorem ws_yields_binary_frames:
  assumes "\<forall>d. wsSetReadDeadline t d = None" and "\<not> closeOnce s"
    and "length clocks = Suc (length (binary_payloads (frames t)))"
  shows "\<exists>t' s'. Messages wsTransport (map (\<lambda>now. (now, True)) clocks) (t, s)
      = (binary_payloads (frames t), (t', s'), True) \<and> ctx s' = cancel (readCause (wsEnd t)) (ctx s)"
proof -
  have "ws_holds (binary_payloads (frames t)) t" using assms(1) by (simp add: ws_holds_def)
  from ws_source.Messages_all [OF this assms(3,2)] show ?thesis by auto
qed

theorem ws_yields_binary_frames_witness:
  "\<exists>t' s'. Messages wsTransport (map (\<lambda>now. (now, True)) [1, 2, 3])
      (sample_ws, newSession None ''a'' defaultConfig True ''u'' 0) = ([[2], []], (t', s'), True)
    \<and> ctx s' = Some ErrSessionClosed"
proof -
  have b: "binary_payloads (frames sample_ws) = [[2], []]"
    by (simp add: binary_payloads_def sample_ws_def TextMessage_def BinaryMessage_def)
  have d: "\<forall>d. wsSetReadDeadline sample_ws d = None" and e: "wsEnd sample_ws = EOF"
    by (simp_all add: sample_ws_def)
  have "length [1, 2, 3 :: int] = Suc (length (binary_payloads (frames sample_ws)))" by (simp add: b)
  from ws_yields_binary_frames [OF d _ this, of "newSession None ''a'' defaultConfig True ''u'' 0"]
  obtain t' s' where "Messages wsTransport (map (\<lambda>now. (now, True)) [1, 2, 3])
      (sample_ws, newSession None ''a'' defaultConfig True ''u'' 0) = ([[2], []], (t', s'), True)"
    "ctx s' = cancel (readCause (wsEnd sample_ws)) None"
    unfolding b newSession_fields by blast
  moreover have "cancel (readCause (wsEnd sample_ws)) None = Some ErrSessionClosed"
    by (simp add: e readCause_def cancel_def)
  ultimately show ?thesis by metis
qed

text \<open>
  After drain has emptied the queue of a WebSocket session, each queued message has gone
  out as one binary frame, in order; after an error a prefix has, and the session is closed.
\<close>

theorem ws_sends_queue:
  assumes "drain wsTransport (t, s) = (done_ok, t', s')"
  shows "if done_ok then wsSent t' = wsSent t @ map (Pair BinaryMessage) (out s) \<and> out s' = []
    else (\<exists>p q. wsSent t' = wsSent t @ map (Pair BinaryMessage) p \<and> out s = p @ q) \<and> closeOnce s'"
proof (cases done_ok)
  case True
  then show ?thesis using ws_writer.drain_ok [of t s t' s'] assms by simp
next
  case False
  then have d: "drain wsTransport (t, s) = (False, t', s')" using assms by simp
  obtain p q where pq: "wsSent t' = wsSent t @ p" "map (Pair BinaryMessage) (out s) = p @ q" and "closeOnce s'"
    using ws_writer.drain_error [OF _ d] by auto
  moreover from pq(2) obtain p' q' where "out s = p' @ q'" "p = map (Pair BinaryMessage) p'"
    by (auto simp: map_eq_append_conv)
  ultimately show ?thesis using False by auto
qed

theorem ws_sends_queue_witness:
  "\<exists>ok t' s'. drain wsTransport (sample_ws, (newSession None ''a'' defaultConfig True ''u'' 0)\<lparr>out := [[7], [8]]\<rparr>)
      = (ok, t', s') \<and> (ok \<longrightarrow> wsSent t' = [(BinaryMessage, [7]), (BinaryMessage, [8])])"
proof -
  let ?s = "(newSession None ''a'' defaultConfig True ''u'' 0)\<lparr>out := [[7], [8]]\<rparr>"
  obtain ok t' s' where d: "drain wsTransport (sample_ws, ?s) = (ok, t', s')" by (metis prod_cases3)
  from ws_sends_queue [OF d] d show ?thesis by (auto simp: sample_ws_def)
qed

section \<open>The upgrade\<close>

text \<open>
  Every branch of an upgrade is balanced: a refused or failed upgrade leaves the slots and
  the wait group as they were and registers nothing; a successful one takes one slot and one
  place in the group, limits the connection's reads to MaxLength and registers the session
  under the connection's address. A full or stopping server answers 503.
\<close>

theorem ws_upgrade_balanced:
  assumes "ws_upgrade up c r uid now w = (res, w')"
  shows "(res = None \<longleftrightarrow> active (wsBase w) \<ge> MaxConnections (cfg (wsBase w)) \<or> stopped (wsBase w)
        \<or> (\<exists>e. up r = Inl e))
    \<and> (res = None \<longrightarrow> active (wsBase w') = active (wsBase w) \<and> wg (wsBase w') = wg (wsBase w)
        \<and> byAddr (wsBase w') = byAddr (wsBase w) \<and> wsSessions w' = wsSessions w)
    \<and> (\<forall>p. res = Some p \<longrightarrow> active (wsBase w') = active (wsBase w) + 1 \<and> wg (wsBase w') = wg (wsBase w) + 1
        \<and> wsReadLimits w' = wsReadLimits w @ [uint (MaxLength (cfg (wsBase w)))]
        \<and> (\<exists>remote conn. up r = Inr (remote, conn) \<and> GetSession remote (wsBase w') = Some p
            \<and> addr (snd (wsSessions w' ! p)) = remote))
    \<and> (active (wsBase w) \<ge> MaxConnections (cfg (wsBase w)) \<or> stopped (wsBase w) \<longrightarrow>
        (\<exists>msg. httpErrors w' = httpErrors w @ [(msg, 503)]))"
proof -
  have "tryAdmit (wsBase w) = (True, v) \<Longrightarrow> v = (wsBase w)\<lparr>active := active (wsBase w) + 1\<rparr>" for v
    by (auto simp: tryAdmit_eq split: if_splits)
  then show ?thesis
    using assms
    by (cases "up r")
      (auto simp: ws_upgrade_def tryAdmit_eq enter_def http_error_def StatusServiceUnavailable_def
        wg_Done_def add_def GetSession_def Let_def split: if_splits)
qed

theorem ws_upgrade_balanced_witness:
  "\<exists>w res w'. NewWebSocket ''h'' 80 None [] = Inr w
    \<and> ws_upgrade (\<lambda>_. Inr (''a'', sample_ws)) None \<lparr>RemoteAddr = [], Host = [], Origin = []\<rparr> ''u'' 0 w = (res, w')
    \<and> res \<noteq> None"
proof -
  obtain w where w: "NewWebSocket ''h'' 80 None [] = Inr w" "active (wsBase w) = 0" "\<not> stopped (wsBase w)"
    "MaxConnections (cfg (wsBase w)) = 1000"
    by (simp add: NewWebSocket_def newServer_def defaultConfig_def ValidateConfig_def defaultMaxLength_def
        Second_def)
  obtain res w' where u: "ws_upgrade (\<lambda>_. Inr (''a'', sample_ws)) None
      \<lparr>RemoteAddr = [], Host = [], Origin = []\<rparr> ''u'' 0 w = (res, w')" by (metis surj_pair)
  from ws_upgrade_balanced [OF u] w u show ?thesis by auto
qed

section \<open>The endpoint path\<close>

text \<open>
  C32. The path of WithWebSocketPath is not validated: one without a slash, the empty one too, passes the
  constructor, and StartListener binds the address and reports success. But ServeMux takes no
  pattern without a slash, so Serve, in the background goroutine, panics, which ends the
  process.
\<close>

theorem ws_bad_path_panics:
  assumes "CHR ''/'' \<notin> set path" and "\<And>p. CHR ''/'' \<notin> set p \<Longrightarrow> \<not> muxAccepts mux p"
    and "bind (hostPort host port) = Inr l"
  shows "\<exists>w w'. NewWebSocket host port parent [WithWebSocketPath path] = Inr w
    \<and> ws_StartListener bind w = (None, True, w')
    \<and> (\<exists>msg w''. ws_Serve bind mux evs served is_server_closed c w' = (Some (RuntimePanic msg), w''))"
proof -
  obtain w where w: "NewWebSocket host port parent [WithWebSocketPath path] = Inr w"
    "wsAddr w = hostPort host port" "wsLn w = None" "Path (wsCfg w) = path" "stopped (wsBase w) = False"
    by (simp add: NewWebSocket_def WithWebSocketPath_def ValidateConfig_def defaultConfig_def newServer_def
        defaultMaxLength_def Second_def Let_def)
  obtain w' where w': "ws_Listen bind w = (None, w')" "wsLn w' = Some l" "wsCfg w' = wsCfg w" "\<not> stopped (wsBase w')"
    using w assms(3) by (simp add: ws_Listen_def)
  have "\<exists>msg w''. ws_Serve bind mux evs served is_server_closed c w' = (Some (RuntimePanic msg), w'')"
    using w(4) w' assms(1,2) by (simp add: ws_Serve_def ws_Listen_def enter_def)
  then show ?thesis using w(1) w'(1) by (simp add: ws_StartListener_def)
qed

theorem ws_bad_path_panics_witness:
  "\<exists>w w' msg w''. NewWebSocket ''h'' 80 None [WithWebSocketPath ''chat''] = Inr w
    \<and> ws_StartListener (\<lambda>_. Inr \<lparr>lnClosed = False, closeErr = None\<rparr>) w = (None, True, w')
    \<and> ws_Serve (\<lambda>_. Inr \<lparr>lnClosed = False, closeErr = None\<rparr>)
        \<lparr>muxAccepts = (\<lambda>p. CHR ''/'' \<in> set p), muxMatches = (=)\<rparr> [] None (\<lambda>e. False) None w' = (Some (RuntimePanic msg), w'')"
proof -
  let ?mux = "\<lparr>muxAccepts = (\<lambda>p. CHR ''/'' \<in> set p), muxMatches = (=)\<rparr>"
  have "CHR ''/'' \<notin> set ''chat''" and "\<And>p. CHR ''/'' \<notin> set p \<Longrightarrow> \<not> muxAccepts ?mux p" by simp_all
  from ws_bad_path_panics [OF this, of "\<lambda>_. Inr \<lparr>lnClosed = False, closeErr = None\<rparr>" "''h''" 80
      "\<lparr>lnClosed = False, closeErr = None\<rparr>" None "[]" None "\<lambda>e. False" None]
  show ?thesis by blast
qed

end
