(* ===== verification/QuicProps.thy ===== *)
theory QuicProps
  imports Quic
begin

text \<open>
  The QUIC server: which codec a connection gets and how it is limited, the balance of slots on
  every branch of \<^verbatim>\<open>handleConn\<close>, what a session yields, and what an oversized message does to the
  messages queued with it.
\<close>

section \<open>Codecs\<close>

lemma resolveCodecs_total:
  "case resolveCodecs q of
     Inr r \<Rightarrow> ALPN q \<noteq> [] \<and> (\<forall>a \<in> set (ALPN q). codec_for q a \<noteq> None)
       \<and> (\<forall>a. map_of r a = (if a \<in> set (ALPN q) then codec_for q a else None))
   | Inl e \<Rightarrow> ALPN q = [] \<or> (\<exists>a \<in> set (ALPN q). codec_for q a = None)"
proof (cases "resolve_loop q (ALPN q) []")
  case (Inl e)
  then have "\<exists>a \<in> set (ALPN q). codec_for q a = None" using resolve_loop_total by (metis Inl_Inr_False)
  then show ?thesis using Inl by (simp add: resolveCodecs_def)
next
  case (Inr r)
  note ok = resolve_loop_ok [OF Inr]
  show ?thesis
  proof (cases "ALPN q = []")
    case True
    then show ?thesis by (simp add: resolveCodecs_def)
  next
    case False
    then have "r \<noteq> []" using ok by auto
    then have "resolveCodecs q = Inr r" using Inr by (simp add: resolveCodecs_def)
    then show ?thesis using ok False by simp
  qed
qed

lemma resolve_default: "\<exists>r. resolveCodecs defaultQUICConfig = Inr r"
proof -
  have "ALPN defaultQUICConfig = [DefaultALPN]" and "codec_for defaultQUICConfig DefaultALPN \<noteq> None"
    by (simp_all add: defaultQUICConfig_def codec_for_def registered_codec_def DefaultDelimiter_def)
  then show ?thesis using resolveCodecs_total [of defaultQUICConfig] by (auto split: sum.splits)
qed

text \<open>
  resolveCodecs succeeds exactly when there is a protocol and each has a codec: the
  registered one, or Legacy with the configured, non-empty delimiter for the default protocol.
  The map it returns has exactly the configured protocols and gives each that codec.
\<close>

theorem resolveCodecs_exact:
  "case resolveCodecs q of
     Inr r \<Rightarrow> ALPN q \<noteq> [] \<and> (\<forall>a \<in> set (ALPN q). codec_for q a \<noteq> None)
       \<and> (\<forall>a. map_of r a = (if a \<in> set (ALPN q) then codec_for q a else None))
   | Inl e \<Rightarrow> ALPN q = [] \<or> (\<exists>a \<in> set (ALPN q). codec_for q a = None)"
  by (rule resolveCodecs_total)

theorem resolveCodecs_exact_witness:
  "\<exists>r. resolveCodecs defaultQUICConfig = Inr r \<and> map_of r DefaultALPN = codec_for defaultQUICConfig DefaultALPN"
proof -
  obtain r where r: "resolveCodecs defaultQUICConfig = Inr r" using resolve_default by blast
  have "ALPN defaultQUICConfig = [DefaultALPN]" by (simp add: defaultQUICConfig_def)
  then show ?thesis using resolveCodecs_exact [of defaultQUICConfig] r by auto
qed

text \<open>
  WithQUICCodec makes its protocol the preferred one and its codec the one that protocol
  gets, and leaves the codecs and the relative order of the other protocols alone.
\<close>

theorem WithQUICCodec_prefers:
  assumes "ProtocolConfig c = QUICConfig q"
  shows "\<exists>q'. ProtocolConfig (WithQUICCodec alpn cd c) = QUICConfig q'
    \<and> ALPN q' = alpn # filter (\<lambda>p. p \<noteq> alpn) (ALPN q) \<and> codec_for q' alpn = Some cd
    \<and> (\<forall>a. a \<noteq> alpn \<longrightarrow> codec_for q' a = codec_for q a)"
  using assms
  by (auto simp: WithQUICCodec_def prefer_alpn_eq codec_for_def registered_codec_def store_codec_def
      split: option.splits)

theorem WithQUICCodec_prefers_witness:
  "\<exists>q'. ProtocolConfig (WithQUICCodec ''fps'' Uvarint
      (defaultConfig\<lparr>ProtocolConfig := QUICConfig defaultQUICConfig\<rparr>)) = QUICConfig q'
    \<and> ALPN q' = [''fps'', DefaultALPN] \<and> codec_for q' ''fps'' = Some Uvarint"
proof -
  have "ProtocolConfig (defaultConfig\<lparr>ProtocolConfig := QUICConfig defaultQUICConfig\<rparr>) = QUICConfig defaultQUICConfig"
    by simp
  from WithQUICCodec_prefers [OF this, of "''fps''" Uvarint] show ?thesis
    by (auto simp: defaultQUICConfig_def DefaultALPN_def)
qed

section \<open>Listening\<close>

definition sample_quic :: quic_server where
  "sample_quic = \<lparr>quicBase = newServer None defaultConfig, quicAddr = [], qcfg = defaultQUICConfig,
     quicLn = None, trClosed = False, udpOpen = False, openSockets = 0, codecs = [(DefaultALPN, Legacy)],
     quicSessions = [], connCloses = []\<rparr>"

definition sample_crypto :: crypto where
  "sample_crypto = \<lparr>GenerateKey = Inr ''key'', publicKey = (\<lambda>k. ''public '' @ k), randInt = (\<lambda>n. Inr (n - 1)),
     certClock = int, addYear = (\<lambda>t. t + 365 * 86400 * Second),
     CreateCertificate = (\<lambda>template parent pub key. Inr [48])\<rparr>"

lemma sample_cert [simp]: "selfSignedCert sample_crypto = Inr \<lparr>certDER = [48], PrivateKey = ''key''\<rparr>"
  by (simp add: selfSignedCert_def sample_crypto_def Let_def)

lemma selfSignedCert_signed:
  assumes "selfSignedCert cr = Inr x"
  shows "GenerateKey cr = Inr (PrivateKey x) \<and> (\<exists>template.
      CreateCertificate cr template template (publicKey cr (PrivateKey x)) (PrivateKey x) = Inr (certDER x)
      \<and> randInt cr (2 ^ 62) = Inr (SerialNumber template) \<and> NotBefore template < certClock cr 0
      \<and> NotAfter template = addYear cr (certClock cr 1) \<and> ExtKeyUsage template = [ExtKeyUsageServerAuth])"
  using assms by (auto simp: selfSignedCert_def Second_def Let_def split: sum.splits)

text \<open>
  C31. Listen is all or nothing. When it succeeds every protocol has a codec, quic-go has TLS
  settings that offer a protocol (without TLS settings of the user they have one certificate,
  self-signed with a fresh key), and exactly one UDP socket more is open, which closing the
  listener closes. When it fails the server is as it was, with no listener and no socket left
  open, so it can try again: the error is a configuration error for the codecs and the
  certificate, a connection error for the network.
\<close>

theorem quic_listen_outcome:
  assumes "quicLn q = None" and "quic_Listen env q = (e, q')"
  shows "case e of
      None \<Rightarrow> \<exists>l conf. quicLn q' = Some l \<and> resolveCodecs (qcfg q) = Inr (codecs q')
        \<and> tlsConfig (envCrypto env) (qcfg q) = Inr conf \<and> trListen env conf (QuicConfig (qcfg q)) = Inr l
        \<and> (\<forall>a \<in> set (ALPN (qcfg q)). map_of (codecs q') a \<noteq> None) \<and> NextProtos conf \<noteq> []
        \<and> (TLSConfig (qcfg q) = None \<longrightarrow> MinVersion conf = VersionTLS13 \<and> NextProtos conf = ALPN (qcfg q)
             \<and> (\<exists>x. Certificates conf = [x] \<and> GenerateKey (envCrypto env) = Inr (PrivateKey x)))
        \<and> openSockets q' = openSockets q + 1 \<and> openSockets (snd (quic_closeListener q')) = openSockets q
    | Some x \<Rightarrow> q' = q
        \<and> (\<exists>msg cause. x = NewConfigError msg (Some cause)
               \<and> (resolveCodecs (qcfg q) = Inl cause \<or> selfSignedCert (envCrypto env) = Inl cause)
             \<or> x = NewConnectionError msg (Some cause))"
proof (cases e)
  case (Some x)
  then show ?thesis using assms
    by (auto simp: quic_Listen_def tlsConfig_def open_socket_def close_socket_def Let_def
        split: sum.splits option.splits if_splits)
next
  case None
  obtain cs where cs: "resolveCodecs (qcfg q) = Inr cs"
    using assms None by (auto simp: quic_Listen_def split: sum.splits)
  have all: "ALPN (qcfg q) \<noteq> []" "\<forall>a \<in> set (ALPN (qcfg q)). map_of cs a \<noteq> None"
    using resolveCodecs_total [of "qcfg q"] cs by auto
  obtain conf where conf: "tlsConfig (envCrypto env) (qcfg q) = Inr conf"
    using assms None cs by (auto simp: quic_Listen_def split: sum.splits)
  obtain l where l: "quicLn q' = Some l" "udpOpen q'" and n: "openSockets q' = openSockets q + 1"
    using assms None cs conf
    by (auto simp: quic_Listen_def open_socket_def Let_def split: sum.splits option.splits)
  have "openSockets (snd (quic_closeListener q')) = openSockets q"
    using l n by (simp add: quic_closeListener_def close_socket_def Let_def split: prod.split)
  moreover have "NextProtos conf \<noteq> []" using conf all(1) by (auto simp: tlsConfig_def split: option.splits sum.splits if_splits)
  moreover have "MinVersion conf = VersionTLS13 \<and> NextProtos conf = ALPN (qcfg q)
      \<and> (\<exists>x. Certificates conf = [x] \<and> GenerateKey (envCrypto env) = Inr (PrivateKey x))"
    if "TLSConfig (qcfg q) = None"
    using conf that selfSignedCert_signed by (auto simp: tlsConfig_def split: sum.splits)
  ultimately show ?thesis using assms None cs conf all(2) n
    by (auto simp: quic_Listen_def Let_def open_socket_def split: sum.splits option.splits)
qed

theorem quic_listen_outcome_witness:
  "quic_Listen \<lparr>envCrypto = sample_crypto, resolveAddr = Inr, listenUDP = (\<lambda>_. None),
      trListen = (\<lambda>_ _. Inl EOF)\<rparr> sample_quic
    = (Some (NewConnectionError ''failed to start QUIC listener'' (Some EOF)), sample_quic)"
proof -
  let ?env = "\<lparr>envCrypto = sample_crypto, resolveAddr = Inr, listenUDP = (\<lambda>_. None),
      trListen = (\<lambda>_ _. Inl EOF)\<rparr>"
  have l: "quicLn sample_quic = None" by (simp add: sample_quic_def)
  obtain r where "resolveCodecs (qcfg sample_quic) = Inr r"
    using resolve_default by (auto simp: sample_quic_def)
  then obtain q' where q': "quic_Listen ?env sample_quic
      = (Some (NewConnectionError ''failed to start QUIC listener'' (Some EOF)), q')"
    by (simp add: quic_Listen_def sample_quic_def tlsConfig_def defaultQUICConfig_def)
  then show ?thesis using quic_listen_outcome [OF l q'] by auto
qed

section \<open>One connection\<close>

text \<open>
  handleConn gives a connection that opened a stream the codec of its negotiated protocol
  (the default protocol's if that has none), limits its messages by MaxLength and by what the
  codec can carry, and registers the session. Without a stream or a codec it closes the
  connection with the protocol error code, gives the slot back and leaves the wait group.
\<close>

theorem handleConn_outcome:
  assumes "quic_handleConn c conn uid now q = (res, q')"
  shows "(case (qStream conn, choose_codec (codecs q) (qProtocol conn)) of
      (Inr strm, Some cd) \<Rightarrow> res = Some (length (quicSessions q))
        \<and> streamCodec (fst (last (quicSessions q'))) = cd
        \<and> maxMessage (fst (last (quicSessions q'))) = min (uint (MaxLength (cfg (quicBase q)))) (MaxPayload cd)
        \<and> GetSession (qRemote conn) (quicBase q') = res \<and> active (quicBase q') = active (quicBase q)
        \<and> connCloses q' = connCloses q
    | _ \<Rightarrow> res = None \<and> quicSessions q' = quicSessions q \<and> byAddr (quicBase q') = byAddr (quicBase q)
        \<and> active (quicBase q') = active (quicBase q) - 1 \<and> wg (quicBase q') = wg (quicBase q) - 1
        \<and> (\<exists>msg. connCloses q' = connCloses q @ [(qRemote conn, quicCodeProtocol, msg)]))"
  using assms
  by (auto simp: quic_handleConn_def conn_close_def wg_Done_def release_def add_def GetSession_def
      quic_transport_def stream_on_def Let_def split: sum.splits option.splits)

definition sample_stream :: net_conn where
  "sample_stream = \<lparr>remoteAddr = ''a'', incoming = [[65, 0, 1], [10, 10, 10]], incomingEnd = FaultEOF,
     connReadDeadline = (\<lambda>_. None), connWriteDeadline = (\<lambda>_. None), connClock = int,
     connWrite = (\<lambda>_ b. (length b, None)), connGrown = (\<lambda>c n. max c n)\<rparr>"

theorem handleConn_outcome_witness:
  "\<exists>res q'. quic_handleConn None \<lparr>qRemote = ''a'', qStream = Inr sample_stream, qProtocol = ''x''\<rparr>
      ''u'' 0 sample_quic = (res, q') \<and> streamCodec (fst (last (quicSessions q'))) = Legacy
    \<and> maxMessage (fst (last (quicSessions q'))) = 65535"
proof -
  obtain res q' where h: "quic_handleConn None
      \<lparr>qRemote = ''a'', qStream = Inr sample_stream, qProtocol = ''x''\<rparr> ''u'' 0 sample_quic = (res, q')"
    by (metis surj_pair)
  have "choose_codec (codecs sample_quic) ''x'' = Some Legacy"
    by (simp add: choose_codec_def sample_quic_def DefaultALPN_def)
  then show ?thesis using handleConn_outcome [OF h] h
    by (simp add: sample_quic_def newServer_def defaultConfig_def defaultMaxLength_def Legacy_def MaxUint16_def)
qed

text \<open>
  A QUIC session with the Legacy codec yields exactly the messages its client framed, in
  order and however the stream is cut into pieces, if none is longer than MaxLength and 65535
  bytes and none contains a frame of its own; then the session ends.
\<close>

theorem quic_legacy_yields:
  assumes "[] \<notin> set (incoming strm)"
    and "concat (incoming strm) = concat (map (legacy_frame delim) ms)" and "delim \<noteq> []"
    and "\<forall>m \<in> set ms. m \<noteq> [] \<and> int (length m) \<le> uint (MaxLength config) \<and> length m \<le> MaxUint16
      \<and> unambiguous delim m"
    and "incomingEnd strm = FaultEOF" and "\<not> closeOnce s" and "length clocks = Suc (length ms)"
  shows "\<exists>t' s'. Messages streamTransport (map (\<lambda>now. (now, True)) clocks)
      (quic_transport config (legacy_codec delim) strm, s) = (ms, (t', s'), True)
    \<and> ctx s' = cancel ErrSessionClosed (ctx s)"
proof -
  let ?t = "quic_transport config (legacy_codec delim) strm"
  have fits: "\<forall>m \<in> set ms. legacy_fits delim (min (uint (MaxLength config)) (int MaxUint16)) m"
    using assms(3,4) by (auto simp: legacy_fits_def)
  have h: "holds_frames (legacy_codec delim) (legacy_frame delim) (legacy_fits delim) ms ?t"
    unfolding quic_transport_def codec_fields using assms(1,2) fits
    by (intro stream_on_holds) (auto simp: MaxUint16_def)
  have "fault_err (final (streamReader ?t)) = EOF"
    using assms(5) by (simp add: quic_transport_def stream_on_def newReader_def)
  then show ?thesis
    using legacy_c.stream_source.Messages_all [OF h assms(7,6)] by (auto simp: readCause_def)
qed

theorem quic_legacy_yields_witness:
  "\<exists>t' s'. Messages streamTransport (map (\<lambda>now. (now, True)) [1, 2])
      (quic_transport defaultConfig (legacy_codec DefaultDelimiter) sample_stream,
       newSession None ''a'' defaultConfig True ''u'' 0) = ([[65]], (t', s'), True)
    \<and> ctx s' = cancel ErrSessionClosed None"
proof -
  have s: "[] \<notin> set (incoming sample_stream)" "incomingEnd sample_stream = FaultEOF"
    "concat (incoming sample_stream) = concat (map (legacy_frame DefaultDelimiter) [[65]])"
    by (simp_all add: sample_stream_def legacy_frame_def put_uint16_def DefaultDelimiter_def)
  have m: "\<forall>m \<in> set [[65 :: byte]]. m \<noteq> [] \<and> int (length m) \<le> uint (MaxLength defaultConfig)
      \<and> length m \<le> MaxUint16 \<and> unambiguous DefaultDelimiter m"
    using unambiguous_A by (simp add: defaultConfig_def defaultMaxLength_def MaxUint16_def)
  have d: "DefaultDelimiter \<noteq> []" by (simp add: DefaultDelimiter_def)
  show ?thesis
    using quic_legacy_yields [OF s(1,3) d m s(2), of "newSession None ''a'' defaultConfig True ''u'' 0" "[1, 2]"]
    unfolding newSession_fields by (metis length_Cons list.size(3))
qed

section \<open>Oversized messages\<close>

text \<open>
  C40. SendToClient checks a message against MaxLength only, not against what the session's
  codec can carry: under Legacy a message of more than 65535 bytes and at most MaxLength is
  accepted with nil, and then no message of its batch reaches the client: the write fails
  before a byte is written, and that failure closes the session.
\<close>

theorem legacy_oversize_loses_batch:
  assumes "MaxUint16 < length m" and "int (length m) \<le> maxLen s" and "ctx s = None"
    and "length (out s) < outCap s" and "streamCodec t = legacy_codec delim" and "m \<in> set batch"
  shows "fst (SendToClient m s) = Sent \<and> (\<exists>e. stream_writeMessages batch t = (Some e, t))"
proof -
  have "\<exists>b e. append_all (legacy_codec delim) buf ms = (b, Some e)" if "m \<in> set ms" for buf ms
    using that
  proof (induction ms arbitrary: buf)
    case (Cons x xs)
    then show ?case
      using assms(1) by (cases "MaxUint16 < length x") (auto simp: legacy_append_def)
  qed simp
  then obtain b e where "append_all (streamCodec t) [] batch = (b, Some e)" using assms(5,6) by metis
  then show ?thesis using assms(2,3,4) writeMessages_encode_error by (auto simp: SendToClient_def)
qed

theorem legacy_oversize_loses_batch_witness:
  "\<exists>e. stream_writeMessages [[1], replicate 65536 0]
      (quic_transport defaultConfig Legacy sample_stream)
    = (Some e, quic_transport defaultConfig Legacy sample_stream)"
proof -
  let ?m = "replicate 65536 (0 :: byte)" and ?s = "newSession None ''a'' defaultConfig True ''u'' 0"
  let ?t = "quic_transport defaultConfig Legacy sample_stream"
  have 1: "MaxUint16 < length ?m" by (simp add: MaxUint16_def)
  have 2: "int (length ?m) \<le> maxLen ?s" by (simp add: defaultConfig_def defaultMaxLength_def)
  have 3: "ctx ?s = None" "length (out ?s) < outCap ?s" by simp_all
  have 4: "streamCodec ?t = legacy_codec DefaultDelimiter"
    by (simp add: quic_transport_def stream_on_def Legacy_def)
  show ?thesis using legacy_oversize_loses_batch [OF 1 2 3 4, of "[[1], ?m]"] by simp
qed

end
