(* ===== verification/Gophersocks.thy ===== *)
theory Gophersocks
  imports Tcp Udp WebSocket Quic Client
begin

text \<open>
  \<^verbatim>\<open>listener.go\<close>, the constructors of the top-level package, with the result type they have:
  a \<^verbatim>\<open>Listener\<close> interface value and an error.
\<close>

text \<open>
  An interface value is nil or carries a concrete type. \<^verbatim>\<open>listener.NewTCP\<close> and
  \<^verbatim>\<open>listener.NewWebSocket\<close> return pointers, so a nil pointer they return becomes a non-nil
  interface, here \<open>TCPListener None\<close>; \<^verbatim>\<open>NewUDP\<close> and \<^verbatim>\<open>NewQUIC\<close> return the interface itself.
\<close>

datatype listener_iface =
    NilListener
  | TCPListener "tcp_server option"
  | WebSocketListener "ws_server option"
  | UDPListener udp_server
  | QUICListener quic_server

definition is_nil :: "listener_iface \<Rightarrow> bool" where
  "is_nil l \<longleftrightarrow> l = NilListener"

definition NewTCPListenerWithContext ::
    "string \<Rightarrow> 16 word \<Rightarrow> err option \<Rightarrow> server_option list \<Rightarrow> listener_iface \<times> err option" where
  "NewTCPListenerWithContext host port parent opts =
     (case NewTCP host port parent (toListenerOptions opts) of
        Inl e \<Rightarrow> (TCPListener None, Some e) | Inr s \<Rightarrow> (TCPListener (Some s), None))"

definition NewWebSocketListenerWithContext ::
    "string \<Rightarrow> 16 word \<Rightarrow> err option \<Rightarrow> server_option list \<Rightarrow> listener_iface \<times> err option" where
  "NewWebSocketListenerWithContext host port parent opts =
     (case NewWebSocket host port parent (toListenerOptions opts) of
        Inl e \<Rightarrow> (WebSocketListener None, Some e) | Inr s \<Rightarrow> (WebSocketListener (Some s), None))"

definition NewUDPListenerWithContext ::
    "string \<Rightarrow> 16 word \<Rightarrow> err option \<Rightarrow> server_option list \<Rightarrow> listener_iface \<times> err option" where
  "NewUDPListenerWithContext host port parent opts =
     (case NewUDP host port parent (toListenerOptions opts) of
        Inl e \<Rightarrow> (NilListener, Some e) | Inr s \<Rightarrow> (UDPListener s, None))"

definition NewQUICListenerWithContext ::
    "string \<Rightarrow> 16 word \<Rightarrow> err option \<Rightarrow> server_option list \<Rightarrow> listener_iface \<times> err option" where
  "NewQUICListenerWithContext host port parent opts =
     (case NewQUIC host port parent (toListenerOptions opts) of
        Inl e \<Rightarrow> (NilListener, Some e) | Inr s \<Rightarrow> (QUICListener s, None))"

text \<open>\<^verbatim>\<open>context.Background\<close> never ends.\<close>

definition NewTCPListener :: "string \<Rightarrow> 16 word \<Rightarrow> server_option list \<Rightarrow> listener_iface \<times> err option" where
  "NewTCPListener host port opts = NewTCPListenerWithContext host port None opts"

definition NewWebSocketListener :: "string \<Rightarrow> 16 word \<Rightarrow> server_option list \<Rightarrow> listener_iface \<times> err option" where
  "NewWebSocketListener host port opts = NewWebSocketListenerWithContext host port None opts"

definition NewUDPListener :: "string \<Rightarrow> 16 word \<Rightarrow> server_option list \<Rightarrow> listener_iface \<times> err option" where
  "NewUDPListener host port opts = NewUDPListenerWithContext host port None opts"

definition NewQUICListener :: "string \<Rightarrow> 16 word \<Rightarrow> server_option list \<Rightarrow> listener_iface \<times> err option" where
  "NewQUICListener host port opts = NewQUICListenerWithContext host port None opts"

section \<open>Options and validation\<close>

definition quic_base_config :: server_config where
  "quic_base_config = defaultConfig\<lparr>ProtocolConfig := QUICConfig defaultQUICConfig\<rparr>"

text \<open>
  C30. Each constructor succeeds exactly when the options leave the configuration valid, a WebSocket
  server's with WebSocket settings, and then holds a new server with that configuration, the
  given context and the given address. When it fails it reports an error, and NewUDPListener and
  NewQUICListener return a nil Listener with it; NewTCPListener and NewWebSocketListener return
  a Listener that is not nil but holds a nil pointer, so the usual nil test on it does not see
  the failure.
\<close>

theorem constructors_outcome:
  "(case NewTCPListenerWithContext host port parent opts of (l, e) \<Rightarrow>
      let c = apply_options opts defaultConfig in
      if valid_config c
      then e = None \<and> (\<exists>t. l = TCPListener (Some t) \<and> tcpBase t = newServer parent c \<and> tcpAddr t = hostPort host port)
      else e \<noteq> None \<and> l = TCPListener None \<and> \<not> is_nil l)
   \<and> (case NewWebSocketListenerWithContext host port parent opts of (l, e) \<Rightarrow>
      let c = apply_options opts defaultConfig in
      if valid_config c \<and> is_websocket c
      then e = None \<and> (\<exists>w. l = WebSocketListener (Some w) \<and> wsBase w = newServer parent c \<and> wsAddr w = hostPort host port)
      else e \<noteq> None \<and> l = WebSocketListener None \<and> \<not> is_nil l)
   \<and> (case NewUDPListenerWithContext host port parent opts of (l, e) \<Rightarrow>
      let c = apply_options opts defaultConfig in
      if valid_config c
      then e = None \<and> (\<exists>u. l = UDPListener u \<and> udpBase u = newServer parent c \<and> udpAddr u = hostPort host port)
      else e \<noteq> None \<and> is_nil l)
   \<and> (case NewQUICListenerWithContext host port parent opts of (l, e) \<Rightarrow>
      let c = apply_options opts quic_base_config in
      if valid_config c
      then e = None \<and> (\<exists>q. l = QUICListener q \<and> quicBase q = newServer parent c \<and> quicAddr q = hostPort host port)
      else e \<noteq> None \<and> is_nil l)
   \<and> valid_config defaultConfig \<and> is_websocket defaultConfig"
proof -
  have dflt: "valid_config defaultConfig" "is_websocket defaultConfig"
    by (simp_all add: valid_config_def is_websocket_def defaultConfig_def defaultMaxLength_def Second_def)
  note defs = toListenerOptions_id Let_def ValidateConfig_None [symmetric] quic_base_config_def is_websocket_def
    is_nil_def
  show ?thesis
    unfolding NewTCPListenerWithContext_def NewTCP_def NewUDPListenerWithContext_def NewUDP_def
      NewQUICListenerWithContext_def NewQUIC_def NewWebSocketListenerWithContext_def NewWebSocket_def
    using dflt
    by (intro conjI) (auto simp: defs split: option.splits protocol_config.splits)
qed

lemma constructor_examples:
  "\<exists>e. NewTCPListener ''h'' 80 [WithMaxConnections 0] = (TCPListener None, Some e)"
  "\<exists>t. NewTCPListener ''h'' 80 [] = (TCPListener (Some t), None)"
  by (simp_all add: NewTCPListener_def NewTCPListenerWithContext_def NewTCP_def toListenerOptions_id
      ValidateConfig_def WithMaxConnections_def defaultConfig_def defaultMaxLength_def Second_def Let_def)

text \<open>
  Two servers whose address strings are equal have the same port: hostPort writes the port
  so that it can be read back, whatever the host string is.
\<close>

theorem hostPort_determines_port:
  assumes "NewTCP h p parent opts = Inr s" and "NewTCP h' p' parent' opts' = Inr s'"
    and "tcpAddr s = tcpAddr s'"
  shows "p = p'"
proof -
  have "tcpAddr s = hostPort h p" "tcpAddr s' = hostPort h' p'"
    using assms(1,2) by (auto simp: NewTCP_def Let_def split: option.splits)
  then show ?thesis using assms(3) hostPort_port_unique by metis
qed

theorem hostPort_determines_port_witness:
  "\<exists>s. NewTCP ''[::1]'' 80 None [] = Inr s \<and> (80 :: 16 word) = 80"
proof -
  obtain s where s: "NewTCP ''[::1]'' 80 None [] = Inr s"
    by (simp add: NewTCP_def ValidateConfig_def defaultConfig_def defaultMaxLength_def Second_def)
  from hostPort_determines_port [OF s s refl] s show ?thesis by blast
qed

end
