(* ===== verification/Interfaces.thy ===== *)
theory Interfaces
  imports Gophersocks
begin

text \<open>
  \<^verbatim>\<open>listener/interfaces.go\<close>: the methods of the \<^verbatim>\<open>Listener\<close> interface, dispatched to the server an
  interface value holds. \<open>None\<close> is a panic: of a call on a nil interface or through a nil pointer,
  or of \<^verbatim>\<open>HandleFunc\<close> in the Serve of a WebSocket server. \<^verbatim>\<open>Session\<close> has one implementation, \<open>Session\<close>.
\<close>

text \<open>What the methods ask of the operating system and of the libraries.\<close>

record net_env =
  envListen :: "string \<Rightarrow> err + net_listener"
  envResolveUDP :: "string \<Rightarrow> err + string"
  envListenUDP :: "string \<Rightarrow> err + net_listener"
  envHttpClose :: "err option"
  envHttpServed :: "err option"
  envMux :: serve_mux
  envServerClosed :: "err \<Rightarrow> bool"
  envQuic :: quic_env

text \<open>
  What happens to a Serve call: what Accept, the socket or the HTTP server give it, and for the
  latter the cause of Serve's context at its end.
\<close>

record serve_input =
  inAccepts :: "accept_event list"
  inDatagrams :: "udp_event list"
  inRequests :: "ws_event list"
  inConns :: "quic_event list"
  inServedCtx :: "err option"

fun iface_Listen :: "net_env \<Rightarrow> listener_iface \<Rightarrow> (err option \<times> listener_iface) option" where
  "iface_Listen env (TCPListener (Some t)) =
     Some (case tcp_Listen (envListen env) t of (e, t') \<Rightarrow> (e, TCPListener (Some t')))"
| "iface_Listen env (WebSocketListener (Some w)) =
     Some (case ws_Listen (envListen env) w of (e, w') \<Rightarrow> (e, WebSocketListener (Some w')))"
| "iface_Listen env (UDPListener u) =
     Some (case udp_Listen (envResolveUDP env) (envListenUDP env) u of (e, u') \<Rightarrow> (e, UDPListener u'))"
| "iface_Listen env (QUICListener q) =
     Some (case quic_Listen (envQuic env) q of (e, q') \<Rightarrow> (e, QUICListener q'))"
| "iface_Listen env _ = None"

fun iface_StartListener :: "net_env \<Rightarrow> listener_iface \<Rightarrow> (err option \<times> bool \<times> listener_iface) option" where
  "iface_StartListener env (TCPListener (Some t)) =
     Some (case tcp_StartListener (envListen env) t of (e, b, t') \<Rightarrow> (e, b, TCPListener (Some t')))"
| "iface_StartListener env (WebSocketListener (Some w)) =
     Some (case ws_StartListener (envListen env) w of (e, b, w') \<Rightarrow> (e, b, WebSocketListener (Some w')))"
| "iface_StartListener env (UDPListener u) =
     Some (case udp_StartListener (envResolveUDP env) (envListenUDP env) u of
       (e, b, u') \<Rightarrow> (e, b, UDPListener u'))"
| "iface_StartListener env (QUICListener q) =
     Some (case quic_StartListener (envQuic env) q of (e, b, q') \<Rightarrow> (e, b, QUICListener q'))"
| "iface_StartListener env _ = None"

fun iface_Serve :: "net_env \<Rightarrow> serve_input \<Rightarrow> listener_iface \<Rightarrow> (serve_result \<times> listener_iface) option" where
  "iface_Serve env i (TCPListener (Some t)) =
     Some (case tcp_Serve (envListen env) (inAccepts i) t of (r, t') \<Rightarrow> (r, TCPListener (Some t')))"
| "iface_Serve env i (WebSocketListener (Some w)) =
     (case ws_Serve (envListen env) (envMux env) (inRequests i) (envHttpServed env) (envServerClosed env) (inServedCtx i) w of
        (Some (RuntimePanic msg), w') \<Rightarrow> None
      | (e, w') \<Rightarrow> Some (ServeReturned e, WebSocketListener (Some w')))"
| "iface_Serve env i (UDPListener u) =
     Some (case udp_Serve (envResolveUDP env) (envListenUDP env) (inDatagrams i) u of
       (r, u') \<Rightarrow> (r, UDPListener u'))"
| "iface_Serve env i (QUICListener q) =
     Some (case quic_Serve (envQuic env) (inConns i) q of (r, q') \<Rightarrow> (r, QUICListener q'))"
| "iface_Serve env i _ = None"

fun iface_StopListener ::
    "net_env \<Rightarrow> session_ptr list \<Rightarrow> listener_iface \<Rightarrow> (err option \<times> listener_iface) option" where
  "iface_StopListener env order (TCPListener (Some t)) =
     Some (case tcp_StopListener order t of (e, t') \<Rightarrow> (e, TCPListener (Some t')))"
| "iface_StopListener env order (WebSocketListener (Some w)) =
     Some (case ws_StopListener (envHttpClose env) order w of (e, w') \<Rightarrow> (e, WebSocketListener (Some w')))"
| "iface_StopListener env order (UDPListener u) =
     Some (case udp_StopListener order u of (e, u') \<Rightarrow> (e, UDPListener u'))"
| "iface_StopListener env order (QUICListener q) =
     Some (case quic_StopListener order q of (e, q') \<Rightarrow> (e, QUICListener q'))"
| "iface_StopListener env order _ = None"

text \<open>The methods that every server has from the embedded \<^verbatim>\<open>server\<close>.\<close>

fun iface_server :: "listener_iface \<Rightarrow> server option" where
  "iface_server (TCPListener (Some t)) = Some (tcpBase t)"
| "iface_server (WebSocketListener (Some w)) = Some (wsBase w)"
| "iface_server (UDPListener u) = Some (udpBase u)"
| "iface_server (QUICListener q) = Some (quicBase q)"
| "iface_server _ = None"

fun iface_with_server :: "(server \<Rightarrow> server) \<Rightarrow> listener_iface \<Rightarrow> listener_iface option" where
  "iface_with_server f (TCPListener (Some t)) = Some (TCPListener (Some (t\<lparr>tcpBase := f (tcpBase t)\<rparr>)))"
| "iface_with_server f (WebSocketListener (Some w)) =
     Some (WebSocketListener (Some (w\<lparr>wsBase := f (wsBase w)\<rparr>)))"
| "iface_with_server f (UDPListener u) = Some (UDPListener (u\<lparr>udpBase := f (udpBase u)\<rparr>))"
| "iface_with_server f (QUICListener q) = Some (QUICListener (q\<lparr>quicBase := f (quicBase q)\<rparr>))"
| "iface_with_server f _ = None"

definition iface_SetAnnounceNewSession ::
    "announce_func option \<Rightarrow> string \<Rightarrow> listener_iface \<Rightarrow> listener_iface option" where
  "iface_SetAnnounceNewSession f opts l = iface_with_server (SetAnnounceNewSession f opts) l"

definition iface_GetActiveSessions :: "listener_iface \<Rightarrow> (string \<rightharpoonup> session_ptr) option" where
  "iface_GetActiveSessions l = map_option GetActiveSessions (iface_server l)"

definition iface_GetSession :: "string \<Rightarrow> listener_iface \<Rightarrow> session_ptr option option" where
  "iface_GetSession a l = map_option (GetSession a) (iface_server l)"

section \<open>Nil listeners\<close>

definition holds_server :: "listener_iface \<Rightarrow> bool" where
  "holds_server l \<longleftrightarrow> iface_server l \<noteq> None"

lemma no_server_cases: "\<not> holds_server l \<longleftrightarrow> l \<in> {NilListener, TCPListener None, WebSocketListener None}"
  by (cases l rule: iface_server.cases) (auto simp: holds_server_def)

text \<open>
  A failed \<^verbatim>\<open>NewTCPListener\<close> returns a value that passes the nil test and panics at the first method.
\<close>

lemma failed_constructor_panics:
  "\<exists>l e. NewTCPListener ''h'' 80 [WithMaxConnections 0] = (l, Some e) \<and> \<not> is_nil l
    \<and> \<not> holds_server l \<and> iface_StartListener env l = None"
  using constructor_examples(1) by (auto simp: is_nil_def holds_server_def)

end
