(* ===== verification/Echo.thy ===== *)
theory Echo
  imports TransportContract
begin

text \<open>
  The session handler of the example servers, which echoes every message: the lines it prints, its
  loop over a session, and what it does on any transport that reads and writes independently
  (the locale \<open>duplex_transport\<close>): everything received goes back, in order.
\<close>

section \<open>The handler\<close>

text \<open>
  What differs between the examples: the lines they print, the line at the end if any, and for UDP
  the age of the last message from which on the session is closed.
\<close>

record echo_words =
  lineReceived :: "string \<Rightarrow> string \<Rightarrow> bytes \<Rightarrow> string"
  lineFailed :: "string \<Rightarrow> err \<Rightarrow> string"
  lineEchoed :: "string \<Rightarrow> string"
  lineStale :: "string \<Rightarrow> string"
  lineClosed :: "string \<Rightarrow> string list"
  staleAfter :: "int option"

datatype echo_end = StillWaiting | RangeEnded | SendFailed err | ClosedStale

text \<open>
  \<^verbatim>\<open>SendToClient\<close> to its end. When the queue is full the writer goroutine runs: after its round there
  is room, or the write failed and closed the session, which ends the wait.
\<close>

definition send_waiting ::
    "'t transport \<Rightarrow> bytes \<Rightarrow> 't \<times> session \<Rightarrow> err option \<times> 't \<times> session" where
  "send_waiting tr d ts = (case ts of (t, s) \<Rightarrow>
     (case SendToClient d s of
        (Refuse e, s') \<Rightarrow> (Some e, t, s')
      | (Sent, s') \<Rightarrow> (None, t, s')
      | (MustWait, s') \<Rightarrow>
          (case writeRound tr (t, s') of
             (True, t1, s1) \<Rightarrow> (None, t1, s1\<lparr>out := out s1 @ [d]\<rparr>)
           | (False, t1, s1) \<Rightarrow> (Some (closed_error (close_cause (ctx s1))), t1, s1))))"

text \<open>
  \<^verbatim>\<open>handleSession\<close>, with the messages read one at a time. The list holds, for each message the
  handler asks for, the clock when it arrives and the clock after it was sent back.
\<close>

fun handleSession ::
    "echo_words \<Rightarrow> 't transport \<Rightarrow> (int \<times> int) list \<Rightarrow> 't \<times> session
      \<Rightarrow> string list \<times> echo_end \<times> 't \<times> session" where
  "handleSession w tr [] ts = ([], StillWaiting, ts)"
| "handleSession w tr ((now, later) # clocks) (t, s) =
     (case readMessage tr t of
        (Inl e, t') \<Rightarrow>
          (lineClosed w (GetSessionID s), RangeEnded, closeWith tr (Some (readCause e)) (t', s))
      | (Inr m, t') \<Rightarrow>
          let received = lineReceived w (GetSessionID s) (GetClientAddr s) m in
          (case send_waiting tr m (t', touch now s) of
             (Some e, ts') \<Rightarrow> ([received, lineFailed w (GetSessionID s) e], SendFailed e, ts')
           | (None, ts') \<Rightarrow>
               let echoed = lineEchoed w (GetSessionID s) in
               (case staleAfter w of
                  Some d \<Rightarrow>
                    if d < later - GetLastRecieved (snd ts')
                    then ([received, echoed, lineStale w (GetSessionID s)], ClosedStale, CloseSession tr ts')
                    else (case handleSession w tr clocks ts' of
                       (ls, r, ts'') \<Rightarrow> (received # echoed # ls, r, ts''))
                | None \<Rightarrow>
                    (case handleSession w tr clocks ts' of
                       (ls, r, ts'') \<Rightarrow> (received # echoed # ls, r, ts'')))))"

section \<open>What a sender leaves\<close>

lemma writeRound_session:
  assumes "writeRound tr (t, s) = (True, t', s')" and "out s \<noteq> []"
  shows "length (out s') < length (out s)" and "\<exists>q. s' = s\<lparr>out := q\<rparr>"
  using writeRound_shrinks [OF assms] assms(1)
  by (auto simp: writeRound_def split: list.splits prod.splits option.splits
      intro: exI [of _ "out s"])

text \<open>A live session with room for at least one message.\<close>

definition can_send :: "session \<Rightarrow> bool" where
  "can_send s \<longleftrightarrow> ctx s = None \<and> \<not> closeOnce s \<and> 0 < outCap s \<and> length (out s) \<le> outCap s"

lemma can_send_touch [simp]: "can_send (touch now s) = can_send s"
  by (simp add: can_send_def touch_def)

lemma touch_simps [simp]:
  "out (touch now s) = out s" "maxLen (touch now s) = maxLen s" "closeOnce (touch now s) = closeOnce s"
  "lastSeen (touch now s) = now"
  by (simp_all add: touch_def)

text \<open>A message that the handler finds too old once it has sent it back.\<close>

definition stale_clocks :: "echo_words \<Rightarrow> (int \<times> int) list \<Rightarrow> bool" where
  "stale_clocks w clocks \<longleftrightarrow> (\<exists>d. staleAfter w = Some d \<and> (\<exists>c \<in> set clocks. d < snd c - fst c))"

locale duplex_transport =
  writing_transport tr ok sent enc + reading_transport tr holds failure
  for tr :: "'t transport" and ok :: "'t \<Rightarrow> bool" and sent :: "'t \<Rightarrow> 'w list"
    and enc :: "'t \<Rightarrow> bytes \<Rightarrow> 'w list" and holds :: "bytes list \<Rightarrow> 't \<Rightarrow> bool" and failure :: "'t \<Rightarrow> err" +
  assumes read_quiet: "ok t \<Longrightarrow> readMessage tr t = (x, t') \<Longrightarrow> ok t' \<and> sent t' = sent t \<and> enc t' = enc t"
    and write_quiet: "holds ms t \<Longrightarrow> writeMessages tr b t = (None, t') \<Longrightarrow> holds ms t'"
begin

text \<open>Everything queued so far, on the wire or not yet.\<close>

definition outgoing :: "'t \<times> session \<Rightarrow> 'w list" where
  "outgoing ts = sent (fst ts) @ concat (map (enc (fst ts)) (out (snd ts)))"

lemma writeRound_holds:
  "holds ms t \<Longrightarrow> writeRound tr (t, s) = (True, t', s') \<Longrightarrow> holds ms t'"
  by (auto simp: writeRound_def dest: write_quiet split: list.splits prod.splits option.splits)

lemma send_waiting_ok:
  assumes "send_waiting tr d (t, s) = (None, t', s')" and "ok t" and "holds ms t" and "can_send s"
  shows "outgoing (t', s') = outgoing (t, s) @ enc t d \<and> ok t' \<and> holds ms t' \<and> can_send s'
    \<and> enc t' = enc t \<and> maxLen s' = maxLen s \<and> lastSeen s' = lastSeen s"
proof (cases "length (out s) < outCap s")
  case True
  then have "t' = t" "s' = s\<lparr>out := out s @ [d]\<rparr>"
    using assms(1,4) by (auto simp: send_waiting_def SendToClient_def can_send_def split: if_splits)
  then show ?thesis using assms(2-4) True by (simp add: outgoing_def can_send_def)
next
  case False
  then have full: "SendToClient d s = (MustWait, s)"
    using assms(1,4) by (auto simp: send_waiting_def SendToClient_def can_send_def split: if_splits)
  have ne: "out s \<noteq> []" using False assms(4) by (auto simp: can_send_def)
  obtain b t1 s1 where w: "writeRound tr (t, s) = (b, t1, s1)" by (metis surj_pair)
  have b: b and r: "t' = t1" "s' = s1\<lparr>out := out s1 @ [d]\<rparr>"
    using assms(1) full w by (auto simp: send_waiting_def split: bool.splits)
  obtain q where q: "s1 = s\<lparr>out := q\<rparr>" "length q < length (out s)"
    using writeRound_session [of tr t s t1 s1] w b ne by fastforce
  have "sent t @ concat (map (enc t) (out s)) = sent t1 @ concat (map (enc t) (out s1))
    \<and> ok t1 \<and> enc t1 = enc t"
    using writeRound_ok [OF assms(2), of s t1 s1] w b by simp
  moreover have "holds ms t1" using writeRound_holds [OF assms(3), of s t1 s1] w b by simp
  ultimately show ?thesis using r q assms(4) by (simp add: outgoing_def can_send_def)
qed

text \<open>
  A send of a message that is not too large fails only after a failed write closed the session; what
  went out is then a prefix of what was queued.
\<close>

lemma send_waiting_error:
  assumes "send_waiting tr d (t, s) = (Some e, t', s')" and "ok t" and "can_send s"
    and "int (length d) \<le> maxLen s"
  shows "closeOnce s'" and "\<exists>q. outgoing (t, s) = sent t' @ q"
proof -
  have full: "SendToClient d s = (MustWait, s)"
    using assms(1,3,4) by (auto simp: send_waiting_def SendToClient_def can_send_def split: if_splits)
  obtain b t1 s1 where w: "writeRound tr (t, s) = (b, t1, s1)" by (metis surj_pair)
  then have r: "\<not> b" "s' = s1" "t' = t1"
    using assms(1) full by (auto simp: send_waiting_def split: bool.splits)
  then have err: "(\<exists>p q. sent t1 = sent t @ p \<and> concat (map (enc t) (out s)) = p @ q) \<and> closeOnce s1"
    using writeRound_error [OF assms(2), of s t1 s1] w by simp
  then show "closeOnce s'" "\<exists>q. outgoing (t, s) = sent t' @ q" using r(2,3) by (auto simp: outgoing_def)
qed

text \<open>
  The handler sends back exactly what it read, or stops at the first send that fails or at the first
  message it finds too old after it was sent back; then the session is closed, and what went out
  is a prefix of what was to go.
\<close>

lemma handleSession_echoes:
  assumes "handleSession w tr clocks (t, s) = (ls, r, t', s')"
    and "ok t" and "holds (ms @ rest) t" and "can_send s" and "length clocks = length ms"
    and "\<forall>m \<in> set ms. int (length m) \<le> maxLen s"
  shows "(r = StillWaiting \<and> \<not> stale_clocks w clocks \<and> ok t' \<and> holds rest t' \<and> can_send s' \<and> enc t' = enc t
      \<and> outgoing (t', s') = outgoing (t, s) @ concat (map (enc t) ms))
    \<or> (((\<exists>e. r = SendFailed e) \<or> r = ClosedStale \<and> stale_clocks w clocks) \<and> closeOnce s'
      \<and> (\<exists>q. outgoing (t, s) @ concat (map (enc t) ms) = sent t' @ q))"
  using assms
proof (induction ms arbitrary: t s clocks ls)
  case Nil
  then show ?case by (simp add: stale_clocks_def)
next
  case (Cons m ms)
  obtain now later cl where cl: "clocks = (now, later) # cl" "length cl = length ms"
    using Cons.prems(5) by (cases clocks) auto
  obtain t1 where t1: "readMessage tr t = (Inr m, t1)" "holds (ms @ rest) t1"
    using read_next [of m "ms @ rest" t] Cons.prems(3) by auto
  have q: "ok t1" "sent t1 = sent t" "enc t1 = enc t" using read_quiet [OF Cons.prems(2) t1(1)] by auto
  obtain e t2 s2 where sw: "send_waiting tr m (t1, touch now s) = (e, t2, s2)" by (metis surj_pair)
  show ?case
  proof (cases e)
    case (Some x)
    obtain q' where "closeOnce s2" "outgoing (t1, touch now s) = sent t2 @ q'"
      using send_waiting_error [OF sw [unfolded Some] q(1)] Cons.prems(4,6) by auto
    moreover have "outgoing (t1, touch now s) = outgoing (t, s)" using q(2,3) by (simp add: outgoing_def)
    ultimately have "\<exists>q. outgoing (t, s) @ concat (map (enc t) (m # ms)) = sent t2 @ q" by simp
    moreover have "r = SendFailed x" "t' = t2" "s' = s2"
      using Cons.prems(1) cl(1) t1(1) sw Some by (auto simp: Let_def)
    ultimately show ?thesis using \<open>closeOnce s2\<close> by blast
  next
    case None
    have s2: "outgoing (t2, s2) = outgoing (t1, touch now s) @ enc t1 m" "ok t2" "holds (ms @ rest) t2"
      "can_send s2" "enc t2 = enc t1" "lastSeen s2 = now" "maxLen s2 = maxLen s"
      using send_waiting_ok [OF sw [unfolded None] q(1) t1(2)] Cons.prems(4) by auto
    have out2: "outgoing (t2, s2) = outgoing (t, s) @ enc t m" using s2(1) q(2,3) by (simp add: outgoing_def)
    show ?thesis
    proof (cases "\<exists>d. staleAfter w = Some d \<and> d < later - now")
      case True
      then have r: "r = ClosedStale" "(t', s') = CloseSession tr (t2, s2)"
        using Cons.prems(1) cl(1) t1(1) sw None s2(6) by (auto simp: Let_def GetLastRecieved_def)
      have "closeOnce s'" using r(2) closeWith_closed by (metis CloseSession_def snd_conv)
      moreover have "sent t' = sent t2" using r(2) closeWith_sent by (metis CloseSession_def fst_conv)
      moreover have "outgoing (t, s) @ concat (map (enc t) (m # ms))
          = sent t2 @ concat (map (enc t2) (out s2)) @ concat (map (enc t) ms)"
        using out2 by (simp add: outgoing_def)
      moreover have "stale_clocks w clocks" using True cl(1) by (auto simp: stale_clocks_def)
      ultimately show ?thesis using r(1) by metis
    next
      case False
      then obtain ls2 where h: "handleSession w tr cl (t2, s2) = (ls2, r, t', s')"
        using Cons.prems(1) cl(1) t1(1) sw None s2(6)
        by (auto simp: Let_def GetLastRecieved_def split: option.splits prod.splits if_splits)
      have st: "stale_clocks w clocks = stale_clocks w cl"
        using False cl(1) by (auto simp: stale_clocks_def)
      have "\<forall>m \<in> set ms. int (length m) \<le> maxLen s2" using Cons.prems(6) s2(7) by simp
      from Cons.IH [OF h s2(2,3,4) cl(2) this] show ?thesis
        using s2(5) q(3) out2 unfolding st by auto
    qed
  qed
qed

text \<open>With the writer's last rounds everything read is on the wire.\<close>

lemma echo_outcome:
  assumes "handleSession w tr clocks (t, s) = (ls, r, t1, s1)"
    and "ok t" and "holds ms t" and "can_send s" and "out s = []" and "length clocks = length ms"
    and "\<forall>m \<in> set ms. int (length m) \<le> maxLen s"
  shows "(r = StillWaiting \<and> \<not> stale_clocks w clocks \<and>
      (\<forall>t2 s2. drain tr (t1, s1) = (True, t2, s2) \<longrightarrow> sent t2 = sent t @ concat (map (enc t) ms)))
    \<or> (((\<exists>e. r = SendFailed e) \<or> r = ClosedStale \<and> stale_clocks w clocks) \<and> closeOnce s1
      \<and> (\<exists>q. sent t @ concat (map (enc t) ms) = sent t1 @ q))"
proof -
  have all: "holds (ms @ []) t" using assms(3) by simp
  have out: "outgoing (t, s) = sent t" using assms(5) by (simp add: outgoing_def)
  from handleSession_echoes [OF assms(1,2) all assms(4,6,7)] show ?thesis
  proof
    assume h: "r = StillWaiting \<and> \<not> stale_clocks w clocks \<and> ok t1 \<and> holds [] t1 \<and> can_send s1 \<and> enc t1 = enc t
      \<and> outgoing (t1, s1) = outgoing (t, s) @ concat (map (enc t) ms)"
    have "sent t2 = sent t @ concat (map (enc t) ms)" if "drain tr (t1, s1) = (True, t2, s2)" for t2 s2
      using h drain_ok [OF _ that] out by (auto simp: outgoing_def)
    then show ?thesis using h by blast
  qed (simp add: out)
qed

end

section \<open>On a connection that takes every write\<close>

text \<open>
  \<open>good t\<close>: writes of sendable messages succeed from here on. Then the handler is never stopped by
  a send, and the writer empties the queue: the echo completes.
\<close>

locale reliable_transport =
  duplex_transport tr ok sent enc holds failure
  for tr :: "'t transport" and ok :: "'t \<Rightarrow> bool" and sent :: "'t \<Rightarrow> 'w list"
    and enc :: "'t \<Rightarrow> bytes \<Rightarrow> 'w list" and holds :: "bytes list \<Rightarrow> 't \<Rightarrow> bool" and failure :: "'t \<Rightarrow> err" +
  fixes good :: "'t \<Rightarrow> bool"
    and sendable :: "bytes \<Rightarrow> bool"
  assumes good_ok: "good t \<Longrightarrow> ok t"
    and good_write: "good t \<Longrightarrow> \<forall>m \<in> set b. sendable m \<Longrightarrow>
      \<exists>t'. writeMessages tr b t = (None, t') \<and> good t'"
    and good_read: "good t \<Longrightarrow> readMessage tr t = (x, t') \<Longrightarrow> good t'"
begin

lemma writeRound_completes:
  assumes "good t" and "\<forall>m \<in> set (out s). sendable m"
  shows "\<exists>t' q. writeRound tr (t, s) = (True, t', s\<lparr>out := q\<rparr>) \<and> good t' \<and> set q \<subseteq> set (out s)"
proof (cases "out s")
  case Nil
  have "s\<lparr>out := []\<rparr> = s" using Nil by simp
  then show ?thesis using Nil assms(1)
    by (intro exI [of _ t] exI [of _ "[]"]) (simp add: writeRound_def)
next
  case (Cons m q)
  obtain b q' where fb: "fillBatch [m] q = (b, q')" by (cases "fillBatch [m] q") auto
  then have q: "b @ q' = out s" using Cons by (auto simp: fillBatch_eq maxBatch_def)
  then have "\<forall>m \<in> set b. sendable m" and sub: "set q' \<subseteq> set (out s)" using assms(2) by (auto simp flip: q)
  then obtain t' where "writeMessages tr b t = (None, t')" "good t'" using good_write [OF assms(1)] by blast
  then show ?thesis using Cons fb sub
    by (intro exI [of _ t'] exI [of _ q']) (simp add: writeRound_def)
qed

lemma drain_completes:
  "good t \<Longrightarrow> \<forall>m \<in> set (out s). sendable m \<Longrightarrow> \<exists>t' s'. drain tr (t, s) = (True, t', s')"
proof (induction "length (out s)" arbitrary: t s rule: less_induct)
  case less
  show ?case
  proof (cases "out s = []")
    case True
    then show ?thesis by (simp add: drain.simps)
  next
    case False
    obtain t1 q where w: "writeRound tr (t, s) = (True, t1, s\<lparr>out := q\<rparr>)" "good t1" "set q \<subseteq> set (out s)"
      using writeRound_completes [OF less.prems] by blast
    have "length (out (s\<lparr>out := q\<rparr>)) < length (out s)" using writeRound_shrinks [OF w(1) False] .
    then obtain t' s' where "drain tr (t1, s\<lparr>out := q\<rparr>) = (True, t', s')"
      using less.hyps [of "s\<lparr>out := q\<rparr>" t1] w(2,3) less.prems(2) by auto
    then show ?thesis using False w(1) by (subst drain.simps) simp
  qed
qed

lemma send_waiting_completes:
  assumes "good t" and "\<forall>m \<in> set (out s). sendable m" and "can_send s" and "int (length d) \<le> maxLen s"
  shows "\<exists>t' s'. send_waiting tr d (t, s) = (None, t', s') \<and> good t' \<and> set (out s') \<subseteq> set (out s) \<union> {d}"
proof (cases "length (out s) < outCap s")
  case True
  then show ?thesis using assms by (auto simp: send_waiting_def SendToClient_def can_send_def)
next
  case False
  then have "SendToClient d s = (MustWait, s)"
    using assms(3,4) by (auto simp: SendToClient_def can_send_def)
  moreover obtain t1 q where "writeRound tr (t, s) = (True, t1, s\<lparr>out := q\<rparr>)" "good t1"
    "set q \<subseteq> set (out s)"
    using writeRound_completes [OF assms(1,2)] by blast
  ultimately show ?thesis by (auto simp: send_waiting_def)
qed

lemma handleSession_completes:
  assumes "good t" and "\<forall>m \<in> set (out s). sendable m" and "holds (ms @ rest) t" and "can_send s"
    and "length clocks = length ms" and "\<forall>m \<in> set ms. sendable m \<and> int (length m) \<le> maxLen s"
    and "\<forall>d. staleAfter w = Some d \<longrightarrow> (\<forall>(now, later) \<in> set clocks. later - now \<le> d)"
  shows "\<exists>ls t1 s1. handleSession w tr clocks (t, s) = (ls, StillWaiting, t1, s1) \<and> good t1
    \<and> (\<forall>m \<in> set (out s1). sendable m)"
  using assms
proof (induction ms arbitrary: t s clocks)
  case Nil
  then show ?case by simp
next
  case (Cons m ms)
  obtain now later cl where cl: "clocks = (now, later) # cl" "length cl = length ms"
    using Cons.prems(5) by (cases clocks) auto
  obtain t1 where t1: "readMessage tr t = (Inr m, t1)" "holds (ms @ rest) t1"
    using read_next [of m "ms @ rest" t] Cons.prems(3) by auto
  have g1: "good t1" using good_read [OF Cons.prems(1) t1(1)] .
  obtain t2 s2 where sw: "send_waiting tr m (t1, touch now s) = (None, t2, s2)" "good t2"
    "set (out s2) \<subseteq> set (out s) \<union> {m}"
    using send_waiting_completes [OF g1, of "touch now s" m] Cons.prems(2,4,6) by auto
  have s2: "holds (ms @ rest) t2" "can_send s2" "maxLen s2 = maxLen s" "lastSeen s2 = now"
    using send_waiting_ok [OF sw(1) good_ok [OF g1] t1(2)] Cons.prems(4) by auto
  have "\<forall>m \<in> set (out s2). sendable m" using sw(3) Cons.prems(2,6) by auto
  then obtain ls t3 s3 where h: "handleSession w tr cl (t2, s2) = (ls, StillWaiting, t3, s3)" "good t3"
    "\<forall>m \<in> set (out s3). sendable m"
    using Cons.IH [OF sw(2) _ s2(1,2) cl(2)] Cons.prems(6,7) s2(3) cl(1) by auto
  have "later - now \<le> d" if "staleAfter w = Some d" for d using Cons.prems(7) cl(1) that by auto
  then show ?case using h cl(1) t1(1) sw(1) s2(4)
    by (auto simp: Let_def GetLastRecieved_def split: option.splits)
qed

lemma echo_completes:
  assumes "good t" and "holds ms t" and "can_send s" and "out s = []" and "length clocks = length ms"
    and "\<forall>m \<in> set ms. sendable m \<and> int (length m) \<le> maxLen s"
    and "\<forall>d. staleAfter w = Some d \<longrightarrow> (\<forall>(now, later) \<in> set clocks. later - now \<le> d)"
  shows "\<exists>ls t1 s1 t2 s2. handleSession w tr clocks (t, s) = (ls, StillWaiting, t1, s1)
    \<and> drain tr (t1, s1) = (True, t2, s2) \<and> sent t2 = sent t @ concat (map (enc t) ms)"
proof -
  obtain ls t1 s1 where h: "handleSession w tr clocks (t, s) = (ls, StillWaiting, t1, s1)" "good t1"
    "\<forall>m \<in> set (out s1). sendable m"
    using handleSession_completes [OF assms(1) _ _ assms(3,5-7), of "[]"] assms(2,4) by auto
  obtain t2 s2 where d: "drain tr (t1, s1) = (True, t2, s2)" using drain_completes [OF h(2,3)] by blast
  show ?thesis
    using h(1) d echo_outcome [OF h(1) good_ok [OF assms(1)] assms(2-5)] assms(6) by blast
qed

end

end
