(* ===== verification/Examples.thy ===== *)
theory Examples
  imports Interfaces Echo
begin

text \<open>
  The programs under \<^verbatim>\<open>src/example\<close>: four echo servers and two clients. A program is a function from
  what the environment does to what it prints and how it ends; lines are printed without their
  newline. \<open>Echo\<close> has the session handler that the servers share.
\<close>

section \<open>What a program does\<close>

text \<open>
  \<open>MainReturns\<close> ends the process, with every goroutine; \<open>BlocksForever\<close> is \<^verbatim>\<open>select {}\<close> or a read that
  nothing ends.
\<close>

datatype outcome = Exits nat | MainReturns | BlocksForever | Panics

definition bytes_text :: "bytes \<Rightarrow> string" where
  "bytes_text b = map (\<lambda>x. char_of (unat x)) b"

definition text_bytes :: "string \<Rightarrow> bytes" where
  "text_bytes s = map (\<lambda>c. word_of_nat (of_char c)) s"

text \<open>The callback the servers announce sessions with; it starts the handler.\<close>

definition handle_new_session :: announce_func where
  "handle_new_session = 1"

text \<open>The part the four mains share, after the listener was created.\<close>

definition run_listener ::
    "string \<Rightarrow> outcome \<Rightarrow> (err \<Rightarrow> string list) \<Rightarrow> outcome \<Rightarrow> net_env \<Rightarrow> listener_iface
      \<Rightarrow> string list \<times> outcome \<times> listener_iface" where
  "run_listener starting ends failed_lines failed env l =
     (case iface_SetAnnounceNewSession (Some handle_new_session) [] l of
        None \<Rightarrow> ([], Panics, l)
      | Some l1 \<Rightarrow>
          (case iface_StartListener env l1 of
             None \<Rightarrow> ([starting], Panics, l1)
           | Some (Some e, b, l2) \<Rightarrow> (starting # failed_lines e, failed, l2)
           | Some (None, b, l2) \<Rightarrow> ([starting], ends, l2)))"

definition start_failed :: "err \<Rightarrow> string list" where
  "start_failed e = [''Failed to start listener: '' @ error_text e]"

section \<open>The TCP server\<close>

definition tcp_options :: "server_option list" where
  "tcp_options = [gs_WithMaxLength (1024 * 1024), gs_WithBufferSize 100,
     gs_WithTimeouts (30 * Second) (30 * Second), gs_WithMaxConnections 1000]"

definition tcp_main :: "net_env \<Rightarrow> string list \<times> outcome \<times> listener_iface" where
  "tcp_main env =
     (case NewTCPListener ''0.0.0.0'' 8001 tcp_options of
        (l, Some e) \<Rightarrow> ([''Failed to create TCP listener: '' @ error_text e], Exits 1, l)
      | (l, None) \<Rightarrow>
          run_listener ''Starting TCP listener on 0.0.0.0:8001'' MainReturns start_failed (Exits 1) env l)"

definition tcp_words :: echo_words where
  "tcp_words = \<lparr>
     lineReceived = (\<lambda>i a d. ''Received data from session '' @ i @ '' ('' @ a @ ''): '' @ bytes_text d),
     lineFailed = (\<lambda>i e. ''Failed to send data to session '' @ i @ '': '' @ error_text e),
     lineEchoed = (\<lambda>i. ''Echoed data back to session '' @ i), lineStale = (\<lambda>i. []),
     lineClosed = (\<lambda>i. [''Session '' @ i @ '' closed'']), staleAfter = None\<rparr>"

definition tcp_handleNewSession :: "session \<Rightarrow> string" where
  "tcp_handleNewSession s =
     ''New TCP connection from '' @ GetClientAddr s @ '' - Session ID: '' @ GetSessionID s"

text \<open>
  \<^verbatim>\<open>handleShutdown\<close>, the same in three of the servers: \<open>in_time\<close> says whether StopListener returned
  within ten seconds. The listener is left as \<^verbatim>\<open>stop\<close> leaves it before its wait.
\<close>

definition handleShutdown ::
    "net_env \<Rightarrow> session_ptr list \<Rightarrow> string \<Rightarrow> bool \<Rightarrow> listener_iface \<Rightarrow> (string list \<times> listener_iface) option" where
  "handleShutdown env order sig in_time l =
     (case iface_StopListener env order l of
        None \<Rightarrow> None
      | Some (e, l') \<Rightarrow> Some
          ([[], ''Received signal: '' @ sig @ '', initiating graceful shutdown...''] @
           (if in_time
            then (case e of None \<Rightarrow> [] | Some x \<Rightarrow> [''Error during shutdown: '' @ error_text x]) @
              [''Server shutdown complete'']
            else [''Server shutdown timed out'']), l'))"

section \<open>The UDP server\<close>

definition udp_options :: "server_option list" where
  "udp_options = [gs_WithMaxLength 65507, gs_WithBufferSize 1000,
     gs_WithTimeouts (60 * Second) (60 * Second), gs_WithMaxConnections 1000]"

definition udp_main :: "net_env \<Rightarrow> string list \<times> outcome \<times> listener_iface" where
  "udp_main env =
     (case NewUDPListener ''0.0.0.0'' 8002 udp_options of
        (l, Some e) \<Rightarrow> ([''Failed to create UDP listener: '' @ error_text e], Exits 1, l)
      | (l, None) \<Rightarrow>
          run_listener ''Starting UDP listener on 0.0.0.0:8002'' BlocksForever start_failed (Exits 1) env l)"

definition udp_words :: echo_words where
  "udp_words = \<lparr>
     lineReceived = (\<lambda>i a d. ''Received datagram from session '' @ i @ '' ('' @ a @ ''): '' @ bytes_text d),
     lineFailed = (\<lambda>i e. ''Failed to send datagram to session '' @ i @ '': '' @ error_text e),
     lineEchoed = (\<lambda>i. ''Echoed datagram back to session '' @ i),
     lineStale = (\<lambda>i. ''Session '' @ i @ '' idle for too long, closing''),
     lineClosed = (\<lambda>i. [''Session '' @ i @ '' closed'']), staleAfter = Some (60 * Second)\<rparr>"

definition udp_handleShutdown ::
    "net_env \<Rightarrow> session_ptr list \<Rightarrow> string \<Rightarrow> bool \<Rightarrow> listener_iface \<Rightarrow> (string list \<times> listener_iface) option" where
  "udp_handleShutdown = handleShutdown"

definition udp_handleNewSession :: "session \<Rightarrow> string" where
  "udp_handleNewSession s =
     ''New UDP session from '' @ GetClientAddr s @ '' - Session ID: '' @ GetSessionID s"

section \<open>The QUIC server\<close>

definition quic_options :: "server_option list" where
  "quic_options = [WithMaxLength (1024 * 1024), WithBufferSize 1000,
     WithTimeouts (30 * Second) (30 * Second), WithMaxConnections 1000]"

definition quic_main :: "net_env \<Rightarrow> string list \<times> outcome \<times> listener_iface" where
  "quic_main env =
     (case NewQUIC ''0.0.0.0'' 8443 None quic_options of
        Inl e \<Rightarrow> ([''Failed to create QUIC listener: '' @ error_text e], Exits 1, NilListener)
      | Inr q \<Rightarrow>
          run_listener ''Starting QUIC listener on 0.0.0.0:8443'' BlocksForever start_failed (Exits 1) env
            (QUICListener q))"

definition quic_words :: echo_words where
  "quic_words = \<lparr>
     lineReceived = (\<lambda>i a d. ''Received data from session '' @ i @ '' ('' @ a @ ''): '' @ bytes_text d),
     lineFailed = (\<lambda>i e. ''Failed to send data to session '' @ i @ '': '' @ error_text e),
     lineEchoed = (\<lambda>i. ''Echoed data back to session '' @ i), lineStale = (\<lambda>i. []),
     lineClosed = (\<lambda>i. [''Session '' @ i @ '' closed'']), staleAfter = None\<rparr>"

definition quic_handleShutdown ::
    "net_env \<Rightarrow> session_ptr list \<Rightarrow> string \<Rightarrow> bool \<Rightarrow> listener_iface \<Rightarrow> (string list \<times> listener_iface) option" where
  "quic_handleShutdown = handleShutdown"

definition quic_handleNewSession :: "session \<Rightarrow> string" where
  "quic_handleNewSession s =
     ''New QUIC connection from '' @ GetClientAddr s @ '' - Session ID: '' @ GetSessionID s"

section \<open>The WebSocket server\<close>

definition ws_options :: "server_option list" where
  "ws_options = [gs_WithMaxLength (1024 * 1024), gs_WithBufferSize 100,
     gs_WithTimeouts (30 * Second) (30 * Second)]"

definition ws_main :: "net_env \<Rightarrow> string list \<times> outcome \<times> listener_iface" where
  "ws_main env =
     (case NewWebSocketListener ''0.0.0.0'' 8001 ws_options of
        (l, Some e) \<Rightarrow> ([], Panics, l)
      | (l, None) \<Rightarrow>
          run_listener ''Starting WebSocket listener on ws://0.0.0.0:8001/ws'' MainReturns (\<lambda>e. []) Panics env l)"

definition ws_words :: echo_words where
  "ws_words = \<lparr>
     lineReceived = (\<lambda>i a d. ''Received message from session '' @ i @ '': '' @ bytes_text d),
     lineFailed = (\<lambda>i e. ''Session ('' @ i @ '') Error: '' @ error_text e),
     lineEchoed = (\<lambda>i. ''Echoed message back to session '' @ i), lineStale = (\<lambda>i. []),
     lineClosed = (\<lambda>i. []), staleAfter = None\<rparr>"

definition ws_announce :: "session \<Rightarrow> string" where
  "ws_announce s =
     ''New WebSocket connection from '' @ GetClientAddr s @ '' - Session ID: '' @ GetSessionID s"

text \<open>Without a timeout: it returns when StopListener does.\<close>

definition ws_stop ::
    "net_env \<Rightarrow> session_ptr list \<Rightarrow> string \<Rightarrow> listener_iface \<Rightarrow> (string list \<times> listener_iface) option" where
  "ws_stop env order sig l =
     (case iface_StopListener env order l of
        None \<Rightarrow> None
      | Some (e, l') \<Rightarrow> Some
          ([[], ''Received signal: '' @ sig @ '', shutting down...''] @
           (case e of Some x \<Rightarrow> [''Error during shutdown: '' @ error_text x]
            | None \<Rightarrow> [''Server shutdown complete'']), l'))"

section \<open>The clients\<close>

definition fatal :: "string \<Rightarrow> err \<Rightarrow> string" where
  "fatal msg e = msg @ error_text e"

definition quic_client_options :: "client_option list" where
  "quic_client_options = [WithClientBufferSize 2048, WithClientTimeouts (Second * 30) (Second * 30),
     WithQUICInsecureSkipVerify True, WithQUICNextProtos [''gophersocks'']]"

text \<open>
  \<^verbatim>\<open>log.Fatal\<close> exits without the deferred Close. \<^verbatim>\<open>time.After\<close> is tested only between two calls of
  Receive, so before the first; a message that was received is never nil, so one call is all.
\<close>

definition quic_client_main ::
    "(string \<Rightarrow> tls_config \<Rightarrow> err + client_conn) \<Rightarrow> string list \<times> outcome \<times> quic_client option" where
  "quic_client_main dial =
     (case gs_NewQUICClient ''localhost:8443'' quic_client_options of
        Inl e \<Rightarrow> ([fatal ''Failed to create QUIC client:'' e], Exits 1, None)
      | Inr c \<Rightarrow>
     (case quic_Connect dial c of
        (Some e, c1) \<Rightarrow> ([fatal ''Failed to connect:'' e], Exits 1, Some c1)
      | (None, c1) \<Rightarrow>
     (case quic_Send (text_bytes ''Hello, QUIC server!'') c1 of
        (Some e, c2) \<Rightarrow> ([fatal ''Failed to send data:'' e], Exits 1, Some c2)
      | (None, c2) \<Rightarrow>
     (case quic_Receive c2 of
        (Inl e, c3) \<Rightarrow>
          ([''Sent: Hello, QUIC server!'', fatal ''Failed to receive data:'' e], Exits 1, Some c3)
      | (Inr m, c3) \<Rightarrow>
          ([''Sent: Hello, QUIC server!'', ''Received: '' @ bytes_text m], MainReturns,
           Some (snd (quic_Close c3)))))))"

definition udp_client_options :: "client_option list" where
  "udp_client_options = [WithClientBufferSize 2048, WithClientTimeouts (Second * 30) (Second * 30)]"

definition udp_client_main ::
    "(string \<Rightarrow> err + string) \<Rightarrow> (string \<Rightarrow> err + udp_sock) \<Rightarrow> string list \<times> outcome \<times> udp_client option" where
  "udp_client_main resolve dial =
     (case gs_NewUDPClient ''localhost:8002'' udp_client_options of
        Inl e \<Rightarrow> ([fatal ''Failed to create UDP client:'' e], Exits 1, None)
      | Inr c \<Rightarrow>
     (case udp_Connect resolve dial c of
        (Some e, c1) \<Rightarrow> ([fatal ''Failed to connect:'' e], Exits 1, Some c1)
      | (None, c1) \<Rightarrow>
     (case udp_Send (text_bytes ''Hello, UDP server!'') c1 of
        (Some e, c2) \<Rightarrow> ([fatal ''Failed to send data:'' e], Exits 1, Some c2)
      | (None, c2) \<Rightarrow>
     (case udp_Receive c2 of
        (None, c3) \<Rightarrow> ([''Sent: Hello, UDP server!''], BlocksForever, Some c3)
      | (Some (Inl e), c3) \<Rightarrow>
          ([''Sent: Hello, UDP server!'', fatal ''Failed to receive data:'' e], Exits 1, Some c3)
      | (Some (Inr m), c3) \<Rightarrow>
          ([''Sent: Hello, UDP server!'', ''Received: '' @ bytes_text m], MainReturns,
           Some (snd (udp_Close c3)))))))"

end
