(* ===== verification/ExampleProps.thy ===== *)
theory ExampleProps
  imports Examples FramingProps
begin

text \<open>
  What the example programs do: the echo servers send back what they receive, on every protocol;
  how each program ends.
\<close>

section \<open>The transports are duplex\<close>

lemma stream_read_quiet:
  assumes "stream_readMessage t = (x, t')"
  shows "netWrite t' = netWrite t \<and> streamCodec t' = streamCodec t \<and> wire t' = wire t"
  using assms
  by (auto simp: stream_readMessage_def codec_read_def time_Now_def split: option.splits if_splits prod.splits)

lemma stream_write_quiet:
  assumes "stream_writeMessages ms t = (e, t')"
  shows "streamReader t' = streamReader t \<and> streamCodec t' = streamCodec t \<and> maxMessage t' = maxMessage t
    \<and> setReadDeadline t' = setReadDeadline t"
  using assms
  by (auto simp: stream_writeMessages_def net_write_def time_Now_def Let_def
      split: option.splits if_splits prod.splits)

sublocale framing_codec \<subseteq> stream_duplex: duplex_transport streamTransport "can_write c" wire "\<lambda>_. frame"
    "holds_frames c frame fits" "\<lambda>t. fault_err (final (streamReader t))"
  by unfold_locales
    (auto simp: can_write_def holds_frames_def dest: stream_read_quiet stream_write_quiet)

lemma udp_write_quiet:
  "udp_writeMessages ms t = (e, t') \<Longrightarrow>
    inQ t' = inQ t \<and> arriving t' = arriving t \<and> doneClosed t' = doneClosed t"
  by (induction ms t rule: udp_writeMessages.induct) (auto split: option.splits)

interpretation udp_duplex: duplex_transport udpTransport "\<lambda>t. True" datagrams "\<lambda>t m. [m]" udp_holds
    "\<lambda>t. ErrSessionClosed"
  by unfold_locales
    (auto simp: udp_holds_def udp_readMessage_def udp_close_def dest: udp_write_quiet
      split: list.splits if_splits)

lemma ws_read_quiet:
  "ws_readMessage t = (x, t') \<Longrightarrow> wsSent t' = wsSent t"
proof (induction t arbitrary: x t' rule: ws_readMessage.induct)
  case (1 t)
  have q: "wsSent (snd (ws_move_deadline t)) = wsSent t"
    by (simp add: ws_move_deadline_def Let_def split: option.splits)
  let ?t1 = "snd (ws_move_deadline t)"
  show ?case
  proof (cases "fst (ws_move_deadline t)")
    case (Some e)
    then show ?thesis using 1(2) q by (subst (asm) ws_readMessage.simps) simp
  next
    case None
    show ?thesis
    proof (cases "frames ?t1")
      case Nil
      then show ?thesis using 1(2) q None by (subst (asm) ws_readMessage.simps) (simp add: Let_def)
    next
      case (Cons f fs)
      obtain kind d where f: "f = (kind, d)" by (cases f) auto
      show ?thesis
      proof (cases "kind = BinaryMessage")
        case True
        then show ?thesis using 1(2) q None Cons f
          by (subst (asm) ws_readMessage.simps) (auto simp: Let_def)
      next
        case False
        then have "ws_readMessage (?t1\<lparr>frames := fs\<rparr>) = (x, t')"
          using 1(2) None Cons f by (subst (asm) ws_readMessage.simps) (simp add: Let_def)
        then show ?thesis using 1(1) [OF None refl Cons f [symmetric] False] q by simp
      qed
    qed
  qed
qed

lemma ws_write_all_quiet:
  "ws_write_all ms t = (e, t') \<Longrightarrow>
    frames t' = frames t \<and> wsSetReadDeadline t' = wsSetReadDeadline t"
  by (induction ms t rule: ws_write_all.induct) (auto split: option.splits)

lemma ws_write_quiet:
  "ws_writeMessages ms t = (e, t') \<Longrightarrow>
    frames t' = frames t \<and> wsSetReadDeadline t' = wsSetReadDeadline t"
  by (auto simp: ws_writeMessages_def Let_def dest!: ws_write_all_quiet split: option.splits if_splits)

interpretation ws_duplex: duplex_transport wsTransport "\<lambda>t. True" wsSent "\<lambda>t m. [(BinaryMessage, m)]"
    ws_holds wsEnd
  by unfold_locales (auto simp: ws_holds_def dest: ws_read_quiet ws_write_quiet)

section \<open>Reliable connections\<close>

definition takes_writes :: "codec \<Rightarrow> stream_transport \<Rightarrow> bool" where
  "takes_writes c t \<longleftrightarrow> streamCodec t = c \<and> (\<forall>i b. netWrite t i b = (length b, None))
     \<and> (\<forall>d. setWriteDeadline t d = None)"

lemma stream_keeps_writer:
  "stream_readMessage t = (x, t') \<Longrightarrow> setWriteDeadline t' = setWriteDeadline t"
  "stream_writeMessages ms t = (e, t') \<Longrightarrow> setWriteDeadline t' = setWriteDeadline t \<and> netWrite t' = netWrite t"
  by (auto simp: stream_readMessage_def codec_read_def stream_writeMessages_def net_write_def time_Now_def
      Let_def split: option.splits if_splits prod.splits)

lemma stream_write_succeeds:
  assumes "takes_writes c t" and "append_all c [] ms = (b, None)"
  shows "fst (stream_writeMessages ms t) = None"
  using assms by (simp add: takes_writes_def stream_writeMessages_def net_write_def time_Now_def Let_def)

sublocale framing_codec \<subseteq> stream_reliable: reliable_transport streamTransport "can_write c" wire
    "\<lambda>_. frame" "holds_frames c frame fits" "\<lambda>t. fault_err (final (streamReader t))" "takes_writes c"
    "\<lambda>m. \<exists>max_len. fits max_len m"
proof (unfold_locales, unfold transport_fields)
  fix t assume "takes_writes c t"
  then show "can_write c t" by (auto simp: takes_writes_def can_write_def io_writer_def)
next
  fix t b assume t: "takes_writes c t" and b: "\<forall>m \<in> set b. \<exists>max_len. fits max_len m"
  have "append_all c dst b = (dst @ concat (map frame b), None)" for dst
    using b by (induction b arbitrary: dst) (auto simp: append_frame)
  then have ok: "fst (stream_writeMessages b t) = None" by (rule stream_write_succeeds [OF t])
  obtain t' where w: "stream_writeMessages b t = (None, t')" using ok by (metis prod.collapse)
  then show "\<exists>t'. stream_writeMessages b t = (None, t') \<and> takes_writes c t'"
    using t stream_keeps_writer(2) [OF w] stream_write_quiet [OF w] by (auto simp: takes_writes_def)
next
  fix t x t' assume "takes_writes c t" and "stream_readMessage t = (x, t')"
  then show "takes_writes c t'"
    using stream_keeps_writer(1) stream_read_quiet by (simp add: takes_writes_def)
qed

context framing_codec
begin

lemma session_echoes:
  assumes "takes_writes c t" and "holds_frames c frame fits ms t" and "can_send s" and "out s = []"
    and "length clocks = length ms" and "\<forall>m \<in> set ms. fits n m \<and> int (length m) \<le> maxLen s"
    and "staleAfter w = None"
  shows "\<exists>ls t1 s1 t2 s2. handleSession w streamTransport clocks (t, s) = (ls, StillWaiting, t1, s1)
    \<and> drain streamTransport (t1, s1) = (True, t2, s2) \<and> wire t2 = wire t @ concat (map frame ms)"
  by (rule stream_reliable.echo_completes [OF assms(1-5)]) (use assms(6,7) in auto)

end

section \<open>The servers echo\<close>

lemma can_send_new: "can_send (newSession None a config oc uid now)"
  by (simp add: can_send_def)

lemma words_never_stale [simp]:
  "staleAfter tcp_words = None" "staleAfter quic_words = None" "staleAfter ws_words = None"
  "staleAfter udp_words = Some (60 * Second)"
  by (simp_all add: tcp_words_def quic_words_def ws_words_def udp_words_def)

text \<open>
  The TCP example server sends back, byte for byte, what its client sent: when the handler has
  taken all messages and the writer has emptied the queue, the bytes written are the bytes that
  came in, however either was cut; the only other outcome is a failed write, and then the
  session is closed.
\<close>

theorem tcp_echo:
  assumes "[] \<notin> set (incoming conn)" and "concat (incoming conn) = concat (map uint32_frame ms)"
    and "\<forall>m \<in> set ms. int (length m) \<le> uint (MaxLength config)"
    and "\<forall>d. connReadDeadline conn d = None" and "io_writer (connWrite conn)"
    and "length clocks = length ms"
    and "handleSession tcp_words streamTransport clocks
        (tcp_transport config conn, newSession None a config True uid now) = (ls, r, t1, s1)"
  shows "(\<exists>e. r = SendFailed e \<and> closeOnce s1) \<or> (r = StillWaiting \<and>
    (\<forall>t2 s2. drain streamTransport (t1, s1) = (True, t2, s2) \<longrightarrow> wire t2 = concat (incoming conn)))"
proof -
  let ?t = "tcp_transport config conn" and ?s = "newSession None a config True uid now"
  have h: "holds_frames Uint32 uint32_frame uint32_fits ms ?t" by (rule tcp_transport_holds [OF assms(1-4)])
  have w: "can_write Uint32 ?t" and e: "wire ?t = []"
    using assms(5) by (simp_all add: tcp_transport_def stream_on_def can_write_def)
  have "wire ?t @ concat (map uint32_frame ms) = concat (incoming conn)" using e assms(2) by simp
  moreover have "\<forall>m \<in> set ms. int (length m) \<le> maxLen ?s" using assms(3) by simp
  moreover have "out ?s = []" by simp
  ultimately show ?thesis
    using uint32_c.stream_duplex.echo_outcome [OF assms(7) w h can_send_new _ assms(6)]
    by (auto simp: stale_clocks_def)
qed

text \<open>
  C19. On a connection that takes every write the echo completes: the handler takes all messages
  without stopping, the writer empties the queue, and the client gets back exactly its bytes.
\<close>

theorem tcp_echo_completes:
  assumes "[] \<notin> set (incoming conn)" and "concat (incoming conn) = concat (map uint32_frame ms)"
    and "\<forall>m \<in> set ms. int (length m) \<le> uint (MaxLength config)"
    and "\<forall>d. connReadDeadline conn d = None" and "\<forall>d. connWriteDeadline conn d = None"
    and "\<forall>i b. connWrite conn i b = (length b, None)" and "length clocks = length ms"
  shows "\<exists>ls t1 s1 t2 s2. handleSession tcp_words streamTransport clocks
        (tcp_transport config conn, newSession None a config True uid now) = (ls, StillWaiting, t1, s1)
    \<and> drain streamTransport (t1, s1) = (True, t2, s2) \<and> wire t2 = concat (incoming conn)"
proof -
  let ?t = "tcp_transport config conn" and ?s = "newSession None a config True uid now"
  have h: "holds_frames Uint32 uint32_frame uint32_fits ms ?t" by (rule tcp_transport_holds [OF assms(1-4)])
  have g: "takes_writes Uint32 ?t" and e: "wire ?t = []"
    using assms(5,6) by (simp_all add: tcp_transport_def stream_on_def takes_writes_def)
  have m: "\<forall>m \<in> set ms. uint32_fits (uint (MaxLength config)) m \<and> int (length m) \<le> maxLen ?s"
    using assms(3) uint32_fits_config by simp
  show ?thesis
    using uint32_c.session_echoes [OF g h can_send_new [of a config True uid now] _ assms(7) m, of tcp_words]
      assms(2) e by simp
qed

definition echo_conn :: net_conn where
  "echo_conn = \<lparr>remoteAddr = ''c'', incoming = [[0, 0, 0, 1], [65]], incomingEnd = FaultEOF,
     connReadDeadline = (\<lambda>_. None), connWriteDeadline = (\<lambda>_. None), connClock = int,
     connWrite = (\<lambda>_ b. (length b, None)), connGrown = (\<lambda>c n. max c n)\<rparr>"

theorem tcp_echo_witness:
  "\<exists>ls r t1 s1. handleSession tcp_words streamTransport [(1, 2)]
      (tcp_transport defaultConfig echo_conn, newSession None ''c'' defaultConfig True ''u'' 0) = (ls, r, t1, s1)
    \<and> ((\<exists>e. r = SendFailed e) \<or> r = StillWaiting)"
proof -
  obtain ls r t1 s1 where h: "handleSession tcp_words streamTransport [(1, 2)]
      (tcp_transport defaultConfig echo_conn, newSession None ''c'' defaultConfig True ''u'' 0) = (ls, r, t1, s1)"
    by (metis prod_cases4)
  have f: "uint32_frame [65] = [0, 0, 0, 1, 65]"
    by (simp add: uint32_frame_def put_uint32_1)
  have "(\<exists>e. r = SendFailed e \<and> closeOnce s1) \<or> (r = StillWaiting \<and>
    (\<forall>t2 s2. drain streamTransport (t1, s1) = (True, t2, s2) \<longrightarrow> wire t2 = concat (incoming echo_conn)))"
    by (rule tcp_echo [OF _ _ _ _ _ _ h, of "[[65]]"])
      (simp_all add: echo_conn_def f io_writer_def defaultConfig_def defaultMaxLength_def)
  then show ?thesis using h by blast
qed

theorem tcp_echo_completes_witness:
  "\<exists>ls t1 s1 t2 s2. handleSession tcp_words streamTransport [(1, 2)]
        (tcp_transport defaultConfig echo_conn, newSession None ''c'' defaultConfig True ''u'' 0)
        = (ls, StillWaiting, t1, s1)
    \<and> drain streamTransport (t1, s1) = (True, t2, s2) \<and> wire t2 = [0, 0, 0, 1, 65]"
proof -
  have f: "uint32_frame [65] = [0, 0, 0, 1, 65]" by (simp add: uint32_frame_def put_uint32_1)
  have "concat (incoming echo_conn) = [0, 0, 0, 1, 65]" by (simp add: echo_conn_def)
  then show ?thesis
    using tcp_echo_completes [of echo_conn "[[65]]" defaultConfig "[(1, 2)]" "''c''" "''u''" 0]
    by (simp add: f echo_conn_def defaultConfig_def defaultMaxLength_def)
qed

text \<open>
  C20. The UDP example sends back, whole and in order, every datagram its session received (a datagram
  dropped on a full queue is not one of them), and the WebSocket example every binary frame. There
  are two exceptions, and after both the session is closed and what went out is a prefix of what
  should have: a failed write, and in the UDP example a datagram that was sent back more than a
  minute after it arrived.
\<close>

theorem udp_ws_echo:
  assumes "udp_holds us u" and "\<forall>m \<in> set us. int (length m) \<le> uint (MaxLength config)"
    and "length uclocks = length us"
    and "handleSession udp_words udpTransport uclocks (u, newSession None a config True uid now)
        = (ls, r, u1, s1)"
    and "ws_holds ws w" and "\<forall>m \<in> set ws. int (length m) \<le> uint (MaxLength config')"
    and "length wclocks = length ws"
    and "handleSession ws_words wsTransport wclocks (w, newSession None b config' True wid wnow)
        = (wls, wr, w1, ws1)"
  shows "((r = StillWaiting \<and> \<not> (\<exists>c \<in> set uclocks. 60 * Second < snd c - fst c) \<and>
      (\<forall>u2 s2. drain udpTransport (u1, s1) = (True, u2, s2) \<longrightarrow> datagrams u2 = datagrams u @ us))
    \<or> (((\<exists>e. r = SendFailed e) \<or> r = ClosedStale \<and> (\<exists>c \<in> set uclocks. 60 * Second < snd c - fst c))
        \<and> closeOnce s1 \<and> (\<exists>q. datagrams u @ us = datagrams u1 @ q)))
   \<and> ((wr = StillWaiting \<and>
      (\<forall>w2 s2. drain wsTransport (w1, ws1) = (True, w2, s2) \<longrightarrow>
         wsSent w2 = wsSent w @ map (Pair BinaryMessage) ws))
    \<or> ((\<exists>e. wr = SendFailed e) \<and> closeOnce ws1
        \<and> (\<exists>q. wsSent w @ map (Pair BinaryMessage) ws = wsSent w1 @ q)))"
proof (rule conjI)
  have pairs: "concat (map (\<lambda>m. [(BinaryMessage, m)]) ms) = map (Pair BinaryMessage) ms" for ms :: "bytes list"
    by (induction ms) simp_all
  show "(r = StillWaiting \<and> \<not> (\<exists>c \<in> set uclocks. 60 * Second < snd c - fst c) \<and>
      (\<forall>u2 s2. drain udpTransport (u1, s1) = (True, u2, s2) \<longrightarrow> datagrams u2 = datagrams u @ us))
    \<or> (((\<exists>e. r = SendFailed e) \<or> r = ClosedStale \<and> (\<exists>c \<in> set uclocks. 60 * Second < snd c - fst c))
        \<and> closeOnce s1 \<and> (\<exists>q. datagrams u @ us = datagrams u1 @ q))"
    using udp_duplex.echo_outcome [OF assms(4) TrueI assms(1) can_send_new _ assms(3)] assms(2)
    by (simp add: stale_clocks_def)
  show "(wr = StillWaiting \<and>
      (\<forall>w2 s2. drain wsTransport (w1, ws1) = (True, w2, s2) \<longrightarrow>
         wsSent w2 = wsSent w @ map (Pair BinaryMessage) ws))
    \<or> ((\<exists>e. wr = SendFailed e) \<and> closeOnce ws1
        \<and> (\<exists>q. wsSent w @ map (Pair BinaryMessage) ws = wsSent w1 @ q))"
    using ws_duplex.echo_outcome [OF assms(8) TrueI assms(5) can_send_new _ assms(7)] assms(6)
    by (simp add: pairs stale_clocks_def)
qed

definition sample_udp_echo :: udp_transport where
  "sample_udp_echo = \<lparr>peerAddr = ''c'', inQ = [[65]], inCap = 2, doneClosed = False,
     udpCloseOnce = False, arriving = [], preferDone = False, udpWrite = (\<lambda>_ _. None),
     udpWrites = 0, datagrams = []\<rparr>"

definition sample_ws_echo :: ws_transport where
  "sample_ws_echo = \<lparr>wsReadTimeout = 0, wsWriteTimeout = 0, wsCloseOnce = False,
     frames = [(TextMessage, [1]), (BinaryMessage, [66])], wsEnd = EOF,
     wsSetReadDeadline = (\<lambda>_. None), wsSetWriteDeadline = (\<lambda>_. None), wsWrite = (\<lambda>_ _. None),
     wsClock = int, wsTicks = 0, wsReadDeadline = None, wsWriteDeadline = None, wsWrites = 0,
     wsSent = [], closeFrames = [], connCloses = 0\<rparr>"

theorem udp_ws_echo_witness:
  "\<exists>ls r u1 s1. handleSession udp_words udpTransport [(1, 2)]
      (sample_udp_echo, newSession None ''c'' defaultConfig True ''u'' 0) = (ls, r, u1, s1)
    \<and> ((\<exists>e. r = SendFailed e) \<or> r = StillWaiting)"
proof -
  obtain ls r u1 s1 where u: "handleSession udp_words udpTransport [(1, 2)]
      (sample_udp_echo, newSession None ''c'' defaultConfig True ''u'' 0) = (ls, r, u1, s1)"
    by (metis prod_cases4)
  obtain wls wr w1 ws1 where w: "handleSession ws_words wsTransport [(1, 2)]
      (sample_ws_echo, newSession None ''d'' defaultConfig True ''v'' 0) = (wls, wr, w1, ws1)"
    by (metis prod_cases4)
  have hu: "udp_holds [[65]] sample_udp_echo" by (simp add: udp_holds_def sample_udp_echo_def)
  have hw: "ws_holds [[66]] sample_ws_echo"
    by (simp add: ws_holds_def sample_ws_echo_def binary_payloads_def TextMessage_def BinaryMessage_def)
  have m: "\<forall>m \<in> set [[b]]. int (length m) \<le> uint (MaxLength defaultConfig)" for b :: byte
    by (simp add: defaultConfig_def defaultMaxLength_def)
  show ?thesis
    using udp_ws_echo [OF hu m _ u hw m _ w] u by (auto simp: Second_def)
qed

section \<open>How the programs end\<close>

lemma example_digits:
  "char_of (56 :: nat) = CHR ''8''" "char_of (48 :: nat) = CHR ''0''" "char_of (49 :: nat) = CHR ''1''"
  "char_of (50 :: nat) = CHR ''2''"
  by code_simp+

lemma example_addresses:
  "hostPort ''0.0.0.0'' 8001 = ''0.0.0.0:8001''" "hostPort ''0.0.0.0'' 8002 = ''0.0.0.0:8002''"
  by (simp_all add: hostPort_def JoinHostPort_def TrimPrefix_def TrimSuffix_def itoa_def itoa_nat.simps
      digit_def example_digits)

lemmas example_options = tcp_options_def udp_options_def ws_options_def quic_options_def
  gs_WithMaxLength_def gs_WithBufferSize_def gs_WithTimeouts_def gs_WithMaxConnections_def
  WithMaxLength_def WithBufferSize_def WithTimeouts_def WithMaxConnections_def

lemma default_protocol: "ProtocolConfig defaultConfig =
    WebSocketConfig \<lparr>ReadBufferSize = 1024, WriteBufferSize = 1024, Path = ''/ws'', CheckOrigin = None\<rparr>"
  by (simp add: defaultConfig_def)

lemma example_options_valid:
  "ValidateConfig (apply_options (toListenerOptions tcp_options) defaultConfig) = None"
  "ValidateConfig (apply_options (toListenerOptions udp_options) defaultConfig) = None"
  "ValidateConfig (apply_options (toListenerOptions ws_options) defaultConfig) = None"
  "ValidateConfig (apply_options quic_options (defaultConfig\<lparr>ProtocolConfig := QUICConfig defaultQUICConfig\<rparr>)) = None"
  by (simp_all add: ValidateConfig_def toListenerOptions_id example_options Second_def defaultConfig_def)

text \<open>
  The options of the example servers are accepted. When its address can be bound, the TCP and the
  WebSocket program's main returns as soon as StartListener has started the background
  goroutine, so the process ends before it serves anybody. The UDP and QUIC programs block.
\<close>

theorem example_mains_end:
  "fst (snd (tcp_main env)) = (case envListen env ''0.0.0.0:8001'' of Inl e \<Rightarrow> Exits 1 | Inr l \<Rightarrow> MainReturns)
   \<and> fst (snd (ws_main env)) = (case envListen env ''0.0.0.0:8001'' of Inl e \<Rightarrow> Panics | Inr l \<Rightarrow> MainReturns)
   \<and> fst (snd (udp_main env)) = (case envResolveUDP env ''0.0.0.0:8002'' of
        Inl e \<Rightarrow> Exits 1
      | Inr a \<Rightarrow> (case envListenUDP env a of Inl e \<Rightarrow> Exits 1 | Inr l \<Rightarrow> BlocksForever))
   \<and> fst (snd (quic_main env)) \<in> {Exits 1, BlocksForever}"
proof -
  note run = run_listener_def iface_SetAnnounceNewSession_def
  have "fst (snd (tcp_main env)) =
      (case envListen env ''0.0.0.0:8001'' of Inl e \<Rightarrow> Exits 1 | Inr l \<Rightarrow> MainReturns)"
    by (simp add: tcp_main_def NewTCPListener_def NewTCPListenerWithContext_def NewTCP_def run
        example_options_valid example_addresses tcp_StartListener_def tcp_Listen_def Let_def split: sum.splits)
  moreover have "fst (snd (ws_main env)) =
      (case envListen env ''0.0.0.0:8001'' of Inl e \<Rightarrow> Panics | Inr l \<Rightarrow> MainReturns)"
  proof -
    have "ProtocolConfig (apply_options (toListenerOptions ws_options) defaultConfig) = ProtocolConfig defaultConfig"
      by (simp add: toListenerOptions_id example_options)
    then show ?thesis
      by (simp add: ws_main_def NewWebSocketListener_def NewWebSocketListenerWithContext_def
          NewWebSocket_def run example_options_valid example_addresses ws_StartListener_def
          ws_Listen_def Let_def default_protocol split: sum.splits)
  qed
  moreover have "fst (snd (udp_main env)) = (case envResolveUDP env ''0.0.0.0:8002'' of
        Inl e \<Rightarrow> Exits 1
      | Inr a \<Rightarrow> (case envListenUDP env a of Inl e \<Rightarrow> Exits 1 | Inr l \<Rightarrow> BlocksForever))"
    by (simp add: udp_main_def NewUDPListener_def NewUDPListenerWithContext_def NewUDP_def run
        example_options_valid example_addresses udp_StartListener_def udp_Listen_def Let_def split: sum.splits)
  moreover have "fst (snd (quic_main env)) \<in> {Exits 1, BlocksForever}"
    by (auto simp: quic_main_def NewQUIC_def run example_options_valid quic_StartListener_def Let_def
        split: option.splits prod.splits)
  ultimately show ?thesis by blast
qed

text \<open>
  The UDP example client waits for its answer without a limit: its five second timeout is tested
  only before the first Receive, and the timeouts of its options are not used, so without an
  answer it never ends. With one it prints the answer.
\<close>

theorem udp_client_waits_forever:
  assumes "resolve ''localhost:8002'' = Inr a" and "dial a = Inr k"
    and "sockWrite k (text_bytes ''Hello, UDP server!'') = None" and "\<not> sockClosed k"
  shows "(udpInbox k = [] \<longrightarrow> fst (snd (udp_client_main resolve dial)) = BlocksForever)
    \<and> (udpInbox k = Inr m # ds \<longrightarrow> length m \<le> 65536 \<longrightarrow>
        fst (udp_client_main resolve dial) = [''Sent: Hello, UDP server!'', ''Received: '' @ bytes_text m]
        \<and> fst (snd (udp_client_main resolve dial)) = MainReturns)"
  using assms
  by (auto simp: udp_client_main_def gs_NewUDPClient_def NewUDPClient_def udp_Connect_def udp_Send_def
      udp_Receive_def)

definition silent_sock :: udp_sock where
  "silent_sock = \<lparr>udpInbox = [], udpOutbox = [], sockWrite = (\<lambda>d. None), sockClosed = False,
     sockClose = None,
     sockLocal = ''l'', sockRemote = ''r''\<rparr>"

theorem udp_client_waits_forever_witness:
  "fst (snd (udp_client_main Inr (\<lambda>a. Inr silent_sock))) = BlocksForever"
  using udp_client_waits_forever [of Inr _ "\<lambda>a. Inr silent_sock" silent_sock] by (simp add: silent_sock_def)

end
