(* ===== verification/Spec2Isabelle.thy ===== *)
theory Spec2Isabelle
  imports Batching IdleTimeout ServeAgain EchoMachine ClientInterface SessionRefinement ServerProps ServerLife WebSocketProps QuicProps ExampleProps
begin

text \<open>
  GopherSocks: message servers over TCP, UDP, WebSocket and QUIC, and clients for QUIC and UDP.

  The program. A server accepts connections, or for UDP datagrams from new addresses, and makes
  each a session (\<^verbatim>\<open>listener/session.go\<close>) over a transport. A codec (\<^verbatim>\<open>framing/framing.go\<close>) turns
  a byte stream into messages. A session has one writer goroutine, which empties a bounded send
  queue in batches, and reads only when its consumer asks. The part all servers share
  (\<^verbatim>\<open>listener/server.go\<close>) keeps the registry of sessions, the limit on connections and the stop
  sequence. The clients frame with the same codecs.

  The theories, in the order of their imports.

  \<open>Prelude\<close>: bytes, decimal numerals, counting in lists, reachable states and the locale
  \<open>safety_invariant\<close> that each machine interprets.
  \<open>GoErrors\<close>: \<^verbatim>\<open>listener/errors.go\<close> and the sentinel errors, as one datatype, with \<^verbatim>\<open>errors.Is\<close>.
  \<open>GoBufio\<close>: Go's \<^verbatim>\<open>bufio.Reader\<close> over a connection given as the chunks its reads deliver and the
  fault after them; each operation is shown to depend only on the bytes still to come.
  \<open>Framing\<close>: the codecs Legacy, Uvarint and Uint32, each function of \<^verbatim>\<open>framing.go\<close> one definition.
  \<open>FramingLegacy\<close>, \<open>FramingPrefix\<close>: what the codecs accept, consume and refuse.
  \<open>CodecContract\<close>: the locales \<open>framing_codec\<close> and \<open>stream_codec\<close>, what a holder of a
  \<^verbatim>\<open>framing.Codec\<close> relies on, interpreted by the three codecs; facts on message sequences.
  \<open>Config\<close>: \<^verbatim>\<open>listener/base.go\<close>, \<^verbatim>\<open>ValidateConfig\<close>, \<^verbatim>\<open>listeneropts.go\<close>; an option is a function on
  the configuration record.
  \<open>Session\<close>: the operations of \<^verbatim>\<open>listener/session.go\<close>; a transport is a record of methods.
  \<open>SessionMachine\<close>: its goroutines interleaved, as a step relation with an invariant: any number
  of senders, the writer, the pump of \<^verbatim>\<open>Data\<close> and its consumer, closers, the parent context.
  \<open>TransportContract\<close>: the locales \<open>writing_transport\<close> and \<open>reading_transport\<close>, what a session
  relies on in a transport, with what they give it.
  \<open>StreamTransport\<close>: \<^verbatim>\<open>listener/stream.go\<close>; by a sublocale it meets both contracts with any codec.
  \<open>Server\<close>, \<open>ServerMachine\<close>: \<^verbatim>\<open>listener/server.go\<close>, its operations, and its goroutines interleaved:
  accept loops, connections from admission to the end of their handler, closes, \<^verbatim>\<open>stop\<close>.
  \<open>Net\<close>: listeners, connections as what their peers will do, how a Serve call ends.
  \<open>Tcp\<close>, \<open>Udp\<close>, \<open>WebSocket\<close>, \<open>Quic\<close>: the servers, every function of \<^verbatim>\<open>tcp.go\<close>, \<^verbatim>\<open>udp.go\<close>,
  \<^verbatim>\<open>websocket.go\<close> and \<^verbatim>\<open>quic.go\<close>. Accept, read and request loops run over lists of events; an
  operation runs without interruption here, the interleavings are those of \<open>ServerMachine\<close>. An
  event carries the state of Serve's context; \<open>tcp_ctx_ends\<close> and its like are the \<^verbatim>\<open>AfterFunc\<close> that
  \<^verbatim>\<open>newSession\<close> registers, which closes the sessions of a Serve call once its context has ended: after
  an event that finds it ended, and by the deferred \<^verbatim>\<open>stop\<close> when Serve returns. Here it runs after
  \<^verbatim>\<open>add\<close>; the schedule in which it runs before is in \<open>ServerMachine\<close>.
  \<open>SessionRefinement\<close>: the sequential operations of a session are runs of \<open>SessionMachine\<close>.
  \<open>ServerRefinement\<close>, \<open>ServerHistory\<close>, \<open>ServerRuns\<close>, \<open>ServerLife\<close>: histories of calls to a server (Serve,
  what its loop takes, closes, handlers that return, \<^verbatim>\<open>StopListener\<close>), each uninterrupted, in any order,
  are runs of \<open>ServerMachine\<close>; \<open>hosted_sessions\<close> and \<open>hosted_server\<close> are what a server must do for
  that, interpreted by the four servers; what follows for their counters and for Serve's end.
  \<open>Client\<close>: \<^verbatim>\<open>client/quic.go\<close>, \<^verbatim>\<open>client/udp.go\<close>, \<^verbatim>\<open>client/options.go\<close>, \<^verbatim>\<open>clientopts.go\<close>, \<^verbatim>\<open>client.go\<close>.
  \<open>Gophersocks\<close>, \<open>Interfaces\<close>: \<^verbatim>\<open>listener.go\<close> and the \<^verbatim>\<open>Listener\<close> interface, whose values can hold a nil
  pointer; a panic is \<open>None\<close>.
  \<open>ClientInterface\<close>: the \<^verbatim>\<open>Client\<close> interface of \<^verbatim>\<open>client.go\<close> and the life of a client.
  \<open>Echo\<close>, \<open>Examples\<close>, \<open>EchoMachine\<close>: the programs of \<^verbatim>\<open>src/example\<close>; the handler all servers share is proved to echo on
  every transport that meets \<open>duplex_transport\<close>, and to the end on one that meets
  \<open>reliable_transport\<close>. \<open>EchoMachine\<close> has the handler as a process beside the session's goroutines.
  \<open>Batching\<close>, \<open>IdleTimeout\<close>, \<open>ServeAgain\<close>: the writes a queue costs; the read deadline on a connection
  in time; what is left of a server when Serve's context ends.
  \<open>FramingProps\<close>, \<open>SessionProps\<close>, \<open>ServerProps\<close>, \<open>TcpProps\<close>, \<open>UdpProps\<close>, \<open>WebSocketProps\<close>,
  \<open>QuicProps\<close>, \<open>ExampleProps\<close>, and this theory: the properties, with concrete runs.

  What the properties show. Framing: round trips of message sequences, truncation, independence
  of packet boundaries, limits. Sessions: messages leave in the order they were accepted, close
  effects run once and in order, a sender is never stuck, received messages are not lost while
  the session lives. Servers: the connection limit under races, balanced slots, the registry, and
  that \<^verbatim>\<open>StopListener\<close> returns with everything closed; whatever calls a server of one of the protocols
  has been through, its state is one of the machine's, and its counter and wait group count;
  a Serve that returns leaves none of its sessions open.
  Protocols: what a session yields and puts on the wire, deadlines, what Listen and Serve
  return. Programs: the echo servers echo; here, that a QUIC client and server understand each
  other, up to the whole way from the client through the echo server and back.

  Where the code does not do what its docs say, the property states what it does:
  \<open>legacy_limit_off_by_one\<close>, \<open>one_byte_delimiter_unlimited\<close>, \<open>negative_limit_is_no_limit\<close>,
  \<open>legacy_embedded_frame\<close>, \<open>udp_datagram_whole\<close>,
  \<open>closed_session_left_registered\<close>, \<open>parent_end_precedes_close\<close>, \<open>legacy_oversize_loses_batch\<close>,
  \<open>constructors_outcome\<close>, \<open>tcp_after_stop\<close>, \<open>idle_deadline\<close>, \<open>serve_cannot_resume\<close>,
  \<open>ws_bad_path_panics\<close>, \<open>client_lifecycle\<close>, \<open>example_mains_end\<close>, \<open>udp_client_waits_forever\<close>.

  Conventions and bounds. Go's int is \<open>int\<close> where it counts and is converted to \<open>64 word\<close> where
  the code converts it; uint16 and uint32 are words. Errors are values of \<open>err\<close>, a pair of result
  and error is a sum. No definition uses fuel except \<open>fill_tries\<close>, whose hundred tries are those
  of \<^verbatim>\<open>bufio\<close>, and \<open>read_uvarint_from\<close>, whose ten are the loop bound of \<^verbatim>\<open>encoding/binary\<close>; the
  other loops terminate on the bytes, events or messages they are given, finitely many: that Go's
  loops return is not claimed, only what they have done when they do. \<open>drain\<close> is what the writer
  goroutine does until its queue is empty and it waits again. Time is an argument. What a wait
  would deliver is part of the state, so a blocking read is a function: the chunks of a
  connection, the frames of a WebSocket, the datagrams that arrive.

  Not modelled: quic-go, gorilla/websocket, net/http and the cryptography under \<^verbatim>\<open>selfSignedCert\<close>
  (arguments: what they return), logging beyond level and text, the memory of reused buffers,
  codecs registered as nil, the delivery of signals to the examples. The step relation of a session
  lets a transport fail at any write and any read, and a handler may return at any time; the
  only liveness assumed is that handlers return and transport calls do. \<open>Echo\<close> reads one message at
  a time, without the read-ahead of \<^verbatim>\<open>Data\<close>, which \<open>EchoMachine\<close> has. Which patterns \<^verbatim>\<open>http.ServeMux\<close> takes
  and matches is an argument; that it takes none without a slash is its documented behaviour.
  When Serve's context ends its listener is taken to be closed before Serve returns. The server
  machine has no steps of their own for UDP's reaper and for the QUIC watch on \<^verbatim>\<open>conn.Context\<close>: they
  are closes of a session there, which any goroutine may make.
\<close>

section \<open>QUIC client and server together\<close>

lemma uint32_word_nonneg: "0 \<le> min (uint (MaxLength config)) (MaxPayload c)" if "is_codec c frame fits"
  using that by (auto simp: is_codec_def MaxInt32_def)

text \<open>
  Client to server, for each of the three codecs: if the client has sent messages without
  an error, and the server's stream delivers the bytes the client wrote, cut in any way, then
  the server's session yields exactly those messages in that order and then ends.
\<close>

theorem quic_client_to_server:
  assumes "is_codec c frame fits"
    and "qcStream cl = Some up" and "qcCodec cl = c" and "qcWire cl = []" and "io_writer (connWrite up)"
    and "send_all ms cl = (None, cl')"
    and "concat (incoming strm) = qcWire cl'" and "[] \<notin> set (incoming strm)" and "incomingEnd strm = FaultEOF"
    and "\<forall>m \<in> set ms. fits (min (uint (MaxLength config)) (MaxPayload c)) m"
    and "\<not> closeOnce s" and "length clocks = Suc (length ms)"
  shows "\<exists>t' s'. Messages streamTransport (map (\<lambda>now. (now, True)) clocks) (quic_transport config c strm, s)
      = (ms, (t', s'), True) \<and> ctx s' = cancel ErrSessionClosed (ctx s)"
proof -
  note fc = is_codec_framing [OF assms(1)]
  have "concat (incoming strm) = concat (map frame ms)"
    using framing_codec.client_sends_frames [OF fc assms(2,3,5,6)] assms(4,7) by simp
  then have h: "holds_frames c frame fits ms (quic_transport config c strm)"
    unfolding quic_transport_def using assms(8,10) uint32_word_nonneg [OF assms(1)]
    by (intro stream_on_holds) auto
  have "fault_err (final (streamReader (quic_transport config c strm))) = EOF"
    using assms(9) by (simp add: quic_transport_def stream_on_def newReader_def)
  then show ?thesis
    using framing_codec.session_yields [OF fc h assms(12,11)] by (auto simp: readCause_def)
qed

definition sample_up :: net_conn where
  "sample_up = \<lparr>remoteAddr = ''s'', incoming = [], incomingEnd = FaultEOF,
     connReadDeadline = (\<lambda>_. None), connWriteDeadline = (\<lambda>_. None), connClock = int,
     connWrite = (\<lambda>_ b. (length b, None)), connGrown = (\<lambda>c n. max c n)\<rparr>"

definition sample_client :: quic_client where
  "sample_client = \<lparr>qcAddr = ''s'', qcConfig = DefaultConfig, qcConn = None, qcStream = Some sample_up,
     qcCodec = Uvarint, qcReader = newReader [[1], [65, 1, 66]] FaultEOF, qcWire = [], qcWrites = 0,
     qcCloses = []\<rparr>"

definition sample_wire :: net_conn where
  "sample_wire = sample_up\<lparr>incoming := [[1, 65, 1], [66]]\<rparr>"

lemma sample_io: "io_writer (connWrite sample_up)"
  by (simp add: io_writer_def sample_up_def)

lemma sample_sends:
  "send_all [[65], [66]] sample_client = (None, sample_client\<lparr>qcWire := [1, 65, 1, 66], qcWrites := 2\<rparr>)"
  by (simp add: sample_client_def sample_up_def quic_Send_def uvarint_append_eq frames_AB)

lemma sample_fits:
  "\<forall>m \<in> set [[65], [66 :: byte]]. uvarint_fits (min (uint (MaxLength defaultConfig)) (MaxPayload Uvarint)) m"
  by (simp add: uvarint_fits_def go_int_def defaultConfig_def defaultMaxLength_def MaxInt32_def)

theorem quic_client_to_server_witness:
  "\<exists>t' s'. Messages streamTransport (map (\<lambda>now. (now, True)) [1, 2, 3])
      (quic_transport defaultConfig Uvarint sample_wire, newSession None ''a'' defaultConfig True ''u'' 0)
    = ([[65], [66]], (t', s'), True)
    \<and> ctx s' = cancel ErrSessionClosed (ctx (newSession None ''a'' defaultConfig True ''u'' 0))"
  by (rule quic_client_to_server [OF is_codec_Uvarint _ _ _ sample_io sample_sends _ _ _ sample_fits])
    (simp_all add: sample_client_def sample_wire_def, simp add: sample_up_def)

text \<open>
  Server to client, for each of the three codecs: if the session's writer has emptied its
  queue without an error, a client whose stream delivers those bytes, cut in any way, receives
  exactly the queued messages in order, and has read everything.
\<close>

theorem quic_server_to_client:
  assumes "is_codec c frame fits" and "io_writer (connWrite strm)"
    and "drain streamTransport (quic_transport config c strm, s) = (True, t', s')"
    and "qcStream cl = Some down" and "qcCodec cl = c" and "qcReader cl = new_reader_size n cs f"
    and "concat cs = wire t'" and "[] \<notin> set cs"
    and "\<forall>m \<in> set (out s). fits (clMaxLength (qcConfig cl)) m"
  shows "\<exists>cl'. receive_many (length (out s)) cl = (out s, None, cl') \<and> stream (qcReader cl') = []
    \<and> out s' = []"
proof -
  note fc = is_codec_framing [OF assms(1)]
  have "can_write c (quic_transport config c strm)" "wire (quic_transport config c strm) = []"
    using assms(2) by (simp_all add: quic_transport_def stream_on_can_write stream_on_def can_write_def)
  then have w: "wire t' = concat (map frame (out s))" "out s' = []"
    using framing_codec.session_sends [OF fc _ assms(3)] by auto
  have ok: "reader_ok (qcReader cl)" using assms(6,8) by (simp add: reader_ok_new)
  have "stream (qcReader cl) = concat (map frame (out s)) @ []" using assms(6,7) w by simp
  from framing_codec.client_receives_frames [OF fc assms(4,5) ok this assms(9)] w show ?thesis by auto
qed

definition sample_session :: session where
  "sample_session = (newSession None ''a'' defaultConfig True ''u'' 0)\<lparr>out := [[65], [66]]\<rparr>"

lemma retained_4: "Suc (Suc (Suc (Suc 0))) \<le> maxRetainedWriteBuffer"
  by (simp add: maxRetainedWriteBuffer_def)

lemma sample_drain:
  "\<exists>t'. drain streamTransport (quic_transport defaultConfig Uvarint sample_up, sample_session)
      = (True, t', sample_session\<lparr>out := []\<rparr>) \<and> wire t' = [1, 65, 1, 66]"
  by (subst drain.simps, simp add: sample_session_def writeRound_def fillBatch_eq maxBatch_def
      stream_writeMessages_def quic_transport_def stream_on_def defaultConfig_def Second_def time_Now_def
      sample_up_def uvarint_append_eq frames_AB net_write_def Let_def retained_4)
    (subst drain.simps, simp)

theorem quic_server_to_client_witness:
  "\<exists>t' s'. drain streamTransport (quic_transport defaultConfig Uvarint sample_up, sample_session) = (True, t', s')
    \<and> (\<exists>cl'. receive_many 2 sample_client = ([[65], [66]], None, cl'))"
proof -
  obtain t' where d: "drain streamTransport (quic_transport defaultConfig Uvarint sample_up, sample_session)
      = (True, t', sample_session\<lparr>out := []\<rparr>)" and w: "wire t' = [1, 65, 1, 66]"
    using sample_drain by blast
  have "\<exists>cl'. receive_many (length (out sample_session)) sample_client = (out sample_session, None, cl')
      \<and> stream (qcReader cl') = [] \<and> out (sample_session\<lparr>out := []\<rparr>) = []"
    by (rule quic_server_to_client [OF is_codec_Uvarint sample_io d, of _ sample_up readBufferSize
        "[[1], [65, 1, 66]]" FaultEOF])
      (simp_all add: w sample_client_def sample_session_def newReader_def DefaultConfig_def uvarint_fits_def
        go_int_def)
  moreover have "out sample_session = [[65], [66]]" by (simp add: sample_session_def)
  ultimately have "\<exists>cl'. receive_many 2 sample_client = ([[65], [66]], None, cl')"
    by (auto simp: numeral_2_eq_2 simp del: receive_many.simps)
  then show ?thesis using d by blast
qed

lemma send_all_keeps:
  "send_all ms cl = (e, cl') \<Longrightarrow> qcStream cl' = qcStream cl \<and> qcCodec cl' = qcCodec cl \<and> qcConfig cl' = qcConfig cl"
proof (induction ms arbitrary: cl)
  case (Cons m ms)
  obtain x c1 where s: "quic_Send m cl = (x, c1)" by (metis surj_pair)
  then have "qcStream c1 = qcStream cl \<and> qcCodec c1 = qcCodec cl \<and> qcConfig c1 = qcConfig cl"
    by (auto simp: quic_Send_def split: option.splits prod.splits)
  then show ?case using Cons s by (cases x) auto
qed simp

text \<open>
  C2. The whole way round, for each of the three codecs: a QUIC client that has sent messages to the
  example server over a stream that takes every write gets exactly those messages back. The
  handler takes them all, the writer empties the queue, and whatever cut the network makes of
  the bytes in either direction, the client receives the messages it sent, in order.
\<close>

theorem quic_echo:
  assumes "is_codec c frame fits"
    and "qcStream cl = Some up" and "qcCodec cl = c" and "qcWire cl = []" and "io_writer (connWrite up)"
    and "send_all ms cl = (None, cl')"
    and "concat (incoming strm) = qcWire cl'" and "[] \<notin> set (incoming strm)"
    and "\<forall>d. connWriteDeadline strm d = None" and "\<forall>i b. connWrite strm i b = (length b, None)"
    and "\<forall>m \<in> set ms. fits (min (uint (MaxLength config)) (MaxPayload c)) m
           \<and> int (length m) \<le> uint (MaxLength config) \<and> fits (clMaxLength (qcConfig cl)) m"
    and "length clocks = length ms"
  shows "\<exists>ls t1 s1 t2 s2. handleSession quic_words streamTransport clocks
        (quic_transport config c strm, newSession None a config True uid now) = (ls, StillWaiting, t1, s1)
    \<and> drain streamTransport (t1, s1) = (True, t2, s2)
    \<and> (\<forall>n cs f. concat cs = wire t2 \<and> [] \<notin> set cs \<longrightarrow>
        (\<exists>cl''. receive_many (length ms) (cl'\<lparr>qcReader := new_reader_size n cs f\<rparr>) = (ms, None, cl'')))"
proof -
  note fc = is_codec_framing [OF assms(1)]
  let ?t = "quic_transport config c strm" and ?s = "newSession None a config True uid now"
  have "concat (incoming strm) = concat (map frame ms)"
    using framing_codec.client_sends_frames [OF fc assms(2,3,5,6)] assms(4,7) by simp
  then have h: "holds_frames c frame fits ms ?t"
    unfolding quic_transport_def using assms(8,11) uint32_word_nonneg [OF assms(1)]
    by (intro stream_on_holds) auto
  have g: "takes_writes c ?t" and e: "wire ?t = []"
    using assms(9,10) by (simp_all add: quic_transport_def stream_on_def takes_writes_def)
  have m: "\<forall>m \<in> set ms. fits (min (uint (MaxLength config)) (MaxPayload c)) m \<and> int (length m) \<le> maxLen ?s"
    using assms(11) by simp
  obtain ls t1 s1 t2 s2 where echo:
    "handleSession quic_words streamTransport clocks (?t, ?s) = (ls, StillWaiting, t1, s1)"
    "drain streamTransport (t1, s1) = (True, t2, s2)" "wire t2 = concat (map frame ms)"
    using framing_codec.session_echoes [OF fc g h can_send_new [of a config True uid now] _ assms(12) m, of quic_words] e
    by auto
  have "\<exists>cl''. receive_many (length ms) (cl'\<lparr>qcReader := new_reader_size n cs f\<rparr>) = (ms, None, cl'')"
    if "concat cs = wire t2" "[] \<notin> set cs" for n cs f
  proof -
    let ?cl = "cl'\<lparr>qcReader := new_reader_size n cs f\<rparr>"
    have "qcStream ?cl = Some up" "qcCodec ?cl = c" "qcConfig ?cl = qcConfig cl"
      using send_all_keeps [OF assms(6)] assms(2,3) by simp_all
    moreover have "reader_ok (qcReader ?cl)" "stream (qcReader ?cl) = concat (map frame ms) @ []"
      using that echo(3) by (simp_all add: reader_ok_new)
    ultimately show ?thesis
      using framing_codec.client_receives_frames [OF fc, of ?cl up ms "[]"] assms(11) by auto
  qed
  then show ?thesis using echo by blast
qed

theorem quic_echo_witness:
  "\<exists>cl'. send_all [[65], [66]] sample_client = (None, cl')
    \<and> (\<exists>ls t1 s1. handleSession quic_words streamTransport [(1, 2), (3, 4)]
        (quic_transport defaultConfig Uvarint sample_wire, newSession None ''a'' defaultConfig True ''u'' 0)
        = (ls, StillWaiting, t1, s1))"
proof -
  let ?cl = "sample_client\<lparr>qcWire := [1, 65, 1, 66], qcWrites := 2\<rparr>"
  have f: "\<forall>m \<in> set [[65], [66 :: byte]]. uvarint_fits (min (uint (MaxLength defaultConfig)) (MaxPayload Uvarint)) m
      \<and> int (length m) \<le> uint (MaxLength defaultConfig) \<and> uvarint_fits (clMaxLength (qcConfig sample_client)) m"
    by (simp add: uvarint_fits_def go_int_def defaultConfig_def defaultMaxLength_def MaxInt32_def
        sample_client_def DefaultConfig_def)
  have "\<exists>ls t1 s1 t2 s2. handleSession quic_words streamTransport [(1, 2), (3, 4)]
        (quic_transport defaultConfig Uvarint sample_wire, newSession None ''a'' defaultConfig True ''u'' 0)
        = (ls, StillWaiting, t1, s1)
    \<and> drain streamTransport (t1, s1) = (True, t2, s2)
    \<and> (\<forall>n cs f. concat cs = wire t2 \<and> [] \<notin> set cs \<longrightarrow>
        (\<exists>cl''. receive_many (length [[65], [66 :: byte]]) (?cl\<lparr>qcReader := new_reader_size n cs f\<rparr>)
          = ([[65], [66]], None, cl'')))"
    by (rule quic_echo [OF is_codec_Uvarint _ _ _ sample_io sample_sends _ _ _ _ f])
      (simp_all add: sample_client_def sample_wire_def, simp_all add: sample_up_def)
  then show ?thesis using sample_sends by blast
qed

text \<open>
  C36. A client and a server configured with the same codec for the same ALPN protocol frame
  alike: whichever of the two protocols is negotiated, that one or the default, the client's
  codecFor and the server's choice after Listen are the same codec.
\<close>

theorem client_server_codecs_agree:
  assumes "NewQUIC host port parent [WithQUICCodec a cd] = Inr q" and "quic_Listen env q = (None, q')"
    and "NewQUICClient dst (Some (NewClientConfig [WithClientQUICCodec a cd])) = Inr cl"
    and "proto = a \<or> proto = DefaultALPN"
  shows "\<exists>c. codecFor cl proto = Inr c \<and> choose_codec (codecs q') proto = Some c"
proof -
  let ?q = "defaultQUICConfig\<lparr>Codecs := store_codec (Codecs defaultQUICConfig) a cd,
      ALPN := prefer_alpn a (ALPN defaultQUICConfig)\<rparr>"
  have q: "qcfg q = ?q" "quicLn q = None"
    using assms(1) by (auto simp: NewQUIC_def WithQUICCodec_def Let_def split: option.splits)
  then obtain r where r: "resolveCodecs ?q = Inr r" "codecs q' = r"
    using assms(2) by (auto simp: quic_Listen_def Let_def split: sum.splits option.splits)
  from r(1) have "resolve_loop ?q (ALPN ?q) [] = Inr r"
    by (auto simp: resolveCodecs_def split: sum.splits if_splits)
  from resolve_loop_ok [OF this] have m: "map_of r = (\<lambda>x. if x \<in> set (ALPN ?q) then codec_for ?q x else map_of [] x)"
    by blast
  have cl: "quicConfig cl = defaultClientQUIC\<lparr>cqCodecs := store_codec None a cd,
      cqNextProtos := prefer_alpn a [DefaultALPN]\<rparr>" "clDelimiter (qcConfig cl) = DefaultDelimiter"
    using assms(3) by (auto simp: NewQUICClient_def NewClientConfig_def WithClientQUICCodec_def
        DefaultConfig_def defaultClientQUIC_def quicConfig_def split: if_splits)
  show ?thesis
    using assms(4) m r(2) cl
    by (auto simp: choose_codec_def codec_for_def registered_codec_def store_codec_def codecFor_def
        NewLegacy_cases DefaultDelimiter_def defaultQUICConfig_def prefer_alpn_eq)
qed

theorem client_server_codecs_agree_witness:
  "\<exists>q q' cl c. NewQUIC ''h'' 7 None [WithQUICCodec ''fps'' Uvarint] = Inr q
    \<and> quic_Listen \<lparr>envCrypto = sample_crypto, resolveAddr = Inr, listenUDP = (\<lambda>_. None),
         trListen = (\<lambda>_ _. Inr \<lparr>lnClosed = False, closeErr = None\<rparr>)\<rparr> q = (None, q')
    \<and> NewQUICClient ''h:7'' (Some (NewClientConfig [WithClientQUICCodec ''fps'' Uvarint])) = Inr cl
    \<and> codecFor cl ''fps'' = Inr c \<and> choose_codec (codecs q') ''fps'' = Some c"
proof -
  let ?env = "\<lparr>envCrypto = sample_crypto, resolveAddr = Inr, listenUDP = (\<lambda>_. None),
      trListen = (\<lambda>_ _. Inr \<lparr>lnClosed = False, closeErr = None\<rparr>)\<rparr>"
  obtain q where q: "NewQUIC ''h'' 7 None [WithQUICCodec ''fps'' Uvarint] = Inr q"
    by (simp add: NewQUIC_def WithQUICCodec_def ValidateConfig_def defaultConfig_def defaultMaxLength_def
        Second_def)
  obtain q' where q': "quic_Listen ?env q = (None, q')"
    using q by (auto simp: NewQUIC_def WithQUICCodec_def quic_Listen_def resolveCodecs_def tlsConfig_def sample_cert
        registered_codec_def store_codec_def defaultQUICConfig_def prefer_alpn_eq NewLegacy_cases
        DefaultDelimiter_def DefaultALPN_def Let_def split: option.splits)
  obtain cl where cl: "NewQUICClient ''h:7'' (Some (NewClientConfig [WithClientQUICCodec ''fps'' Uvarint])) = Inr cl"
    by (simp add: NewQUICClient_def)
  from client_server_codecs_agree [OF q q' cl, of "''fps''"] q q' cl show ?thesis by blast
qed

end
